(* ===== verification/Prelude.thy ===== *)
theory Prelude
  imports Main "HOL-Library.Word" "HOL-Library.Signed_Division"
begin

text \<open>
  What every component of the development shares:
  \<^item> Go outcomes as values: a normal return, a returned \<open>error\<close> (by its sentinel), a run-time
    panic (by its kind);
  \<^item> Go's \<open>int\<close> as an unbounded \<open>int\<close>, with \<open>i64\<close> written where 64-bit wrap-around can happen,
    truncating division, and \<open>uint32\<close> and \<open>byte\<close> as words;
  \<^item> the parts of \<open>bytes.Reader\<close> and \<open>encoding/binary\<close> that the sources call;
  \<^item> the rule collections \<open>res_simps\<close> and \<open>byte_simps\<close>, and facts on lists and words.
\<close>

unbundle bit_operations_syntax

named_theorems res_simps \<open>how a Go outcome is taken apart\<close>
named_theorems byte_simps \<open>evaluation of byte-buffer operations\<close>

section \<open>Types\<close>

type_synonym byte = "8 word"
type_synonym bytes = "byte list"
type_synonym uint32 = "32 word"

text \<open>
  The sentinel errors of the repository (every \<open>errors.New\<close> the modelled code returns). The
  sources wrap a sentinel with \<open>print.ErrorWrapf\<close>, which adds a message; callers only test the
  sentinel with \<open>errors.Is\<close>, so an error is its outermost sentinel. \<open>OsError\<close> stands for an error
  of the operating system that is returned unwrapped, \<open>LibError\<close> for one of a library.
\<close>

datatype go_error =
    ERR_PEER_LISTEN | ERR_PEER_LISTEN_EOF | ERR_PEER_LISTEN_TIMEOUT | ERR_PEER_LISTEN_RESET
  | ERR_PARSE_PEER | ERR_PEERMSG_FUNC | ERR_REQUESTPEERMSG | ERR_PEERMSG_BUILD
  | ERR_FILEINFO_READ_DOWNLOADED_DATA | ERR_FILEINFO_ASSEMBLE_BLOCKS
  | ERR_FILEINFO_ASSEMBLE_BLOCKS_ALREADY_EXISTS
  | ERR_ANNOUNCEURL | ERR_QUERY_ANNOUNCE | ERR_CONNECT_PEERS | ERR_DIAL_PEER | ERR_LISTEN_FOR_PEERS
  | ERR_ACCEPT_CONN__CLOSED_CONN | ERR_PEERCONN_WRITE | ERR_PEERCONN_WRITE__CLOSED_CONN
  | ERR_DECODE_FILE | ERR_RAND_BYTESLICE | ERR_DOWNLOAD_TORRENT | ERR_INSPECT_TORRENT
  | OsError | LibError

datatype go_panic =
    IndexOutOfRange | NilDereference | DivideByZero | MakeSliceLen | NegativeShift
  | SendOnClosedChannel | CloseOfNilChannel | TypeAssertion | ExplicitPanic

text \<open>
  \<open>Hang\<close> is the outcome of a call that never returns, because its goroutine blocks on a channel that nothing
  can ever make ready. Like a panic it ends the run of statements it occurs in.
\<close>

datatype 'a res = Ok 'a | Err go_error | Panic go_panic | Hang

section \<open>Outcomes\<close>

text \<open>
  Go's \<open>x, err := f(); if err != nil { return err }\<close>: go on with the value, pass an error or a
  panic to the caller.
\<close>

fun res_bind :: "'a res \<Rightarrow> ('a \<Rightarrow> 'b res) \<Rightarrow> 'b res" where
  "res_bind (Ok a) f = f a"
| "res_bind (Err e) f = Err e"
| "res_bind (Panic p) f = Panic p"
| "res_bind Hang f = Hang"

text \<open>\<open>if err != nil { return ErrorWrapf(e, err.Error()) }\<close>: the wrapping sentinel replaces the inner one.\<close>

fun wrap_err :: "go_error \<Rightarrow> 'a res \<Rightarrow> 'a res" where
  "wrap_err e (Ok a) = Ok a"
| "wrap_err e (Err e') = Err e"
| "wrap_err e (Panic p) = Panic p"
| "wrap_err e Hang = Hang"

fun is_panic :: "'a res \<Rightarrow> bool" where
  "is_panic (Panic p) = True"
| "is_panic _ = False"

fun is_Ok :: "'a res \<Rightarrow> bool" where
  "is_Ok (Ok a) = True"
| "is_Ok _ = False"

text \<open>A call that comes back to its caller, with a value or an error.\<close>

fun returns :: "'a res \<Rightarrow> bool" where
  "returns (Ok a) = True"
| "returns (Err e) = True"
| "returns _ = False"

lemma res_bind_eq_Ok [res_simps]:
  "res_bind m f = Ok b \<longleftrightarrow> (\<exists>a. m = Ok a \<and> f a = Ok b)"
  by (cases m) auto

lemma res_bind_eq_Panic [res_simps]:
  "res_bind m f = Panic p \<longleftrightarrow> m = Panic p \<or> (\<exists>a. m = Ok a \<and> f a = Panic p)"
  by (cases m) auto

lemma res_bind_eq_Err [res_simps]:
  "res_bind m f = Err e \<longleftrightarrow> m = Err e \<or> (\<exists>a. m = Ok a \<and> f a = Err e)"
  by (cases m) auto

lemma res_bind_eq_Hang [res_simps]:
  "res_bind m f = Hang \<longleftrightarrow> m = Hang \<or> (\<exists>a. m = Ok a \<and> f a = Hang)"
  by (cases m) auto

lemma wrap_err_eq_Ok [res_simps]: "wrap_err e m = Ok a \<longleftrightarrow> m = Ok a"
  by (cases m) auto

lemma wrap_err_eq_Panic [res_simps]: "wrap_err e m = Panic p \<longleftrightarrow> m = Panic p"
  by (cases m) auto

lemma is_panic_iff [res_simps]: "is_panic m \<longleftrightarrow> (\<exists>p. m = Panic p)"
  by (cases m) auto

lemma is_Ok_iff [res_simps]: "is_Ok m \<longleftrightarrow> (\<exists>a. m = Ok a)"
  by (cases m) auto

lemma returns_iff [res_simps]: "returns m \<longleftrightarrow> \<not> is_panic m \<and> m \<noteq> Hang"
  by (cases m) auto

lemma returns_res_bind: "returns m \<Longrightarrow> (\<And>a. m = Ok a \<Longrightarrow> returns (f a)) \<Longrightarrow> returns (res_bind m f)"
  by (cases m) auto

lemma res_bind_assoc: "res_bind (res_bind m f) g = res_bind m (\<lambda>a. res_bind (f a) g)"
  by (cases m) auto

lemma res_bind_cong [fundef_cong]:
  "m = m' \<Longrightarrow> (\<And>a. m' = Ok a \<Longrightarrow> f a = g a) \<Longrightarrow> res_bind m f = res_bind m' g"
  by (cases m') auto

section \<open>Loops\<close>

text \<open>
  A Go \<open>for\<close> loop over the elements of a list (a slice, the entries of a map in some order, or the
  counter values \<open>[a..b]\<close>) with a loop state: the first error or panic of the body ends the loop.
\<close>

fun for_each :: "('i \<Rightarrow> 's \<Rightarrow> 's res) \<Rightarrow> 'i list \<Rightarrow> 's \<Rightarrow> 's res" where
  "for_each f [] s = Ok s"
| "for_each f (i # is) s = res_bind (f i s) (for_each f is)"

lemma for_each_append [simp]:
  "for_each f (is @ js) s = res_bind (for_each f is s) (for_each f js)"
proof (induction "is" arbitrary: s)
  case (Cons i "is")
  then show ?case by (cases "f i s") simp_all
qed simp

lemma for_each_cong [fundef_cong]:
  "is = is' \<Longrightarrow> s = s' \<Longrightarrow> (\<And>i s. i \<in> set is' \<Longrightarrow> f i s = g i s) \<Longrightarrow> for_each f is s = for_each g is' s'"
proof (induction is' arbitrary: "is" s s')
  case (Cons i is')
  then show ?case by (cases "g i s'") simp_all
qed simp

text \<open>A body that never fails, and the loops that collect or count elements.\<close>

lemma for_each_total:
  "(\<And>i s. i \<in> set is \<Longrightarrow> f i s = Ok (g i s)) \<Longrightarrow> for_each f is s = Ok (fold g is s)"
  by (induction "is" arbitrary: s) auto

lemma for_each_collect:
  "(\<And>i acc. i \<in> set is \<Longrightarrow> f i acc = Ok (if P i then acc @ [h i] else acc)) \<Longrightarrow>
   for_each f is acc = Ok (acc @ map h (filter P is))"
  by (induction "is" arbitrary: acc) auto

lemma for_each_invariant:
  assumes "for_each f is s = Ok s'" and "I s"
    and "\<And>i s s'. i \<in> set is \<Longrightarrow> I s \<Longrightarrow> f i s = Ok s' \<Longrightarrow> I s'"
  shows "I s'"
  using assms
proof (induction "is" arbitrary: s)
  case (Cons i "is")
  from Cons.prems(1) obtain t where t: "f i s = Ok t" "for_each f is t = Ok s'"
    by (auto simp: res_bind_eq_Ok)
  show ?case
    by (rule Cons.IH [OF t(2)]) (use Cons.prems t in \<open>auto\<close>)
qed simp

text \<open>A loop whose body fails at one element fails there, whatever the earlier iterations do.\<close>

lemma for_each_panic:
  assumes "x \<in> set is" and "\<And>s. is_panic (f x s)"
    and "\<And>i s. i \<in> set is \<Longrightarrow> (\<exists>t. f i s = Ok t) \<or> is_panic (f i s)"
  shows "is_panic (for_each f is s)"
  using assms
proof (induction "is" arbitrary: s)
  case (Cons i "is")
  from Cons.prems(3) [of i s] show ?case
  proof
    assume "\<exists>t. f i s = Ok t"
    then obtain t where t: "f i s = Ok t" ..
    with Cons.prems(2) [of s] have "x \<noteq> i" by auto
    with Cons.prems(1) have "x \<in> set is" by simp
    then have "is_panic (for_each f is t)"
      by (rule Cons.IH) (use Cons.prems in \<open>auto\<close>)
    with t show ?thesis by simp
  next
    assume "is_panic (f i s)"
    then show ?thesis by (auto simp: is_panic_iff)
  qed simp
qed simp

section \<open>Effects\<close>

text \<open>
  Code that changes a state and may fail: the state is returned with every outcome, because what was changed
  before an error or a panic stays changed.
\<close>

type_synonym ('s, 'a) act = "'s \<Rightarrow> 's \<times> 'a res"

definition ret :: "'a res \<Rightarrow> ('s, 'a) act" where
  "ret r s = (s, r)"

definition act_bind :: "('s, 'a) act \<Rightarrow> ('a \<Rightarrow> ('s, 'b) act) \<Rightarrow> ('s, 'b) act" where
  "act_bind m f s = (case m s of
       (s', Ok a) \<Rightarrow> f a s'
     | (s', Err e) \<Rightarrow> (s', Err e)
     | (s', Panic p) \<Rightarrow> (s', Panic p)
     | (s', Hang) \<Rightarrow> (s', Hang))"

definition act_wrap :: "go_error \<Rightarrow> ('s, 'a) act \<Rightarrow> ('s, 'a) act" where
  "act_wrap e m s = (case m s of (s', r) \<Rightarrow> (s', wrap_err e r))"

fun for_act :: "('i \<Rightarrow> ('s, unit) act) \<Rightarrow> 'i list \<Rightarrow> ('s, unit) act" where
  "for_act f [] s = (s, Ok ())"
| "for_act f (i # is) s = act_bind (f i) (\<lambda>_. for_act f is) s"

named_theorems act_simps \<open>how a step with effects is evaluated\<close>

lemma ret_eq [act_simps]: "ret r s = (s, r)"
  by (simp add: ret_def)

lemma act_bind_Ok [act_simps]: "m s = (s', Ok a) \<Longrightarrow> act_bind m f s = f a s'"
  by (simp add: act_bind_def)

lemma act_bind_fail [act_simps]:
  "m s = (s', Err e) \<Longrightarrow> act_bind m f s = (s', Err e)"
  "m s = (s', Panic p) \<Longrightarrow> act_bind m f s = (s', Panic p)"
  "m s = (s', Hang) \<Longrightarrow> act_bind m f s = (s', Hang)"
  by (simp_all add: act_bind_def)

lemma act_bind_ret [act_simps]:
  "act_bind (ret (Ok a)) f s = f a s"
  "act_bind (ret (Err e)) f s = (s, Err e)"
  "act_bind (ret (Panic p)) f s = (s, Panic p)"
  "act_bind (ret Hang) f s = (s, Hang)"
  by (simp_all add: act_bind_def ret_def)

lemma act_bind_eq_Ok:
  "act_bind m f s = (t, Ok b) \<longleftrightarrow> (\<exists>a s'. m s = (s', Ok a) \<and> f a s' = (t, Ok b))"
  by (cases "m s"; cases "snd (m s)") (auto simp: act_bind_def)

lemma act_wrap_eq [act_simps]: "m s = (s', r) \<Longrightarrow> act_wrap e m s = (s', wrap_err e r)"
  by (simp add: act_wrap_def)

lemma for_act_append:
  "for_act f (is @ js) s = act_bind (for_act f is) (\<lambda>_. for_act f js) s"
proof (induction "is" arbitrary: s)
  case (Cons i "is")
  then show ?case by (cases "f i s"; cases "snd (f i s)") (auto simp: act_bind_def)
qed (simp add: act_bind_def)

lemma for_act_total:
  "(\<And>i s. i \<in> set is \<Longrightarrow> f i s = (g i s, Ok ())) \<Longrightarrow> for_act f is s = (fold g is s, Ok ())"
  by (induction "is" arbitrary: s) (auto simp: act_simps)

text \<open>A step and a loop keep an invariant of the state, whatever their outcome.\<close>

lemma act_bind_invariant:
  assumes "I (fst (m s))" "\<And>a s'. m s = (s', Ok a) \<Longrightarrow> I s' \<Longrightarrow> I (fst (f a s'))"
  shows "I (fst (act_bind m f s))"
  using assms by (cases "m s"; cases "snd (m s)") (auto simp: act_bind_def)

lemma for_act_invariant:
  assumes "I s" "\<And>i s. i \<in> set is \<Longrightarrow> I s \<Longrightarrow> I (fst (f i s))"
  shows "I (fst (for_act f is s))"
  using assms
proof (induction "is" arbitrary: s)
  case (Cons i "is")
  show ?case
    unfolding for_act.simps
    by (rule act_bind_invariant) (use Cons in auto)
qed simp

section \<open>Integers\<close>

text \<open>
  A Go \<open>int\<close> has 64 bits on the platforms the program targets. \<open>i64\<close> is the wrapped result of an
  operation that can leave that range; conversions to \<open>uint32\<close> are \<open>word_of_int\<close>, which reduces
  modulo \<open>2 ^ 32\<close> exactly as Go's conversion does (also for negative values).
\<close>

definition i64 :: "int \<Rightarrow> int" where
  "i64 x = (x + 2 ^ 63) mod 2 ^ 64 - 2 ^ 63"

lemma i64_id [simp]: "- (2 ^ 63) \<le> x \<Longrightarrow> x < 2 ^ 63 \<Longrightarrow> i64 x = x"
  by (simp add: i64_def)

lemma word32_of_i64 [simp]: "(word_of_int (i64 x) :: uint32) = word_of_int x"
proof -
  have "i64 x mod 2 ^ 32 = ((x + 2 ^ 63) mod 2 ^ 64 mod 2 ^ 32 - 2 ^ 63 mod 2 ^ 32) mod 2 ^ 32"
    by (simp only: i64_def mod_diff_eq)
  also have "(x + 2 ^ 63) mod 2 ^ 64 mod 2 ^ 32 = (x + 2 ^ 63) mod (2 ^ 32)"
    by (rule mod_mod_cancel) simp
  also have "((x + 2 ^ 63) mod (2 ^ 32) - 2 ^ 63 mod 2 ^ 32) mod 2 ^ 32 = (x :: int) mod 2 ^ 32"
    by (simp only: mod_diff_eq) simp
  finally show ?thesis
    by (intro word_of_int_eq_iff [THEN iffD2]) (simp add: take_bit_eq_mod)
qed

text \<open>Go's \<open>/\<close> and \<open>%\<close> on \<open>int\<close>: truncating, and a panic on a zero divisor.\<close>

definition go_div :: "int \<Rightarrow> int \<Rightarrow> int res" where
  "go_div a b = (if b = 0 then Panic DivideByZero else Ok (a sdiv b))"

definition go_mod :: "int \<Rightarrow> int \<Rightarrow> int res" where
  "go_mod a b = (if b = 0 then Panic DivideByZero else Ok (a smod b))"

lemma sdiv_nonneg [simp]: "0 \<le> a \<Longrightarrow> 0 \<le> b \<Longrightarrow> a sdiv b = a div (b::int)"
  by (cases "b = 0") (auto simp: signed_divide_int_def sgn_if)

lemma smod_nonneg [simp]: "0 \<le> a \<Longrightarrow> 0 \<le> b \<Longrightarrow> a smod b = a mod (b::int)"
  by (cases "a = 0") (auto simp: signed_modulo_int_def sgn_if)

text \<open>Go's \<open>/\<close> on \<open>uint32\<close>.\<close>

definition u32_div :: "uint32 \<Rightarrow> uint32 \<Rightarrow> uint32 res" where
  "u32_div a b = (if b = 0 then Panic DivideByZero else Ok (a div b))"

lemma uint_u32_div: "u32_div a b = Ok c \<Longrightarrow> uint c = uint a div uint b"
  by (auto simp: u32_div_def uint_div split: if_splits)

section \<open>Slices\<close>

text \<open>A bounds-checked read and write of a slice element, \<open>xs[i]\<close> with a Go \<open>int\<close> index.\<close>

definition slice_get :: "'a list \<Rightarrow> int \<Rightarrow> 'a res" where
  "slice_get xs i =
     (if 0 \<le> i \<and> i < int (length xs) then Ok (xs ! nat i) else Panic IndexOutOfRange)"

definition slice_set :: "'a list \<Rightarrow> int \<Rightarrow> 'a \<Rightarrow> 'a list res" where
  "slice_set xs i x =
     (if 0 \<le> i \<and> i < int (length xs) then Ok (xs[nat i := x]) else Panic IndexOutOfRange)"

text \<open>\<open>make([]byte, n)\<close>: zero bytes, a panic on a negative length.\<close>

definition make_bytes :: "int \<Rightarrow> bytes res" where
  "make_bytes n = (if n < 0 then Panic MakeSliceLen else Ok (replicate (nat n) 0))"

section \<open>bytes.Reader\<close>

text \<open>
  \<open>bytes.NewReader(s).ReadAt(buff, off)\<close> with \<open>len(buff) = n\<close>: an error (\<open>io.EOF\<close>, here \<open>None\<close>)
  when \<open>off\<close> is not inside \<open>s\<close> or fewer than \<open>n\<close> bytes follow it, the \<open>n\<close> bytes otherwise.
\<close>

definition read_at :: "bytes \<Rightarrow> nat \<Rightarrow> nat \<Rightarrow> bytes option" where
  "read_at s off n =
     (if off \<ge> length s then None
      else if length s < off + n then None
      else Some (take n (drop off s)))"

text \<open>
  \<open>bytes.NewReader(s).Read(buff)\<close> on a fresh zero-filled \<open>buff\<close> of length \<open>n\<close>: an error on an empty
  source, otherwise \<open>buff\<close> with as many bytes copied as there are; a short read is no error.
\<close>

definition read_first :: "bytes \<Rightarrow> nat \<Rightarrow> bytes option" where
  "read_first s n =
     (if s = [] then None else Some (take n s @ replicate (n - length s) 0))"

lemma read_at_Some_iff [byte_simps]:
  "read_at s off n = Some b \<longleftrightarrow>
     off < length s \<and> off + n \<le> length s \<and> b = take n (drop off s)"
  by (auto simp: read_at_def)

lemma read_at_None_iff [byte_simps]:
  "read_at s off n = None \<longleftrightarrow> length s \<le> off \<or> length s < off + n"
  by (auto simp: read_at_def)

lemma read_at_append_left:
  "off + n \<le> length s \<Longrightarrow> off < length s \<Longrightarrow> read_at (s @ t) off n = read_at s off n"
  by (auto simp: read_at_def)

lemma read_first_exact [byte_simps]: "s \<noteq> [] \<Longrightarrow> length s = n \<Longrightarrow> read_first s n = Some s"
  by (simp add: read_first_def)

section \<open>encoding/binary, big endian\<close>

definition PutUint32 :: "uint32 \<Rightarrow> bytes" where
  "PutUint32 v = [ucast (drop_bit 24 v), ucast (drop_bit 16 v), ucast (drop_bit 8 v), ucast v]"

text \<open>\<open>uint32(b[3]) | uint32(b[2])<<8 | uint32(b[1])<<16 | uint32(b[0])<<24\<close>\<close>

definition be_word :: "byte \<Rightarrow> byte \<Rightarrow> byte \<Rightarrow> byte \<Rightarrow> uint32" where
  "be_word a b c d =
     ucast d OR push_bit 8 (ucast c) OR push_bit 16 (ucast b) OR push_bit 24 (ucast a)"

text \<open>\<open>binary.BigEndian.Uint32(b)\<close> reads the first four bytes and panics on a shorter slice.\<close>

fun Uint32 :: "bytes \<Rightarrow> uint32 res" where
  "Uint32 (a # b # c # d # rest) =
     Ok (be_word a b c d)"
| "Uint32 _ = Panic IndexOutOfRange"

lemma length_PutUint32 [simp]: "length (PutUint32 v) = 4"
  by (simp add: PutUint32_def)

lemma PutUint32_not_Nil [simp]: "PutUint32 v \<noteq> []"
  by (simp add: PutUint32_def)

text \<open>
  A codec of fixed width: an encoder whose images all have the same length, and a decoder that reads
  the value back and ignores what follows. The two lemmas are what a field at a known offset of a
  message needs.
\<close>

locale fixed_width_codec =
  fixes enc :: "'a \<Rightarrow> bytes" and dec :: "bytes \<Rightarrow> 'a res" and width :: nat
  assumes length_enc: "length (enc v) = width"
    and dec_enc: "dec (enc v @ rest) = Ok v"
    and width_pos: "0 < width"
begin

lemma read_field:
  assumes "length pre = off"
  shows "read_at (pre @ enc v @ post) off width = Some (enc v)"
  using assms length_enc width_pos by (auto simp: read_at_def)

lemma read_field_first:
  "read_at (enc v @ post) 0 width = Some (enc v)"
  using read_field [of "[]" 0] by simp

lemma dec_field: "dec (enc v) = Ok v"
  using dec_enc [of v "[]"] by simp

lemma enc_inject: "enc v = enc w \<longleftrightarrow> v = w"
  by (metis dec_field res.inject(1))

end

lemma bit_byte_beyond [simp]: "8 \<le> n \<Longrightarrow> \<not> bit (b :: byte) n"
  using bit_imp_le_length [of b n] by auto

lemma bit_be_word:
  "bit (be_word a b c d) n
    \<longleftrightarrow> (if n < 8 then bit d n else if n < 16 then bit c (n - 8)
         else if n < 24 then bit b (n - 16) else bit a (n - 24))"
proof -
  consider "n < 8" | "8 \<le> n" "n < 16" | "16 \<le> n" "n < 24" | "24 \<le> n" "n < 32" | "32 \<le> n"
    by linarith
  then show ?thesis
    by cases (auto simp: be_word_def bit_or_iff bit_push_bit_iff bit_unsigned_iff)
qed

lemma be_word_bytes:
  "be_word (ucast (drop_bit 24 v)) (ucast (drop_bit 16 v)) (ucast (drop_bit 8 v)) (ucast v) = v"
proof (rule bit_word_eqI)
  fix n :: nat
  consider "n < 8" | "8 \<le> n" "n < 16" | "16 \<le> n" "n < 24" | "24 \<le> n" "n < 32" | "32 \<le> n"
    by linarith
  then show "bit (be_word (ucast (drop_bit 24 v)) (ucast (drop_bit 16 v)) (ucast (drop_bit 8 v)) (ucast v)) n
      \<longleftrightarrow> bit v n"
    unfolding bit_be_word
    by cases (auto simp: bit_drop_bit_eq bit_unsigned_iff dest: bit_imp_le_length)
qed

lemma bytes_be_word:
  "ucast (drop_bit 24 (be_word a b c d)) = a" "ucast (drop_bit 16 (be_word a b c d)) = b"
  "ucast (drop_bit 8 (be_word a b c d)) = c" "ucast (be_word a b c d) = d"
  by (rule bit_word_eqI; simp add: bit_drop_bit_eq bit_unsigned_iff bit_be_word)+

lemma Uint32_PutUint32 [simp]: "Uint32 (PutUint32 v @ rest) = Ok v"
  by (simp add: PutUint32_def be_word_bytes)

interpretation u32: fixed_width_codec PutUint32 Uint32 4
  by unfold_locales simp_all

lemma PutUint32_of_bytes:
  assumes "length s = 4" and "Uint32 s = Ok v"
  shows "PutUint32 v = s"
proof -
  obtain a b c d where "s = [a, b, c, d]"
    using assms(1) by (auto simp: numeral_eq_Suc length_Suc_conv)
  with assms(2) show ?thesis
    by (auto simp: PutUint32_def bytes_be_word)
qed

lemma Uint32_total: "4 \<le> length s \<Longrightarrow> \<exists>v. Uint32 s = Ok v"
  by (cases s rule: Uint32.cases) auto

lemma Uint32_panic: "length s < 4 \<Longrightarrow> Uint32 s = Panic IndexOutOfRange"
  by (cases s rule: Uint32.cases) auto

text \<open>The first byte of an encoded value below \<open>2 ^ 24\<close> is zero: no such length prefix starts like a handshake.\<close>

lemma PutUint32_small_first:
  assumes "uint v < 2 ^ 24"
  shows "PutUint32 v = 0 # tl (PutUint32 v)"
proof -
  have "uint (drop_bit 24 v) = 0"
    using assms by (simp add: unsigned_drop_bit_eq drop_bit_eq_div uint_div div_pos_pos_trivial)
  then have "drop_bit 24 v = 0" by (simp only: uint_0_iff)
  then show ?thesis by (simp add: PutUint32_def)
qed

end
