(* ===== verification/Util.thy ===== *)
theory Util
  imports Prelude
begin

text \<open>
  \<^verbatim>\<open>util/bitfield.go\<close> and the integer-slice functions of \<^verbatim>\<open>util/util.go\<close>.

  A \<open>Bitfield\<close> keeps its record of bytes and a bit count. \<open>Set\<close> has a value receiver but writes
  through the shared slice, so the model returns the bitfield with the written byte. The lemmas
  read a bitfield as a set of indices (\<open>bit_at\<close>) and show what \<open>Set\<close>, \<open>Has\<close> and \<open>AsIntSlice\<close> do on
  both sides of the slice bounds; locale \<open>index_set\<close> is the contract that the builder of BITFIELD
  messages relies on.
\<close>

section \<open>util/bitfield.go\<close>

record Bitfield =
  bf_Bytes :: bytes
  bf_NumOfBits :: int

text \<open>\<open>math.Ceil(float64(n) / 8.0)\<close> is exact for the bit counts a \<open>float64\<close> represents (below \<open>2 ^ 53\<close>).\<close>

definition NewBitfield :: "int \<Rightarrow> Bitfield res" where
  "NewBitfield numOfBits =
     res_bind (make_bytes ((numOfBits + 7) div 8)) (\<lambda>buff.
       Ok \<lparr>bf_Bytes = buff, bf_NumOfBits = numOfBits\<rparr>)"

definition NewBitfieldFromBytes :: "bytes \<Rightarrow> Bitfield" where
  "NewBitfieldFromBytes buff = \<lparr>bf_Bytes = buff, bf_NumOfBits = int (length buff) * 8\<rparr>"

text \<open>\<open>1 << bitIdx\<close> on a \<open>byte\<close>: a negative shift count panics.\<close>

definition shl_one :: "int \<Rightarrow> byte res" where
  "shl_one n = (if n < 0 then Panic NegativeShift else Ok (push_bit (nat n) 1))"

definition Bitfield_Set :: "Bitfield \<Rightarrow> int \<Rightarrow> Bitfield res" where
  "Bitfield_Set self i =
     (let byteIdx = i sdiv 8; bitIdx = i smod 8 in
      res_bind (shl_one bitIdx) (\<lambda>m.
      res_bind (slice_get (bf_Bytes self) byteIdx) (\<lambda>b.
      res_bind (slice_set (bf_Bytes self) byteIdx (b OR m)) (\<lambda>bs.
        Ok (self\<lparr>bf_Bytes := bs\<rparr>)))))"

definition Bitfield_Has :: "Bitfield \<Rightarrow> int \<Rightarrow> bool res" where
  "Bitfield_Has self i =
     (let byteIdx = i sdiv 8; bitIdx = i smod 8 in
      res_bind (shl_one bitIdx) (\<lambda>m.
      res_bind (slice_get (bf_Bytes self) byteIdx) (\<lambda>b.
        Ok (b AND m \<noteq> 0))))"

definition DumpAsBitstring :: "Bitfield \<Rightarrow> string res" where
  "DumpAsBitstring self =
     for_each (\<lambda>i sb. res_bind (Bitfield_Has self i) (\<lambda>h.
        Ok (if h then sb @ ''1'' else sb @ ''0''))) (rev [0..bf_NumOfBits self - 1]) []"

definition AsIntSlice :: "Bitfield \<Rightarrow> int \<Rightarrow> int list res" where
  "AsIntSlice self mx =
     for_each (\<lambda>i indices. res_bind (Bitfield_Has self i) (\<lambda>h.
        Ok (if h then indices @ [i] else indices))) [0..mx] []"

subsection \<open>A bitfield as a set of indices\<close>

definition bf_cap :: "Bitfield \<Rightarrow> int" where
  "bf_cap f = 8 * int (length (bf_Bytes f))"

definition bit_at :: "Bitfield \<Rightarrow> int \<Rightarrow> bool" where
  "bit_at f i = bit (bf_Bytes f ! nat (i div 8)) (nat (i mod 8))"

lemma byte_index_in_range:
  "0 \<le> i \<Longrightarrow> i < bf_cap f \<Longrightarrow> nat (i div 8) < length (bf_Bytes f)"
  by (simp add: bf_cap_def nat_less_iff)

lemma shl_one_mod [simp]: "shl_one (i mod 8) = Ok (push_bit (nat (i mod 8)) 1)"
  by (simp add: shl_one_def not_less)

lemma Has_in_range:
  assumes "0 \<le> i" and "i < bf_cap f"
  shows "Bitfield_Has f i = Ok (bit_at f i)"
proof -
  have "i div 8 < int (length (bf_Bytes f))"
    using assms by (simp add: bf_cap_def)
  then show ?thesis
    using assms
    by (simp add: Bitfield_Has_def Let_def slice_get_def bit_at_def bit_iff_and_push_bit_not_eq_0)
qed

lemma Set_in_range:
  assumes "0 \<le> i" and "i < bf_cap f"
  shows "Bitfield_Set f i = Ok (f\<lparr>bf_Bytes :=
     (bf_Bytes f)[nat (i div 8) := bf_Bytes f ! nat (i div 8) OR push_bit (nat (i mod 8)) 1]\<rparr>)"
proof -
  have "i div 8 < int (length (bf_Bytes f))"
    using assms by (simp add: bf_cap_def)
  then show ?thesis
    using assms by (simp add: Bitfield_Set_def Let_def slice_get_def slice_set_def)
qed

lemma slice_get_beyond: "bf_cap f \<le> i \<Longrightarrow> slice_get (bf_Bytes f) (i div 8) = Panic IndexOutOfRange"
  by (auto simp: slice_get_def bf_cap_def)

lemma negative_index:
  fixes i :: int
  assumes "i < 0"
  shows "i smod 8 < 0 \<or> i sdiv 8 < 0"
proof -
  have "8 * (i sdiv 8) + i smod 8 = (i :: int)" by (rule mult_sdiv_smod_eq)
  with assms show ?thesis by linarith
qed

lemma Has_out_of_range:
  assumes "i < 0 \<or> bf_cap f \<le> i"
  shows "is_panic (Bitfield_Has f i)"
proof (cases "i < 0")
  case True
  then show ?thesis
    using negative_index [of i]
    by (auto simp: Bitfield_Has_def shl_one_def slice_get_def Let_def)
next
  case False
  with assms show ?thesis
    by (simp add: Bitfield_Has_def Let_def slice_get_beyond)
qed

lemma Set_out_of_range:
  assumes "i < 0 \<or> bf_cap f \<le> i"
  shows "is_panic (Bitfield_Set f i)"
proof (cases "i < 0")
  case True
  then show ?thesis
    using negative_index [of i]
    by (auto simp: Bitfield_Set_def shl_one_def slice_get_def Let_def)
next
  case False
  with assms show ?thesis
    by (simp add: Bitfield_Set_def Let_def slice_get_beyond)
qed

lemma cap_Set [simp]: "Bitfield_Set f i = Ok f' \<Longrightarrow> bf_cap f' = bf_cap f"
  by (auto simp: Bitfield_Set_def Let_def slice_set_def bf_cap_def res_bind_eq_Ok split: if_splits)

lemma NumOfBits_Set: "Bitfield_Set f i = Ok f' \<Longrightarrow> bf_NumOfBits f' = bf_NumOfBits f"
  by (auto simp: Bitfield_Set_def Let_def slice_set_def res_bind_eq_Ok split: if_splits)

lemma div_mod_8_eq: "0 \<le> i \<Longrightarrow> 0 \<le> j \<Longrightarrow> nat (i div 8) = nat (j div 8) \<Longrightarrow> nat (i mod 8) = nat (j mod 8) \<Longrightarrow> i = (j :: int)"
  by (metis eq_nat_nat_iff mult_div_mod_eq pos_imp_zdiv_nonneg_iff pos_mod_sign zero_less_numeral)

lemma bit_at_Set:
  assumes "Bitfield_Set f i = Ok f'" and i: "0 \<le> i" "i < bf_cap f" and j: "0 \<le> j" "j < bf_cap f"
  shows "bit_at f' j \<longleftrightarrow> j = i \<or> bit_at f j"
proof -
  have f': "f' = f\<lparr>bf_Bytes := (bf_Bytes f)[nat (i div 8) :=
      bf_Bytes f ! nat (i div 8) OR push_bit (nat (i mod 8)) 1]\<rparr>"
    using assms(1) Set_in_range [OF i] by simp
  have in_range: "nat (i div 8) < length (bf_Bytes f)" using i by (rule byte_index_in_range)
  show ?thesis
  proof (cases "nat (j div 8) = nat (i div 8)")
    case True
    have "nat (j mod 8) < 8" by (simp add: nat_less_iff)
    then have "bit (push_bit (nat (i mod 8)) 1 :: byte) (nat (j mod 8)) \<longleftrightarrow> nat (j mod 8) = nat (i mod 8)"
      by (auto simp: bit_exp_iff)
    also have "\<dots> \<longleftrightarrow> j = i"
      using True div_mod_8_eq [OF j(1) i(1)] by auto
    finally show ?thesis
      using True in_range by (auto simp: f' bit_at_def bit_or_iff)
  next
    case False
    then have "j \<noteq> i" by auto
    with False show ?thesis by (simp add: f' bit_at_def)
  qed
qed

subsection \<open>The contract of a set of indices\<close>

text \<open>
  What a client that adds indices in a loop relies on: inside the capacity \<open>add\<close> succeeds, keeps the
  capacity and changes exactly one membership; outside it panics. The two lemmas are the result of
  the loop: every index is added, in whatever order the loop visits them.
\<close>

locale index_set =
  fixes add :: "'s \<Rightarrow> int \<Rightarrow> 's res"
    and mem :: "'s \<Rightarrow> int \<Rightarrow> bool"
    and cap :: "'s \<Rightarrow> int"
  assumes add_ok: "0 \<le> i \<Longrightarrow> i < cap s \<Longrightarrow> \<exists>s'. add s i = Ok s'"
    and add_panic: "i < 0 \<or> cap s \<le> i \<Longrightarrow> is_panic (add s i)"
    and add_cap: "add s i = Ok s' \<Longrightarrow> cap s' = cap s"
    and add_mem: "add s i = Ok s' \<Longrightarrow> 0 \<le> j \<Longrightarrow> j < cap s \<Longrightarrow> mem s' j \<longleftrightarrow> j = i \<or> mem s j"
begin

lemma add_all_ok:
  assumes "\<forall>i \<in> set is. 0 \<le> i \<and> i < cap s"
  shows "\<exists>s'. for_each (\<lambda>i s. add s i) is s = Ok s' \<and> cap s' = cap s \<and>
           (\<forall>j. 0 \<le> j \<longrightarrow> j < cap s \<longrightarrow> (mem s' j \<longleftrightarrow> j \<in> set is \<or> mem s j))"
  using assms
proof (induction "is" arbitrary: s)
  case (Cons i "is")
  then obtain t where t: "add s i = Ok t" using add_ok [of i s] by auto
  have cap: "cap t = cap s" using t by (rule add_cap)
  with Cons.prems have "\<forall>i \<in> set is. 0 \<le> i \<and> i < cap t" by simp
  from Cons.IH [OF this] show ?case
    using t cap add_mem [OF t] by (auto simp: res_bind_eq_Ok)
qed simp

lemma add_each_cases: "(\<exists>t. add s i = Ok t) \<or> is_panic (add s i)"
  using add_ok [of i s] add_panic [of i s] by (meson not_le)

lemma add_all_panic:
  assumes "i \<in> set is" and "i < 0 \<or> cap s \<le> i"
  shows "is_panic (for_each (\<lambda>i s. add s i) is s)"
  using assms
proof (induction "is" arbitrary: s)
  case (Cons k "is")
  show ?case
  proof (cases "\<exists>t. add s k = Ok t")
    case True
    then obtain t where t: "add s k = Ok t" ..
    with Cons.prems(2) have "i \<noteq> k" using add_panic [of i s] by auto
    with Cons.prems(1) have "i \<in> set is" by simp
    moreover have "i < 0 \<or> cap t \<le> i" using Cons.prems(2) add_cap [OF t] by simp
    ultimately show ?thesis using t by (simp add: Cons.IH)
  next
    case False
    then have "is_panic (add s k)" using add_each_cases [of s k] by blast
    then show ?thesis by (auto simp: is_panic_iff)
  qed
qed simp

end

interpretation bf: index_set Bitfield_Set bit_at bf_cap
proof unfold_locales
  fix f i
  show "0 \<le> i \<Longrightarrow> i < bf_cap f \<Longrightarrow> \<exists>f'. Bitfield_Set f i = Ok f'"
    by (simp add: Set_in_range)
  show "i < 0 \<or> bf_cap f \<le> i \<Longrightarrow> is_panic (Bitfield_Set f i)"
    by (rule Set_out_of_range)
next
  fix f f' i j
  assume set: "Bitfield_Set f i = Ok f'"
  show "bf_cap f' = bf_cap f" using set by simp
  assume "0 \<le> j" "j < bf_cap f"
  moreover have "0 \<le> i" "i < bf_cap f" using set Set_out_of_range [of i f] by force+
  ultimately show "bit_at f' j \<longleftrightarrow> j = i \<or> bit_at f j"
    using bit_at_Set [OF set] by blast
qed

subsection \<open>Reading a bitfield\<close>

lemma AsIntSlice_in_range:
  assumes "mx < bf_cap f"
  shows "AsIntSlice f mx = Ok (filter (bit_at f) [0..mx])"
proof -
  have "AsIntSlice f mx = Ok ([] @ map id (filter (bit_at f) [0..mx]))"
    unfolding AsIntSlice_def
    by (rule for_each_collect) (use assms in \<open>simp add: Has_in_range\<close>)
  then show ?thesis by simp
qed

lemma AsIntSlice_out_of_range:
  assumes "bf_cap f \<le> mx"
  shows "is_panic (AsIntSlice f mx)"
  unfolding AsIntSlice_def
proof (rule for_each_panic [where x = mx])
  have "0 \<le> bf_cap f" by (simp add: bf_cap_def)
  with assms show "mx \<in> set [0..mx]" by simp
next
  fix acc
  show "is_panic (res_bind (Bitfield_Has f mx) (\<lambda>h. Ok (if h then acc @ [mx] else acc)))"
    using Has_out_of_range [of mx f] assms by (auto simp: is_panic_iff)
next
  fix i acc
  show "(\<exists>t. res_bind (Bitfield_Has f i) (\<lambda>h. Ok (if h then acc @ [i] else acc)) = Ok t) \<or>
        is_panic (res_bind (Bitfield_Has f i) (\<lambda>h. Ok (if h then acc @ [i] else acc)))"
    using Has_in_range [of i f] Has_out_of_range [of i f] by (cases "Bitfield_Has f i") force+
qed

lemma bit_at_fresh:
  assumes "bf_Bytes f = replicate n 0" and "0 \<le> i" and "i < bf_cap f"
  shows "\<not> bit_at f i"
  using assms byte_index_in_range [of i f] by (simp add: bit_at_def)

lemma NewBitfield_nonneg:
  assumes "0 \<le> n"
  shows "NewBitfield n = Ok \<lparr>bf_Bytes = replicate (nat ((n + 7) div 8)) 0, bf_NumOfBits = n\<rparr>"
  using assms by (simp add: NewBitfield_def make_bytes_def)

section \<open>Integer slices of util/util.go\<close>

definition Min_int :: "int \<Rightarrow> int \<Rightarrow> int" where
  "Min_int a b = (if a < b then a else b)"

fun IntSliceHas :: "int list \<Rightarrow> int \<Rightarrow> bool" where
  "IntSliceHas [] needle = False"
| "IntSliceHas (k # haystack) needle = (if needle = k then True else IntSliceHas haystack needle)"

fun find_elem :: "int list \<Rightarrow> int \<Rightarrow> bool" where
  "find_elem [] elem = False"
| "find_elem (v # xs) elem = (if v = elem then True else find_elem xs elem)"

text \<open>The loop that sets \<open>didFind\<close> and breaks is \<open>find_elem\<close>.\<close>

definition IntSliceAppendIfUnique :: "int list \<Rightarrow> int \<Rightarrow> int list" where
  "IntSliceAppendIfUnique xs elem =
     (let didFind = find_elem xs elem in if \<not> didFind then xs @ [elem] else xs)"

definition IntSliceUniqueMergeSlices :: "int list \<Rightarrow> int list \<Rightarrow> int list" where
  "IntSliceUniqueMergeSlices sliceA sliceB =
     (let mergedSlice = fold (\<lambda>v m. IntSliceAppendIfUnique m v) sliceA []
      in fold (\<lambda>v m. IntSliceAppendIfUnique m v) sliceB mergedSlice)"

text \<open>\<open>rand.Intn(n)\<close> returns a value \<open>r\<close> with \<open>0 \<le> r < n\<close> and panics on \<open>n \<le> 0\<close>; the draw is a parameter.\<close>

definition RandRange :: "int \<Rightarrow> int \<Rightarrow> int \<Rightarrow> int res" where
  "RandRange r mn mx = (if mx - mn \<le> 0 then Panic ExplicitPanic else Ok (r mod (mx - mn) + mx))"

lemma IntSliceHas_iff [simp]: "IntSliceHas xs x \<longleftrightarrow> x \<in> set xs"
  by (induction xs) auto

lemma find_elem_iff [simp]: "find_elem xs x \<longleftrightarrow> x \<in> set xs"
  by (induction xs) auto

lemma AppendIfUnique_eq: "IntSliceAppendIfUnique xs x = (if x \<in> set xs then xs else xs @ [x])"
  by (simp add: IntSliceAppendIfUnique_def)

lemma set_AppendIfUnique [simp]: "set (IntSliceAppendIfUnique xs x) = insert x (set xs)"
  by (auto simp: AppendIfUnique_eq)

lemma distinct_AppendIfUnique [simp]: "distinct (IntSliceAppendIfUnique xs x) = distinct xs"
  by (auto simp: AppendIfUnique_eq)

text \<open>The order in which elements first occur, as the reference result of a merge.\<close>

fun first_occurrences :: "int list \<Rightarrow> int list \<Rightarrow> int list" where
  "first_occurrences seen [] = []"
| "first_occurrences seen (x # xs) =
     (if x \<in> set seen then first_occurrences seen xs else x # first_occurrences (x # seen) xs)"

lemma first_occurrences_cong:
  "set seen = set seen' \<Longrightarrow> first_occurrences seen xs = first_occurrences seen' xs"
proof (induction xs arbitrary: seen seen')
  case (Cons x xs)
  then have "set (x # seen) = set (x # seen')" by simp
  from Cons.IH [OF this] Cons.IH [OF Cons.prems] Cons.prems show ?case by simp
qed simp

lemma fold_AppendIfUnique:
  "fold (\<lambda>v m. IntSliceAppendIfUnique m v) xs acc = acc @ first_occurrences acc xs"
proof (induction xs arbitrary: acc)
  case (Cons x xs)
  have "first_occurrences (acc @ [x]) xs = first_occurrences (x # acc) xs"
    by (rule first_occurrences_cong) simp
  with Cons show ?case by (simp add: AppendIfUnique_eq)
qed simp

lemma first_occurrences_append:
  "first_occurrences seen (xs @ ys) =
     first_occurrences seen xs @ first_occurrences (seen @ first_occurrences seen xs) ys"
proof (induction xs arbitrary: seen)
  case (Cons x xs)
  have "first_occurrences ((x # seen) @ first_occurrences (x # seen) xs) ys =
        first_occurrences (seen @ x # first_occurrences (x # seen) xs) ys"
    by (rule first_occurrences_cong) auto
  with Cons show ?case by simp
qed simp

lemma first_occurrences_props:
  "distinct (first_occurrences seen xs)"
  "set (first_occurrences seen xs) = set xs - set seen"
proof (induction xs arbitrary: seen)
  case (Cons x xs)
  { case 1 with Cons show ?case by auto }
  { case 2 with Cons show ?case by auto }
qed simp_all

lemma UniqueMerge_eq:
  "IntSliceUniqueMergeSlices xs ys = first_occurrences [] (xs @ ys)"
  by (simp add: IntSliceUniqueMergeSlices_def Let_def fold_AppendIfUnique first_occurrences_append)

lemma first_occurrences_distinct:
  "distinct xs \<Longrightarrow> set xs \<inter> set seen = {} \<Longrightarrow> first_occurrences seen xs = xs"
  by (induction xs arbitrary: seen) auto

section \<open>Properties\<close>

text \<open>
  (C14) \<open>Set(i)\<close> then \<open>Has(j)\<close>: for any two in-range indices \<open>Set\<close> succeeds and afterwards exactly the
  bit \<open>i\<close> and the bits that were set before are set; no other bit of any byte changes. An index outside the byte
  slice panics in both operations.
\<close>

theorem bitfield_set_has:
  "\<forall>i j. (if 0 \<le> i \<and> i < bf_cap f
     then \<exists>f'. Bitfield_Set f i = Ok f' \<and> bf_cap f' = bf_cap f \<and>
          (if 0 \<le> j \<and> j < bf_cap f then Bitfield_Has f' j = Ok (j = i \<or> Bitfield_Has f j = Ok True)
           else is_panic (Bitfield_Has f' j))
     else is_panic (Bitfield_Set f i) \<and> is_panic (Bitfield_Has f i))"
proof (intro allI)
  fix i j
  show "if 0 \<le> i \<and> i < bf_cap f
     then \<exists>f'. Bitfield_Set f i = Ok f' \<and> bf_cap f' = bf_cap f \<and>
          (if 0 \<le> j \<and> j < bf_cap f then Bitfield_Has f' j = Ok (j = i \<or> Bitfield_Has f j = Ok True)
           else is_panic (Bitfield_Has f' j))
     else is_panic (Bitfield_Set f i) \<and> is_panic (Bitfield_Has f i)"
  proof (cases "0 \<le> i \<and> i < bf_cap f")
    case True
    then obtain f' where f': "Bitfield_Set f i = Ok f'" using bf.add_ok by blast
    have cap: "bf_cap f' = bf_cap f" using f' by simp
    show ?thesis
    proof (cases "0 \<le> j \<and> j < bf_cap f")
      case j: True
      have "Bitfield_Has f' j = Ok (j = i \<or> Bitfield_Has f j = Ok True)"
        using j cap bf.add_mem [OF f', of j] by (simp add: Has_in_range)
      with True f' cap j show ?thesis by simp
    next
      case j: False
      then have "is_panic (Bitfield_Has f' j)"
        using Has_out_of_range [of j f'] cap by auto
      with True f' cap j show ?thesis by auto
    qed
  next
    case False
    then have "is_panic (Bitfield_Set f i) \<and> is_panic (Bitfield_Has f i)"
      using Set_out_of_range [of i f] Has_out_of_range [of i f] by linarith
    with False show ?thesis by (simp only: if_False simp_thms)
  qed
qed

text \<open>
  \<open>AsIntSlice(max)\<close> walks the indices \<open>0..max\<close> with the maximum included: it returns the set bits up to
  \<open>max\<close>, strictly increasing, exactly when \<open>max\<close> is inside the byte slice, and panics otherwise.
\<close>

theorem AsIntSlice_exact:
  "if mx < bf_cap f
   then \<exists>xs. AsIntSlice f mx = Ok xs \<and> sorted_wrt (<) xs \<and>
             set xs = {i. 0 \<le> i \<and> i \<le> mx \<and> Bitfield_Has f i = Ok True}
   else is_panic (AsIntSlice f mx)"
proof (cases "mx < bf_cap f")
  case True
  have "sorted_wrt (<) (filter (bit_at f) [0..mx])"
    by (intro sorted_wrt_filter sorted_wrt_upto)
  moreover have "set (filter (bit_at f) [0..mx]) = {i. 0 \<le> i \<and> i \<le> mx \<and> Bitfield_Has f i = Ok True}"
    using True by (auto simp: Has_in_range)
  ultimately show ?thesis using True AsIntSlice_in_range [OF True] by auto
next
  case False
  then show ?thesis using AsIntSlice_out_of_range [of f mx] by simp
qed

text \<open>
  \<open>IntSliceUniqueMergeSlices(a, b)\<close> has no duplicates, holds exactly the elements of both slices, and
  keeps them in the order of their first occurrence; merging a duplicate-free queue only appends to it, so the
  download queue never reorders.
\<close>

theorem UniqueMerge_spec:
  "distinct (IntSliceUniqueMergeSlices a b) \<and>
   set (IntSliceUniqueMergeSlices a b) = set a \<union> set b \<and>
   IntSliceUniqueMergeSlices a b = first_occurrences [] (a @ b) \<and>
   (if distinct a then take (length a) (IntSliceUniqueMergeSlices a b) = a else True)"
  by (auto simp: UniqueMerge_eq first_occurrences_props first_occurrences_append first_occurrences_distinct)

end
