(* ===== verification/Piece.thy ===== *)
theory Piece
  imports Util "HOL-Library.AList"
begin

text \<open>
  \<^verbatim>\<open>piece/block.go\<close> and the \<open>PieceImpl\<close> part of \<^verbatim>\<open>piece/piece.go\<close>: blocks, pieces, and how a piece is
  cut into blocks. A nil byte slice and an empty one are the same value here: no code of the package
  tells them apart. A piece holds pointers to its blocks; the blocks are values of the list and a write
  through a pointer is a list update.
\<close>

section \<open>Blocks\<close>

definition BLOCK_LENGTH :: int where
  "BLOCK_LENGTH = 0x4000"

record Block =
  blk_Idx :: int
  blk_PieceIdx :: int
  blk_Begin :: uint32
  blk_Buff :: bytes
  blk_Length :: uint32
  blk_DownloaderPeerId :: bytes
  blk_IsLastBlock :: bool

definition NewBlock :: "int \<Rightarrow> int \<Rightarrow> uint32 \<Rightarrow> uint32 \<Rightarrow> bytes \<Rightarrow> Block" where
  "NewBlock blockIdx pieceIdx begin len buff =
     \<lparr>blk_Idx = blockIdx, blk_PieceIdx = pieceIdx, blk_Begin = begin, blk_Buff = buff,
      blk_Length = len, blk_DownloaderPeerId = [], blk_IsLastBlock = False\<rparr>"

section \<open>Piece status\<close>

datatype PieceStatus = PIECESTATUS_IDLE | PIECESTATUS_DOWNLOADING | PIECESTATUS_DONE

text \<open>The constants are the integers 0, 1 and 2 in Go (\<open>iota\<close>), and ordered as such.\<close>

fun status_code :: "PieceStatus \<Rightarrow> nat" where
  "status_code PIECESTATUS_IDLE = 0"
| "status_code PIECESTATUS_DOWNLOADING = 1"
| "status_code PIECESTATUS_DONE = 2"

lemma status_code_inj: "status_code a = status_code b \<Longrightarrow> a = b"
  by (cases a; cases b) simp_all

instantiation PieceStatus :: linorder
begin

definition less_eq_PieceStatus :: "PieceStatus \<Rightarrow> PieceStatus \<Rightarrow> bool" where
  "less_eq_PieceStatus a b \<longleftrightarrow> status_code a \<le> status_code b"

definition less_PieceStatus :: "PieceStatus \<Rightarrow> PieceStatus \<Rightarrow> bool" where
  "less_PieceStatus a b \<longleftrightarrow> status_code a < status_code b"

instance
  by standard (auto simp: less_eq_PieceStatus_def less_PieceStatus_def intro: status_code_inj)

end

lemma status_le_simps [simp]:
  "PIECESTATUS_IDLE \<le> s" "s \<le> PIECESTATUS_DONE"
  "s \<le> PIECESTATUS_IDLE \<longleftrightarrow> s = PIECESTATUS_IDLE" "PIECESTATUS_DONE \<le> s \<longleftrightarrow> s = PIECESTATUS_DONE"
  by (cases s; simp add: less_eq_PieceStatus_def)+

section \<open>Pieces\<close>

record PieceImpl =
  piece_idx :: int
  piece_length :: int
  piece_blocks :: "Block list"
  piece_status :: PieceStatus
  piece_downloader :: string
  piece_isLastPiece :: bool

definition NewPiece :: "int \<Rightarrow> int \<Rightarrow> PieceStatus \<Rightarrow> PieceImpl" where
  "NewPiece i len st = \<lparr>piece_idx = i, piece_length = len, piece_blocks = [], piece_status = st,
     piece_downloader = '''', piece_isLastPiece = False\<rparr>"

definition NewPieceWithBlocks :: "int \<Rightarrow> int \<Rightarrow> Block list \<Rightarrow> PieceImpl" where
  "NewPieceWithBlocks i len bs = \<lparr>piece_idx = i, piece_length = len, piece_blocks = bs,
     piece_status = PIECESTATUS_IDLE, piece_downloader = '''', piece_isLastPiece = False\<rparr>"

definition SetStatus :: "PieceStatus \<Rightarrow> PieceImpl \<Rightarrow> PieceImpl" where
  "SetStatus st self = self\<lparr>piece_status := st\<rparr>"

definition SetDownloader :: "string \<Rightarrow> PieceImpl \<Rightarrow> PieceImpl" where
  "SetDownloader peerId self = self\<lparr>piece_downloader := peerId\<rparr>"

definition SetPieceAsLast :: "PieceImpl \<Rightarrow> PieceImpl" where
  "SetPieceAsLast self = self\<lparr>piece_isLastPiece := True\<rparr>"

definition SetBlocks :: "Block list \<Rightarrow> PieceImpl \<Rightarrow> PieceImpl" where
  "SetBlocks blocks self = self\<lparr>piece_blocks := blocks\<rparr>"

definition SetLength :: "int \<Rightarrow> PieceImpl \<Rightarrow> PieceImpl" where
  "SetLength i self = self\<lparr>piece_length := i\<rparr>"

definition SetIdx :: "int \<Rightarrow> PieceImpl \<Rightarrow> PieceImpl" where
  "SetIdx i self = self\<lparr>piece_idx := i\<rparr>"

definition Downloaded :: "PieceImpl \<Rightarrow> bool" where
  "Downloaded self \<longleftrightarrow> piece_status self = PIECESTATUS_DONE"

definition BlockCount :: "PieceImpl \<Rightarrow> int" where
  "BlockCount self = int (length (piece_blocks self))"

definition PutBlock :: "Block \<Rightarrow> PieceImpl \<Rightarrow> PieceImpl" where
  "PutBlock b self = self\<lparr>piece_blocks := piece_blocks self @ [b]\<rparr>"

text \<open>
  \<open>GetBlockFromOffset\<close> divides the two \<open>uint32\<close> and looks the quotient up; \<open>block_slot\<close> is the index it
  finds (\<open>None\<close> for a nil pointer), so that a write through the returned pointer can be placed.
\<close>

definition block_slot :: "PieceImpl \<Rightarrow> uint32 \<Rightarrow> uint32 \<Rightarrow> int option res" where
  "block_slot self blockBegin blockLength =
     res_bind (u32_div blockBegin blockLength) (\<lambda>idx.
       if idx \<ge> word_of_int (int (length (piece_blocks self))) then Ok None
       else Ok (Some (uint idx)))"

definition GetBlockFromOffset :: "PieceImpl \<Rightarrow> uint32 \<Rightarrow> uint32 \<Rightarrow> Block option res" where
  "GetBlockFromOffset self blockBegin blockLength =
     res_bind (block_slot self blockBegin blockLength) (\<lambda>slot. case slot of
       None \<Rightarrow> Ok None
     | Some i \<Rightarrow> res_bind (slice_get (piece_blocks self) i) (\<lambda>b. Ok (Some b)))"

text \<open>
  \<open>CalculateNewPiece\<close>: the loop over the full blocks, the block for the remainder (with the index and the
  offset the source computes: \<open>totalBlocks-1\<close> and \<open>uint32(totalBlocks-1*blockLength)\<close>), and the mark on the last
  one, which indexes \<open>p.blocks[len(p.blocks)-1]\<close>.
\<close>

definition CalculateNewPiece :: "int \<Rightarrow> int \<Rightarrow> int \<Rightarrow> bool \<Rightarrow> PieceImpl res" where
  "CalculateNewPiece pieceIdx pieceLength blockLength isSeeding =
     (let p = NewPiece pieceIdx pieceLength PIECESTATUS_IDLE;
          p = SetStatus (if isSeeding then PIECESTATUS_DONE else PIECESTATUS_IDLE) p in
      res_bind (go_div pieceLength blockLength) (\<lambda>totalBlocks.
      res_bind (go_mod pieceLength blockLength) (\<lambda>remainingLength.
        let p = fold (\<lambda>blockIdx p. PutBlock (NewBlock blockIdx pieceIdx
                  (word_of_int (i64 (blockIdx * blockLength))) (word_of_int blockLength) []) p)
                [0..totalBlocks - 1] p;
            p = (if remainingLength \<noteq> 0
                 then PutBlock (NewBlock (totalBlocks - 1) pieceIdx
                   (word_of_int (i64 (totalBlocks - 1 * blockLength)))
                   (word_of_int remainingLength) []) p
                 else p);
            last = BlockCount p - 1 in
        res_bind (slice_get (piece_blocks p) last) (\<lambda>b.
        res_bind (slice_set (piece_blocks p) last (b\<lparr>blk_IsLastBlock := True\<rparr>)) (\<lambda>bs.
          Ok (p\<lparr>piece_blocks := bs\<rparr>))))))"

section \<open>How a piece is cut\<close>

lemma fold_PutBlock:
  "fold (\<lambda>i p. PutBlock (f i) p) is p = p\<lparr>piece_blocks := piece_blocks p @ map f is\<rparr>"
  by (induction "is" arbitrary: p) (simp_all add: PutBlock_def)

text \<open>The blocks before the last one is marked, as a list.\<close>

definition full_block :: "int \<Rightarrow> int \<Rightarrow> int \<Rightarrow> Block" where
  "full_block pieceIdx blockLength i =
     NewBlock i pieceIdx (word_of_int (i * blockLength)) (word_of_int blockLength) []"

definition cut_blocks :: "int \<Rightarrow> int \<Rightarrow> int \<Rightarrow> Block list" where
  "cut_blocks pieceIdx pieceLength blockLength =
     (let t = pieceLength div blockLength; r = pieceLength mod blockLength in
      map (full_block pieceIdx blockLength) [0..t - 1] @
      (if r \<noteq> 0 then [NewBlock (t - 1) pieceIdx (word_of_int (t - blockLength)) (word_of_int r) []]
       else []))"

definition mark_last :: "Block list \<Rightarrow> Block list" where
  "mark_last bs = bs[length bs - 1 := (bs ! (length bs - 1))\<lparr>blk_IsLastBlock := True\<rparr>]"

lemma length_mark_last [simp]: "length (mark_last bs) = length bs"
  by (simp add: mark_last_def)

lemma mark_last_Nil [simp]: "mark_last bs = [] \<longleftrightarrow> bs = []"
  by (metis length_0_conv length_mark_last)

lemma nth_mark_last:
  "i < length bs \<Longrightarrow> mark_last bs ! i = (if i = length bs - 1 then (bs ! i)\<lparr>blk_IsLastBlock := True\<rparr> else bs ! i)"
  by (simp add: mark_last_def nth_list_update)

lemma nth_mark_last_sel [simp]:
  assumes "i < length bs"
  shows "blk_Idx (mark_last bs ! i) = blk_Idx (bs ! i)"
    and "blk_PieceIdx (mark_last bs ! i) = blk_PieceIdx (bs ! i)"
    and "blk_Begin (mark_last bs ! i) = blk_Begin (bs ! i)"
    and "blk_Length (mark_last bs ! i) = blk_Length (bs ! i)"
    and "blk_Buff (mark_last bs ! i) = blk_Buff (bs ! i)"
  using assms by (simp_all add: nth_mark_last)

lemma map_mark_last:
  "(\<And>b. g (b\<lparr>blk_IsLastBlock := True\<rparr>) = g b) \<Longrightarrow> map g (mark_last bs) = map g bs"
  by (rule nth_equalityI) (simp_all add: nth_mark_last)

lemma length_cut_blocks:
  assumes "0 < bl" "0 \<le> pl"
  shows "int (length (cut_blocks i pl bl)) = pl div bl + (if pl mod bl \<noteq> 0 then 1 else 0)"
proof -
  have "0 \<le> pl div bl" using assms by (simp add: pos_imp_zdiv_nonneg_iff)
  then show ?thesis by (simp add: cut_blocks_def Let_def)
qed

lemma cut_blocks_not_Nil:
  assumes "0 < bl" "0 < pl"
  shows "cut_blocks i pl bl \<noteq> []"
proof
  assume "cut_blocks i pl bl = []"
  then have "pl div bl + (if pl mod bl \<noteq> 0 then 1 else 0) = 0"
    using length_cut_blocks [of bl pl i] assms by simp
  moreover have "0 \<le> pl div bl" using assms by (simp add: pos_imp_zdiv_nonneg_iff)
  ultimately have "pl mod bl = 0" "pl div bl = 0" by (auto split: if_splits)
  then have "pl = 0" by (metis div_mod_decomp_int add.right_neutral mult_zero_left)
  with assms show False by simp
qed

lemma CalculateNewPiece_eq:
  assumes "0 < bl" "0 < pl"
  shows "CalculateNewPiece i pl bl seeding = Ok
    ((NewPiece i pl (if seeding then PIECESTATUS_DONE else PIECESTATUS_IDLE))
       \<lparr>piece_blocks := mark_last (cut_blocks i pl bl)\<rparr>)"
proof -
  define p where "p = NewPiece i pl (if seeding then PIECESTATUS_DONE else PIECESTATUS_IDLE)"
  define q where "q = fold (\<lambda>k p. PutBlock (full_block i bl k) p) [0..pl div bl - 1] p"
  define r where "r = (if pl mod bl \<noteq> 0
     then PutBlock (NewBlock (pl div bl - 1) i (word_of_int (pl div bl - bl)) (word_of_int (pl mod bl)) []) q
     else q)"
  have q: "q = p\<lparr>piece_blocks := map (full_block i bl) [0..pl div bl - 1]\<rparr>"
    unfolding q_def fold_PutBlock by (simp add: p_def NewPiece_def)
  have r: "r = p\<lparr>piece_blocks := cut_blocks i pl bl\<rparr>"
    by (simp add: r_def q PutBlock_def cut_blocks_def Let_def)
  have "CalculateNewPiece i pl bl seeding =
      res_bind (slice_get (piece_blocks r) (BlockCount r - 1)) (\<lambda>b.
      res_bind (slice_set (piece_blocks r) (BlockCount r - 1) (b\<lparr>blk_IsLastBlock := True\<rparr>)) (\<lambda>bs.
        Ok (r\<lparr>piece_blocks := bs\<rparr>)))"
    using assms
    by (simp add: CalculateNewPiece_def go_div_def go_mod_def Let_def r_def q_def p_def
        full_block_def NewPiece_def SetStatus_def)
  also have "\<dots> = Ok (p\<lparr>piece_blocks := mark_last (cut_blocks i pl bl)\<rparr>)"
    using cut_blocks_not_Nil [OF assms]
    by (simp add: r BlockCount_def slice_get_def slice_set_def mark_last_def
        nat_diff_distrib Suc_le_eq)
  finally show ?thesis by (simp add: p_def)
qed

lemma CalculateNewPiece_zero_block: "CalculateNewPiece i pl 0 seeding = Panic DivideByZero"
  by (simp add: CalculateNewPiece_def go_div_def)

lemma CalculateNewPiece_empty:
  assumes "0 < bl"
  shows "CalculateNewPiece i 0 bl seeding = Panic IndexOutOfRange"
  using assms
  by (simp add: CalculateNewPiece_def go_div_def go_mod_def SetStatus_def NewPiece_def
      BlockCount_def slice_get_def)

lemma uint_word_of_int32 [simp]: "0 \<le> x \<Longrightarrow> x < 2 ^ 32 \<Longrightarrow> uint (word_of_int x :: uint32) = x"
  by (simp add: uint_word_of_int take_bit_eq_mod)

lemma word_of_int32_eq_iff:
  "0 \<le> x \<Longrightarrow> x < 2 ^ 32 \<Longrightarrow> 0 \<le> y \<Longrightarrow> y < 2 ^ 32 \<Longrightarrow> (word_of_int x :: uint32) = word_of_int y \<longleftrightarrow> x = y"
  by (metis uint_word_of_int32)

lemma NewBlock_sel [simp]:
  "blk_Idx (NewBlock i pi b l bf) = i" "blk_PieceIdx (NewBlock i pi b l bf) = pi"
  "blk_Begin (NewBlock i pi b l bf) = b" "blk_Length (NewBlock i pi b l bf) = l"
  "blk_Buff (NewBlock i pi b l bf) = bf" "\<not> blk_IsLastBlock (NewBlock i pi b l bf)"
  "blk_DownloaderPeerId (NewBlock i pi b l bf) = []"
  by (simp_all add: NewBlock_def)

lemma nth_cut_blocks:
  assumes "0 < bl" "0 \<le> pl" "k < length (cut_blocks i pl bl)"
  shows "cut_blocks i pl bl ! k =
     (if int k < pl div bl then full_block i bl (int k)
      else NewBlock (pl div bl - 1) i (word_of_int (pl div bl - bl)) (word_of_int (pl mod bl)) [])"
proof -
  have "0 \<le> pl div bl" using assms by (simp add: pos_imp_zdiv_nonneg_iff)
  then show ?thesis
    using assms(3) by (auto simp: cut_blocks_def Let_def nth_append split: if_splits)
qed

lemma full_block_sel [simp]:
  "blk_Idx (full_block i bl k) = k" "blk_PieceIdx (full_block i bl k) = i"
  "blk_Begin (full_block i bl k) = word_of_int (k * bl)" "blk_Length (full_block i bl k) = word_of_int bl"
  "\<not> blk_IsLastBlock (full_block i bl k)" "blk_Buff (full_block i bl k) = []"
  by (simp_all add: full_block_def)

lemma sum_lengths_cut:
  assumes "0 < bl" "0 \<le> pl" "pl < 2 ^ 32"
  shows "(\<Sum>b \<leftarrow> cut_blocks i pl bl. uint (blk_Length b)) = pl"
proof -
  define t where "t = pl div bl"
  have t: "0 \<le> t" "t * bl + pl mod bl = pl"
    using assms by (simp_all add: t_def pos_imp_zdiv_nonneg_iff)
  have r: "0 \<le> pl mod bl" "pl mod bl < 2 ^ 32"
    using assms by (auto intro: le_less_trans [OF zmod_le_nonneg_dividend])
  have full: "(\<Sum>k \<leftarrow> [0..t - 1]. uint (word_of_int bl :: uint32)) = t * bl"
  proof (cases "t = 0")
    case False
    then have "1 * bl \<le> t * bl" using t assms by (intro mult_right_mono) auto
    then have "bl < 2 ^ 32" using t(2) r assms by linarith
    with t assms show ?thesis by (simp add: sum_list_triv)
  qed simp
  then show ?thesis
    using t r by (simp add: cut_blocks_def Let_def t_def [symmetric] comp_def)
qed

lemma ceil_div:
  fixes a b :: int
  assumes "0 < b"
  shows "(a + b - 1) div b = a div b + (if a mod b \<noteq> 0 then 1 else 0)"
proof -
  have r: "0 \<le> a mod b" "a mod b < b" using assms by simp_all
  have "a + b - 1 = (a mod b + b - 1) + (a div b) * b"
    using div_mult_mod_eq [of a b] by simp
  then have "(a + b - 1) div b = ((a mod b + b - 1) + (a div b) * b) div b" by (simp only:)
  also have "\<dots> = (a mod b + b - 1) div b + a div b"
    using assms by (subst div_mult_self1) auto
  also have "(a mod b + b - 1) div b = (if a mod b \<noteq> 0 then 1 else 0)"
  proof (cases "a mod b = 0")
    case False
    with r have "(a mod b - 1 + 1 * b) div b = 1 + (a mod b - 1) div b"
      using assms by (subst div_mult_self1) auto
    moreover have "(a mod b - 1) div b = 0" using r False by (intro div_pos_pos_trivial) auto
    ultimately show ?thesis using False by (simp add: algebra_simps)
  qed (use assms in \<open>simp add: div_pos_pos_trivial\<close>)
  finally show ?thesis by simp
qed

lemma mult_div_le_int: "0 < b \<Longrightarrow> a div b * b \<le> (a :: int)"
  using div_mult_mod_eq [of a b] pos_mod_sign [of b a] by linarith

text \<open>Every block but the last is a full block, and a full block fits a \<open>uint32\<close>.\<close>

lemma nth_cut_blocks_full:
  assumes "0 < bl" "0 \<le> pl" "k < length (cut_blocks i pl bl)" "k \<noteq> length (cut_blocks i pl bl) - 1"
  shows "cut_blocks i pl bl ! k = full_block i bl (int k) \<and> bl \<le> pl"
proof -
  have k: "int k < pl div bl"
    using length_cut_blocks [OF assms(1,2), of i] assms(3,4) by (auto split: if_splits)
  then have "1 * bl \<le> (pl div bl) * bl" using assms by (intro mult_right_mono) auto
  also have "\<dots> \<le> pl" using assms(1) by (rule mult_div_le_int)
  finally show ?thesis using k nth_cut_blocks [OF assms(1-3)] by simp
qed

text \<open>A block of a piece that is cut without a remainder, and where \<open>GetBlockFromOffset\<close> finds it.\<close>

lemma aligned_block:
  assumes "0 < bl" "0 < pl" "pl < 2 ^ 32" "bl dvd pl" "0 \<le> k" "k < pl div bl"
    and "piece_blocks p = mark_last (cut_blocks i pl bl)"
  shows "nat k < length (piece_blocks p)" and "blk_Idx (piece_blocks p ! nat k) = k"
    and "blk_PieceIdx (piece_blocks p ! nat k) = i"
    and "uint (blk_Begin (piece_blocks p ! nat k)) = k * bl" and "uint (blk_Length (piece_blocks p ! nat k)) = bl"
    and "k * bl + bl \<le> pl"
    and "block_slot p (blk_Begin (piece_blocks p ! nat k)) (blk_Length (piece_blocks p ! nat k)) = Ok (Some k)"
proof -
  let ?cut = "cut_blocks i pl bl" and ?n = "pl div bl"
  have len: "int (length ?cut) = ?n" using assms by (simp add: length_cut_blocks)
  have n: "?n * bl = pl" using assms(4) by simp
  have slot: "nat k < length ?cut" using assms(5,6) len by simp
  then show "nat k < length (piece_blocks p)" by (simp add: assms(7))
  have "?cut ! nat k = full_block i bl k"
    using nth_cut_blocks [OF assms(1) _ slot] assms(2,5,6) by simp
  then have b: "blk_Idx (piece_blocks p ! nat k) = k" "blk_PieceIdx (piece_blocks p ! nat k) = i"
      "blk_Begin (piece_blocks p ! nat k) = word_of_int (k * bl)" "blk_Length (piece_blocks p ! nat k) = word_of_int bl"
    using slot by (simp_all add: assms(7))
  have "(k + 1) * bl \<le> ?n * bl" using assms(1,6) by (intro mult_right_mono) auto
  then show fits: "k * bl + bl \<le> pl" using n by (simp add: algebra_simps)
  have "0 \<le> k * bl" using assms(1,5) by simp
  with fits have small: "0 \<le> k * bl" "k * bl < 2 ^ 32" "bl < 2 ^ 32" using assms(1,3) by linarith+
  show ub: "uint (blk_Begin (piece_blocks p ! nat k)) = k * bl"
    unfolding b(3) by (rule uint_word_of_int32 [OF small(1,2)])
  show ul: "uint (blk_Length (piece_blocks p ! nat k)) = bl"
    unfolding b(4) by (rule uint_word_of_int32) (use small assms(1) in auto)
  have "uint (blk_Begin (piece_blocks p ! nat k) div blk_Length (piece_blocks p ! nat k)) = k"
    using ub ul assms(1) by (simp add: uint_div)
  moreover have "blk_Length (piece_blocks p ! nat k) \<noteq> 0"
    using ul assms(1) by auto
  moreover have "?n < 2 ^ 32"
    using n assms mult_left_mono [of 1 bl ?n] by simp
  ultimately show "block_slot p (blk_Begin (piece_blocks p ! nat k)) (blk_Length (piece_blocks p ! nat k)) = Ok (Some k)"
    using assms(5-7) len by (simp add: block_slot_def u32_div_def word_le_def)
  show "blk_Idx (piece_blocks p ! nat k) = k" "blk_PieceIdx (piece_blocks p ! nat k) = i"
    using b by simp_all
qed

lemma misplaced_offset:
  assumes "0 < bl" "bl < 2 ^ 31" "0 \<le> t" "t * bl < 2 ^ 31"
  shows "(word_of_int (t - bl) :: uint32) \<noteq> word_of_int (t * bl)"
proof
  assume "(word_of_int (t - bl) :: uint32) = word_of_int (t * bl)"
  then have "(t * bl) mod 2 ^ 32 = (t - bl) mod (2 ^ 32 :: int)"
    by (simp only: word_of_int_eq_iff take_bit_eq_mod) simp
  then have "2 ^ 32 dvd t * bl - (t - bl)"
    by (rule mod_eq_dvd_iff [THEN iffD1])
  moreover have "t * 1 \<le> t * bl" using assms by (intro mult_left_mono) auto
  then have "0 < t * bl - (t - bl)" "t * bl - (t - bl) < 2 ^ 32"
    using assms by (simp, simp)
  ultimately show False using zdvd_not_zless by blast
qed

section \<open>Properties\<close>

text \<open>
  (C12) Cutting a piece: for any positive piece and block length, \<open>CalculateNewPiece\<close> returns a piece
  with \<open>ceil(pieceLength / blockLength)\<close> blocks whose lengths add up to the piece length; every block but the last has
  the full length, exactly the last one is marked, and the status is DONE when seeding and IDLE otherwise.
\<close>

theorem CalculateNewPiece_lengths:
  assumes "0 < blockLength" "0 < pieceLength" "pieceLength < 2 ^ 32"
  shows "\<exists>p. CalculateNewPiece i pieceLength blockLength seeding = Ok p \<and>
    BlockCount p = (pieceLength + blockLength - 1) div blockLength \<and>
    (\<Sum>b \<leftarrow> piece_blocks p. uint (blk_Length b)) = pieceLength \<and>
    (\<forall>k < length (piece_blocks p).
       blk_PieceIdx (piece_blocks p ! k) = i \<and>
       (blk_IsLastBlock (piece_blocks p ! k) \<longleftrightarrow> k = length (piece_blocks p) - 1) \<and>
       (k \<noteq> length (piece_blocks p) - 1 \<longrightarrow> uint (blk_Length (piece_blocks p ! k)) = blockLength)) \<and>
    piece_status p = (if seeding then PIECESTATUS_DONE else PIECESTATUS_IDLE) \<and>
    piece_length p = pieceLength \<and> piece_idx p = i"
proof -
  let ?cut = "cut_blocks i pieceLength blockLength"
  let ?p = "(NewPiece i pieceLength (if seeding then PIECESTATUS_DONE else PIECESTATUS_IDLE))
       \<lparr>piece_blocks := mark_last ?cut\<rparr>"
  let ?t = "pieceLength div blockLength" and ?r = "pieceLength mod blockLength"
  have count: "int (length ?cut) = (pieceLength + blockLength - 1) div blockLength"
    using assms by (simp add: length_cut_blocks ceil_div)
  have each: "blk_PieceIdx (mark_last ?cut ! k) = i \<and>
       (blk_IsLastBlock (mark_last ?cut ! k) \<longleftrightarrow> k = length ?cut - 1) \<and>
       (k \<noteq> length ?cut - 1 \<longrightarrow> uint (blk_Length (mark_last ?cut ! k)) = blockLength)"
    if k: "k < length ?cut" for k
    using k nth_cut_blocks_full [OF assms(1) _ k] nth_cut_blocks [OF assms(1) _ k] assms
    by (auto simp: nth_mark_last)
  have "(\<Sum>b \<leftarrow> mark_last ?cut. uint (blk_Length b)) = pieceLength"
    using sum_lengths_cut [of blockLength pieceLength i] assms by (simp add: map_mark_last)
  then show ?thesis
    using CalculateNewPiece_eq [OF assms(1,2)] count each
    by (intro exI [of _ ?p]) (simp add: BlockCount_def NewPiece_def)
qed

theorem CalculateNewPiece_lengths_witness:
  "\<exists>p. CalculateNewPiece 2 37 5 False = Ok p \<and> BlockCount p = 8 \<and>
    (\<Sum>b \<leftarrow> piece_blocks p. uint (blk_Length b)) = 37"
  using CalculateNewPiece_lengths [of 5 37 2 False] by auto

text \<open>
  (C11) When the block length divides the piece length, the blocks tile the piece: block \<open>k\<close> has index
  \<open>k\<close>, starts where block \<open>k - 1\<close> ends and ends inside the piece, and asking the piece for the offset and length
  of a block returns that very block.
\<close>

theorem CalculateNewPiece_tiles:
  assumes "0 < blockLength" "0 < pieceLength" "pieceLength < 2 ^ 32" "blockLength dvd pieceLength"
  shows "\<exists>p. CalculateNewPiece i pieceLength blockLength seeding = Ok p \<and>
    BlockCount p = pieceLength div blockLength \<and>
    (\<forall>k. 0 \<le> k \<and> k < BlockCount p \<longrightarrow>
      (\<exists>b. piece_blocks p ! nat k = b \<and> blk_Idx b = k \<and>
        uint (blk_Begin b) = k * blockLength \<and> uint (blk_Length b) = blockLength \<and>
        k * blockLength + blockLength \<le> pieceLength \<and>
        GetBlockFromOffset p (blk_Begin b) (blk_Length b) = Ok (Some b)))"
proof -
  let ?cut = "cut_blocks i pieceLength blockLength"
  let ?p = "(NewPiece i pieceLength (if seeding then PIECESTATUS_DONE else PIECESTATUS_IDLE))
       \<lparr>piece_blocks := mark_last ?cut\<rparr>"
  let ?n = "pieceLength div blockLength"
  have len: "int (length ?cut) = ?n"
    using assms by (simp add: length_cut_blocks)
  have n: "?n * blockLength = pieceLength" using assms(4) by simp
  have block: "\<exists>b. mark_last ?cut ! nat k = b \<and> blk_Idx b = k \<and>
        uint (blk_Begin b) = k * blockLength \<and> uint (blk_Length b) = blockLength \<and>
        k * blockLength + blockLength \<le> pieceLength \<and>
        GetBlockFromOffset ?p (blk_Begin b) (blk_Length b) = Ok (Some b)"
    if k: "0 \<le> k" "k < ?n" for k
  proof -
    note block = aligned_block [OF assms k, of ?p i]
    have "GetBlockFromOffset ?p (blk_Begin (mark_last ?cut ! nat k)) (blk_Length (mark_last ?cut ! nat k)) =
        Ok (Some (mark_last ?cut ! nat k))"
      using block k len by (simp add: GetBlockFromOffset_def slice_get_def)
    then show ?thesis using block by auto
  qed
  have pb: "piece_blocks ?p = mark_last ?cut" by simp
  have count: "BlockCount ?p = ?n" by (simp add: BlockCount_def len)
  show ?thesis
    by (intro exI [of _ ?p] conjI CalculateNewPiece_eq [OF assms(1,2)] count allI impI)
       (simp only: pb count, use block in blast)
qed

theorem CalculateNewPiece_tiles_witness:
  "\<exists>p. CalculateNewPiece 0 0x8000 BLOCK_LENGTH True = Ok p \<and> BlockCount p = 2"
  using CalculateNewPiece_tiles [of BLOCK_LENGTH "0x8000" 0 True] by (auto simp: BLOCK_LENGTH_def)

text \<open>
  The trailing short block is misplaced: whenever the block length does not divide the piece
  length, the last block of a calculated piece has the right (remaining) length, but its \<open>Begin\<close> is
  \<open>totalBlocks - blockLength\<close> modulo \<open>2 ^ 32\<close>, which is never the offset \<open>totalBlocks * blockLength\<close> where its
  data starts, and its index repeats the index of the block before it (or is -1 when it is the only block).
\<close>

theorem CalculateNewPiece_short_last:
  assumes "0 < blockLength" "blockLength < 2 ^ 31" "0 < pieceLength" "pieceLength < 2 ^ 31"
    and "pieceLength mod blockLength \<noteq> 0"
  shows "\<exists>p b. CalculateNewPiece i pieceLength blockLength seeding = Ok p \<and>
    piece_blocks p \<noteq> [] \<and> b = last (piece_blocks p) \<and>
    uint (blk_Length b) = pieceLength mod blockLength \<and>
    blk_Begin b = word_of_int (pieceLength div blockLength - blockLength) \<and>
    blk_Begin b \<noteq> word_of_int (pieceLength div blockLength * blockLength) \<and>
    (if BlockCount p = 1 then blk_Idx b = -1
     else blk_Idx b = blk_Idx (piece_blocks p ! nat (BlockCount p - 2)))"
proof -
  let ?cut = "cut_blocks i pieceLength blockLength"
  let ?p = "(NewPiece i pieceLength (if seeding then PIECESTATUS_DONE else PIECESTATUS_IDLE))
       \<lparr>piece_blocks := mark_last ?cut\<rparr>"
  let ?t = "pieceLength div blockLength" and ?r = "pieceLength mod blockLength"
  let ?n = "length ?cut"
  have t: "0 \<le> ?t" and n: "int ?n = ?t + 1"
    using assms by (simp_all add: length_cut_blocks pos_imp_zdiv_nonneg_iff)
  then have last: "?n - 1 < ?n" "int (?n - 1) = ?t" by linarith+
  have "last (mark_last ?cut) = mark_last ?cut ! (?n - 1)"
    using last(1) by (subst last_conv_nth) auto
  moreover have "?cut ! (?n - 1) =
      NewBlock (?t - 1) i (word_of_int (?t - blockLength)) (word_of_int ?r) []"
    using nth_cut_blocks [OF assms(1) _ last(1)] last(2) assms(3) by simp
  ultimately have b: "blk_Idx (last (mark_last ?cut)) = ?t - 1"
      "blk_Begin (last (mark_last ?cut)) = word_of_int (?t - blockLength)"
      "blk_Length (last (mark_last ?cut)) = word_of_int ?r"
    using last(1) by (simp_all del: of_int_diff)
  have r: "0 \<le> ?r" "?r < 2 ^ 32"
    using assms pos_mod_bound [OF assms(1), of pieceLength] by (simp_all del: pos_mod_bound)
  have "(word_of_int (?t - blockLength) :: uint32) \<noteq> word_of_int (?t * blockLength)"
    by (rule misplaced_offset) (use assms t mult_div_le_int [OF assms(1), of pieceLength] in auto)
  moreover have "blk_Idx (mark_last ?cut ! nat (int ?n - 2)) = ?t - 1" if "?n \<noteq> 1"
  proof -
    have k: "nat (int ?n - 2) < ?n" "int (nat (int ?n - 2)) = ?t - 1" "int (nat (int ?n - 2)) < ?t"
      using that n t by auto
    then show ?thesis using nth_cut_blocks [OF assms(1) _ k(1)] assms(3) by simp
  qed
  moreover have "?t = 0" if "?n = 1" using that n by simp
  ultimately show ?thesis
    using CalculateNewPiece_eq [OF assms(1,3)] b r last(1)
    by (intro exI [of _ ?p] exI [of _ "last (mark_last ?cut)"])
       (auto simp: BlockCount_def simp del: of_int_diff of_int_mult)
qed

theorem CalculateNewPiece_short_last_witness:
  "\<exists>p b. CalculateNewPiece 0 37 5 False = Ok p \<and> b = last (piece_blocks p) \<and>
     uint (blk_Length b) = 2 \<and> blk_Begin b = 2 \<and> blk_Begin b \<noteq> 35"
  using CalculateNewPiece_short_last [of 5 37 0 False] by auto

end
