(* ===== verification/SafePieces.thy ===== *)
theory SafePieces
  imports Piece
begin

text \<open>
  The \<open>SafePieces\<close> part of \<^verbatim>\<open>piece/piece.go\<close>: the store of pieces that all peer connections of a client
  share. The Go map is an association list with one entry per key; its order is the order in which a
  \<open>range\<close> loop visits the entries. Go leaves that order open, and every theorem about a loop over
  the entries holds for every list, so for every order.

  \<open>TryToReserve\<close>, \<open>MarkAsDone\<close>, \<open>Get\<close>, \<open>Put\<close> and \<open>TotalUndonePiecesLeft\<close> hold the mutex from their first to
  their last statement. Calls from several goroutines are therefore a sequence of whole operations,
  and \<open>sp_step\<close> and \<open>sp_run\<close> are the sequences that can happen. Locale \<open>reservations\<close> is the contract of the Go
  interface \<open>SafePieces\<close> that the download code is written against.
\<close>

section \<open>Operations\<close>

type_synonym SafePieces = "(int \<times> PieceImpl) list"

definition NewSafePieces :: SafePieces where
  "NewSafePieces = []"

definition Get :: "SafePieces \<Rightarrow> int \<Rightarrow> PieceImpl option" where
  "Get self pieceIdx = map_of self pieceIdx"

definition Put :: "PieceImpl \<Rightarrow> SafePieces \<Rightarrow> SafePieces" where
  "Put p self = AList.update (piece_idx p) p self"

text \<open>A method call on a map entry: the entry of a missing key is a nil interface, and the call panics.\<close>

definition on_piece :: "SafePieces \<Rightarrow> int \<Rightarrow> (PieceImpl \<Rightarrow> 'a res) \<Rightarrow> 'a res" where
  "on_piece self pieceIdx f =
     (case map_of self pieceIdx of None \<Rightarrow> Panic NilDereference | Some p \<Rightarrow> f p)"

definition TryToReserve :: "SafePieces \<Rightarrow> int \<Rightarrow> string \<Rightarrow> (SafePieces \<times> bool) res" where
  "TryToReserve self pieceIdx peerId =
     on_piece self pieceIdx (\<lambda>p.
       if piece_status p \<noteq> PIECESTATUS_IDLE then Ok (self, False)
       else Ok (AList.update pieceIdx
                  (SetDownloader peerId (SetStatus PIECESTATUS_DOWNLOADING p)) self, True))"

definition MarkAsDone :: "SafePieces \<Rightarrow> int \<Rightarrow> SafePieces res" where
  "MarkAsDone self pieceIdx =
     on_piece self pieceIdx (\<lambda>p. Ok (AList.update pieceIdx (SetStatus PIECESTATUS_DONE p) self))"

definition SetAsLastPiece :: "SafePieces \<Rightarrow> int \<Rightarrow> SafePieces res" where
  "SetAsLastPiece self i = on_piece self i (\<lambda>p. Ok (AList.update i (SetPieceAsLast p) self))"

definition MaxPieceIdx :: "SafePieces \<Rightarrow> int" where
  "MaxPieceIdx self = fold (\<lambda>(k, _) mx. if k > mx then k else mx) self 0"

definition DownloadedPieceIndices :: "SafePieces \<Rightarrow> int list" where
  "DownloadedPieceIndices self =
     fold (\<lambda>(k, v) pieceIndices. if Downloaded v then pieceIndices @ [k] else pieceIndices) self []"

definition FirstPiece :: "SafePieces \<Rightarrow> PieceImpl option" where
  "FirstPiece self = map_of self (fold (\<lambda>(k, _) mn. if k < mn then k else mn) self 0xffffffff)"

definition LastPiece :: "SafePieces \<Rightarrow> PieceImpl option" where
  "LastPiece self = map_of self (MaxPieceIdx self)"

definition Len :: "SafePieces \<Rightarrow> int" where
  "Len self = int (length self)"

definition AllBlocks :: "SafePieces \<Rightarrow> Block list res" where
  "AllBlocks self =
     for_each (\<lambda>i blocks. on_piece self i (\<lambda>p. Ok (blocks @ piece_blocks p))) [0..Len self - 1] []"

definition PieceIndices :: "SafePieces \<Rightarrow> int list" where
  "PieceIndices self = fold (\<lambda>(k, _) pieceIndices. pieceIndices @ [k]) self []"

definition TotalBlocksInAllPiecesCount :: "SafePieces \<Rightarrow> int" where
  "TotalBlocksInAllPiecesCount self = fold (\<lambda>(_, p) sum. sum + BlockCount p) self 0"

definition TotalUndonePiecesLeft :: "SafePieces \<Rightarrow> int" where
  "TotalUndonePiecesLeft self =
     fold (\<lambda>(_, p) it. if piece_status p \<noteq> PIECESTATUS_DONE then it + 1 else it) self 0"

text \<open>
  The representation invariant of the store: one entry per key, and every piece under its own index.
\<close>

definition sp_wf :: "SafePieces \<Rightarrow> bool" where
  "sp_wf sp \<longleftrightarrow> distinct (map fst sp) \<and> (\<forall>(k, p) \<in> set sp. piece_idx p = k)"

section \<open>Basic facts\<close>

definition status_at :: "SafePieces \<Rightarrow> int \<Rightarrow> PieceStatus option" where
  "status_at sp i = map_option piece_status (Get sp i)"

lemma Get_update [simp]: "Get (AList.update k v sp) i = (if i = k then Some v else Get sp i)"
  by (simp add: Get_def update_conv')

lemma on_piece_eq: "on_piece sp i f = (case Get sp i of None \<Rightarrow> Panic NilDereference | Some p \<Rightarrow> f p)"
  by (simp add: on_piece_def Get_def)

lemma keys_update_present:
  "k \<in> fst ` set sp \<Longrightarrow> map fst (AList.update k v sp) = map fst sp"
  by (induction sp) auto

lemma Get_Some_iff_key: "(\<exists>p. Get sp i = Some p) \<longleftrightarrow> i \<in> fst ` set sp"
  by (auto simp: Get_def dom_map_of_conv_image_fst [symmetric] dom_def)

lemma Get_in_set: "sp_wf sp \<Longrightarrow> Get sp i = Some p \<longleftrightarrow> (i, p) \<in> set sp"
  by (simp add: Get_def sp_wf_def map_of_eq_Some_iff)

lemma sp_wf_new [simp]: "sp_wf NewSafePieces"
  by (simp add: sp_wf_def NewSafePieces_def)

lemma set_update_subset: "set (AList.update k v sp) \<subseteq> insert (k, v) (set sp)"
  by (induction sp) auto

lemma sp_wf_update:
  assumes "sp_wf sp" and "piece_idx v = k"
  shows "sp_wf (AList.update k v sp)"
  using assms set_update_subset [of k v sp]
  by (auto simp: sp_wf_def distinct_update)

lemma sp_wf_Put: "sp_wf sp \<Longrightarrow> sp_wf (Put p sp)"
  by (simp add: Put_def sp_wf_update)

lemma sp_wf_idx: "sp_wf sp \<Longrightarrow> Get sp i = Some p \<Longrightarrow> piece_idx p = i"
  by (auto simp: Get_in_set sp_wf_def)

lemma Set_idx [simp]:
  "piece_idx (SetStatus st p) = piece_idx p" "piece_idx (SetDownloader d p) = piece_idx p"
  "piece_idx (SetPieceAsLast p) = piece_idx p"
  "piece_status (SetStatus st p) = st" "piece_status (SetDownloader d p) = piece_status p"
  "piece_downloader (SetDownloader d p) = d" "piece_downloader (SetStatus st p) = piece_downloader p"
  "piece_blocks (SetStatus st p) = piece_blocks p" "piece_blocks (SetDownloader d p) = piece_blocks p"
  "piece_blocks (SetPieceAsLast p) = piece_blocks p" "piece_status (SetPieceAsLast p) = piece_status p"
  "piece_length (SetPieceAsLast p) = piece_length p" "piece_length (SetStatus st p) = piece_length p"
  by (simp_all add: SetStatus_def SetDownloader_def SetPieceAsLast_def)

lemma TryToReserve_wf: "TryToReserve sp i d = Ok (sp', ok) \<Longrightarrow> sp_wf sp \<Longrightarrow> sp_wf sp'"
  by (auto simp: TryToReserve_def on_piece_eq sp_wf_idx split: option.splits if_splits intro!: sp_wf_update)

lemma MarkAsDone_wf: "MarkAsDone sp i = Ok sp' \<Longrightarrow> sp_wf sp \<Longrightarrow> sp_wf sp'"
  by (auto simp: MarkAsDone_def on_piece_eq sp_wf_idx split: option.splits intro!: sp_wf_update)

lemma SetAsLastPiece_wf: "SetAsLastPiece sp i = Ok sp' \<Longrightarrow> sp_wf sp \<Longrightarrow> sp_wf sp'"
  by (auto simp: SetAsLastPiece_def on_piece_eq sp_wf_idx split: option.splits intro!: sp_wf_update)

section \<open>The contract of the store\<close>

text \<open>
  One step of a goroutine on the store, with its outcome, and the sequences of such steps. The two
  operations are parameters, so that the lemmas hold for every implementation of the interface.
\<close>

datatype 'p store_event = Reserved int 'p | Refused int 'p | Marked int

inductive store_run ::
    "('s \<Rightarrow> int \<Rightarrow> 'p \<Rightarrow> ('s \<times> bool) res) \<Rightarrow> ('s \<Rightarrow> int \<Rightarrow> 's res) \<Rightarrow>
     's \<Rightarrow> 'p store_event list \<Rightarrow> 's \<Rightarrow> bool"
  for reserve mark where
  run_nil: "store_run reserve mark s [] s"
| run_reserved: "reserve s i p = Ok (t, True) \<Longrightarrow> store_run reserve mark t es u \<Longrightarrow>
     store_run reserve mark s (Reserved i p # es) u"
| run_refused: "reserve s i p = Ok (t, False) \<Longrightarrow> store_run reserve mark t es u \<Longrightarrow>
     store_run reserve mark s (Refused i p # es) u"
| run_marked: "mark s i = Ok t \<Longrightarrow> store_run reserve mark t es u \<Longrightarrow>
     store_run reserve mark s (Marked i # es) u"

inductive_cases run_nilE: "store_run reserve mark s [] u"
inductive_cases run_consE: "store_run reserve mark s (e # es) u"

text \<open>
  The loop that takes the first piece of a queue that it can reserve (the part of
  \<open>RequestNextPiece\<close> from the label \<open>looper\<close> to the jump back to it).
\<close>

fun reserve_first ::
    "('s \<Rightarrow> int \<Rightarrow> 'p \<Rightarrow> ('s \<times> bool) res) \<Rightarrow> 'p \<Rightarrow> int list \<Rightarrow> 's \<Rightarrow> ('s \<times> int option \<times> int list) res" where
  "reserve_first reserve p [] s = Ok (s, None, [])"
| "reserve_first reserve p (i # queue) s =
     res_bind (reserve s i p) (\<lambda>(s', ok).
       if ok then Ok (s', Some i, queue) else reserve_first reserve p queue s')"

locale reservations =
  fixes reserve :: "'s \<Rightarrow> int \<Rightarrow> 'p \<Rightarrow> ('s \<times> bool) res"
    and mark :: "'s \<Rightarrow> int \<Rightarrow> 's res"
    and st :: "'s \<Rightarrow> int \<Rightarrow> PieceStatus option"
    and owner :: "'s \<Rightarrow> int \<Rightarrow> 'p option"
  assumes reserve_missing: "st s i = None \<Longrightarrow> reserve s i p = Panic NilDereference"
    and reserve_busy: "st s i = Some a \<Longrightarrow> a \<noteq> PIECESTATUS_IDLE \<Longrightarrow> reserve s i p = Ok (s, False)"
    and reserve_idle: "st s i = Some PIECESTATUS_IDLE \<Longrightarrow>
      \<exists>t. reserve s i p = Ok (t, True) \<and> st t = (st s)(i \<mapsto> PIECESTATUS_DOWNLOADING) \<and>
          owner t = (owner s)(i \<mapsto> p)"
    and mark_missing: "st s i = None \<Longrightarrow> mark s i = Panic NilDereference"
    and mark_present: "st s i = Some a \<Longrightarrow>
      \<exists>t. mark s i = Ok t \<and> st t = (st s)(i \<mapsto> PIECESTATUS_DONE) \<and> owner t = owner s"
begin

lemma reserve_True:
  assumes "reserve s i p = Ok (t, True)"
  shows "st s i = Some PIECESTATUS_IDLE" "st t = (st s)(i \<mapsto> PIECESTATUS_DOWNLOADING)"
    "owner t = (owner s)(i \<mapsto> p)"
  using assms reserve_missing [of s i p] reserve_busy [of s i _ p] reserve_idle [of s i p]
  by (cases "st s i"; force)+

lemma reserve_False:
  assumes "reserve s i p = Ok (t, False)"
  shows "t = s" "\<exists>a. st s i = Some a \<and> a \<noteq> PIECESTATUS_IDLE"
  using assms reserve_missing [of s i p] reserve_busy [of s i _ p] reserve_idle [of s i p]
  by (cases "st s i"; force)+

lemma mark_Ok:
  assumes "mark s i = Ok t"
  shows "\<exists>a. st s i = Some a" "st t = (st s)(i \<mapsto> PIECESTATUS_DONE)" "owner t = owner s"
  using assms mark_missing [of s i] mark_present [of s i] by (cases "st s i"; force)+

text \<open>Statuses only go up, along any run.\<close>

lemma run_status_mono:
  "store_run reserve mark s es u \<Longrightarrow> st s i = Some a \<Longrightarrow> \<exists>b. st u i = Some b \<and> a \<le> b"
proof (induction arbitrary: a rule: store_run.induct)
  case (run_reserved s k p t es u)
  have "\<exists>b. st t i = Some b \<and> a \<le> b"
    using reserve_True [OF run_reserved.hyps(1)] run_reserved.prems by auto
  then show ?case using run_reserved.IH by (blast intro: order_trans)
next
  case (run_refused s k p t es u)
  then show ?case using reserve_False [OF run_refused.hyps(1)] by auto
next
  case (run_marked s k t es u)
  have "\<exists>b. st t i = Some b \<and> a \<le> b"
    using mark_Ok [OF run_marked.hyps(1)] run_marked.prems by auto
  then show ?case using run_marked.IH by (blast intro: order_trans)
qed auto

text \<open>A piece that is taken is never reserved again, and keeps its owner.\<close>

lemma run_taken:
  "store_run reserve mark s es u \<Longrightarrow> st s i = Some a \<Longrightarrow> a \<noteq> PIECESTATUS_IDLE \<Longrightarrow>
   (\<forall>p. Reserved i p \<notin> set es) \<and> owner u i = owner s i"
proof (induction arbitrary: a rule: store_run.induct)
  case (run_reserved s k p t es u)
  note step = reserve_True [OF run_reserved.hyps(1)]
  with run_reserved.prems have "i \<noteq> k" by auto
  with step run_reserved show ?case by simp
next
  case (run_refused s k p t es u)
  then show ?case using reserve_False [OF run_refused.hyps(1)] by auto
next
  case (run_marked s k t es u)
  note step = mark_Ok [OF run_marked.hyps(1)]
  show ?case
    using run_marked.IH [of "if i = k then PIECESTATUS_DONE else a"] run_marked.prems step
    by (auto split: if_splits)
qed auto

lemma run_reserved_once:
  "store_run reserve mark s es u \<Longrightarrow>
   length (filter (\<lambda>e. \<exists>p. e = Reserved i p) es) \<le> 1 \<and>
   (\<forall>p. Reserved i p \<in> set es \<longrightarrow> owner u i = Some p \<and> (\<exists>b. st u i = Some b \<and> b \<noteq> PIECESTATUS_IDLE))"
proof (induction rule: store_run.induct)
  case (run_reserved s k p t es u)
  show ?case
  proof (cases "k = i")
    case True
    have now: "st t i = Some PIECESTATUS_DOWNLOADING" "owner t i = Some p"
      using reserve_True [OF run_reserved.hyps(1)] True by auto
    then have none: "\<forall>p. Reserved i p \<notin> set es" and "owner u i = Some p"
      using run_taken [OF run_reserved.hyps(2)] by auto
    moreover have "\<exists>b. st u i = Some b \<and> b \<noteq> PIECESTATUS_IDLE"
      using run_status_mono [OF run_reserved.hyps(2) now(1)]
      by (auto simp: less_eq_PieceStatus_def)
    moreover have "filter (\<lambda>e. \<exists>p. e = Reserved i p) es = []"
      using none by (auto simp: filter_empty_conv)
    ultimately show ?thesis using True by auto
  qed (use run_reserved.IH in auto)
qed auto

lemma reserve_first_result:
  assumes "\<forall>i \<in> set queue. st s i \<noteq> None"
  shows "case dropWhile (\<lambda>i. st s i \<noteq> Some PIECESTATUS_IDLE) queue of
      [] \<Rightarrow> reserve_first reserve p queue s = Ok (s, None, [])
    | i # rest \<Rightarrow> \<exists>t. reserve_first reserve p queue s = Ok (t, Some i, rest) \<and>
        st t = (st s)(i \<mapsto> PIECESTATUS_DOWNLOADING) \<and> owner t = (owner s)(i \<mapsto> p)"
  using assms
proof (induction queue)
  case (Cons i queue)
  then obtain a where a: "st s i = Some a" by auto
  show ?case
  proof (cases "a = PIECESTATUS_IDLE")
    case True
    then show ?thesis using reserve_idle [of s i p] a by auto
  next
    case False
    have same: "reserve_first reserve p (i # queue) s = reserve_first reserve p queue s"
      using reserve_busy [OF a False, of p] by simp
    have "dropWhile (\<lambda>i. st s i \<noteq> Some PIECESTATUS_IDLE) (i # queue) =
        dropWhile (\<lambda>i. st s i \<noteq> Some PIECESTATUS_IDLE) queue"
      using a False by simp
    moreover have "\<forall>i \<in> set queue. st s i \<noteq> None" using Cons.prems by simp
    ultimately show ?thesis using Cons.IH unfolding same by metis
  qed
qed simp

end

definition owner_at :: "SafePieces \<Rightarrow> int \<Rightarrow> string option" where
  "owner_at sp i = map_option piece_downloader (Get sp i)"

interpretation sp: reservations TryToReserve MarkAsDone status_at owner_at
  by unfold_locales
    (auto simp: TryToReserve_def MarkAsDone_def on_piece_eq status_at_def owner_at_def fun_eq_iff
      split: option.splits)

lemmas store_defs = TryToReserve_def MarkAsDone_def SetAsLastPiece_def on_piece_eq

section \<open>Loops over the entries\<close>

lemma MaxPieceIdx_fold: "fold (\<lambda>(k, _) mx. if k > mx then k else mx) sp m = Max (insert m (fst ` set sp))"
proof (induction sp arbitrary: m)
  case (Cons e sp)
  obtain k p where e: "e = (k, p)" by (cases e)
  have "Max (insert m (insert k (fst ` set sp))) = Max (insert (max m k) (fst ` set sp))"
    by (cases "set sp = {}") (simp_all add: max.assoc max.left_commute)
  moreover have "(if k > m then k else m) = max m k" by simp
  ultimately show ?case by (simp add: e Cons.IH)
qed simp

lemma MaxPieceIdx_eq: "MaxPieceIdx sp = Max (insert 0 (fst ` set sp))"
  by (simp add: MaxPieceIdx_def MaxPieceIdx_fold)

lemma MaxPieceIdx_ge: "i \<in> fst ` set sp \<Longrightarrow> i \<le> MaxPieceIdx sp"
  by (simp add: MaxPieceIdx_eq)

lemma MaxPieceIdx_nonneg [simp]: "0 \<le> MaxPieceIdx sp"
  by (simp add: MaxPieceIdx_eq)

lemma DownloadedPieceIndices_eq:
  "DownloadedPieceIndices sp = map fst (filter (\<lambda>(k, v). Downloaded v) sp)"
proof -
  have "fold (\<lambda>(k, v) acc. if Downloaded v then acc @ [k] else acc) sp acc =
      acc @ map fst (filter (\<lambda>(k, v). Downloaded v) sp)" for acc
    by (induction sp arbitrary: acc) auto
  then show ?thesis by (simp add: DownloadedPieceIndices_def)
qed

lemma PieceIndices_eq: "PieceIndices sp = map fst sp"
proof -
  have "fold (\<lambda>(k, _) acc. acc @ [k]) sp acc = acc @ map fst sp" for acc
    by (induction sp arbitrary: acc) auto
  then show ?thesis by (simp add: PieceIndices_def)
qed

lemma set_DownloadedPieceIndices:
  "sp_wf sp \<Longrightarrow> set (DownloadedPieceIndices sp) = {i. status_at sp i = Some PIECESTATUS_DONE}"
  by (force simp: DownloadedPieceIndices_eq status_at_def Downloaded_def Get_in_set)

lemma TotalUndone_length:
  "TotalUndonePiecesLeft sp = int (length (filter (\<lambda>(k, p). piece_status p \<noteq> PIECESTATUS_DONE) sp))"
proof -
  have "fold (\<lambda>(_, p) it. if piece_status p \<noteq> PIECESTATUS_DONE then it + 1 else it) sp n =
      n + int (length (filter (\<lambda>(k, p). piece_status p \<noteq> PIECESTATUS_DONE) sp))" for n :: int
    by (induction sp arbitrary: n) auto
  then show ?thesis by (simp add: TotalUndonePiecesLeft_def)
qed

definition undone :: "SafePieces \<Rightarrow> int set" where
  "undone sp = {i. \<exists>a. status_at sp i = Some a \<and> a \<noteq> PIECESTATUS_DONE}"

lemma undone_eq:
  assumes "sp_wf sp"
  shows "undone sp = fst ` set (filter (\<lambda>(k, p). piece_status p \<noteq> PIECESTATUS_DONE) sp)"
  using assms by (force simp: undone_def status_at_def Get_in_set)

lemma finite_undone [simp]: "sp_wf sp \<Longrightarrow> finite (undone sp)"
  by (simp add: undone_eq)

lemma TotalUndone_card:
  assumes "sp_wf sp"
  shows "TotalUndonePiecesLeft sp = int (card (undone sp))"
proof -
  have "distinct (map fst (filter (\<lambda>(k, p). piece_status p \<noteq> PIECESTATUS_DONE) sp))"
    using assms by (simp add: sp_wf_def distinct_map_filter)
  then show ?thesis
    by (metis (no_types, lifting) TotalUndone_length assms distinct_card length_map list.set_map undone_eq)
qed

lemma undone_MarkAsDone:
  assumes "MarkAsDone sp i = Ok sp'"
  shows "undone sp' = undone sp - {i}"
  using sp.mark_Ok(2) [OF assms] by (auto simp: undone_def)

lemma undone_TryToReserve:
  assumes "TryToReserve sp i d = Ok (sp', ok)"
  shows "undone sp' = undone sp"
proof (cases ok)
  case True
  with assms show ?thesis using sp.reserve_True [of sp i d sp'] by (auto simp: undone_def)
next
  case False
  with assms show ?thesis using sp.reserve_False [of sp i d sp'] by simp
qed

lemma AllBlocks_eq:
  assumes "\<And>i. 0 \<le> i \<Longrightarrow> i < Len sp \<Longrightarrow> Get sp i = Some (f i)"
  shows "AllBlocks sp = Ok (concat (map (\<lambda>i. piece_blocks (f i)) [0..Len sp - 1]))"
proof -
  have "for_each (\<lambda>i blocks. on_piece sp i (\<lambda>p. Ok (blocks @ piece_blocks p))) is acc =
      Ok (acc @ concat (map (\<lambda>i. piece_blocks (f i)) is))"
    if "\<forall>i \<in> set is. 0 \<le> i \<and> i < Len sp" for "is" acc
    using that by (induction "is" arbitrary: acc) (auto simp: on_piece_eq assms)
  from this [of "[0..Len sp - 1]" "[]"] show ?thesis by (simp add: AllBlocks_def)
qed

section \<open>Properties\<close>

text \<open>
  (C5) No piece is downloaded twice: in every interleaving of \<open>TryToReserve\<close> and \<open>MarkAsDone\<close> calls of
  any number of connections, each piece is reserved at most once, the connection that got \<open>true\<close> stays recorded as
  the piece's downloader, and the piece never becomes idle again.
\<close>

theorem reserved_at_most_once:
  assumes "store_run TryToReserve MarkAsDone sp es sp'"
  shows "length (filter (\<lambda>e. \<exists>peer. e = Reserved i peer) es) \<le> 1 \<and>
    (\<forall>peer. Reserved i peer \<in> set es \<longrightarrow>
       (\<exists>p. Get sp' i = Some p \<and> piece_downloader p = peer \<and> piece_status p \<noteq> PIECESTATUS_IDLE))"
  using sp.run_reserved_once [OF assms, of i]
  by (auto simp: owner_at_def status_at_def)

text \<open>
  (C10) The count of unfinished pieces: \<open>TotalUndonePiecesLeft\<close> is the number of indices whose piece is not DONE,
  whatever order the map is ranged over; \<open>MarkAsDone\<close> of an unfinished piece lowers it by exactly one, of a finished
  piece by nothing, and it is zero exactly when every piece of the store is DONE.
\<close>

theorem undone_count:
  assumes "sp_wf sp" "MarkAsDone sp i = Ok sp'"
  shows "TotalUndonePiecesLeft sp = int (card (undone sp)) \<and> sp_wf sp' \<and>
    TotalUndonePiecesLeft sp' = TotalUndonePiecesLeft sp - (if i \<in> undone sp then 1 else 0) \<and>
    (TotalUndonePiecesLeft sp' = 0 \<longleftrightarrow> (\<forall>k p. Get sp' k = Some p \<longrightarrow> Downloaded p))"
proof -
  have wf: "sp_wf sp'" using MarkAsDone_wf assms by blast
  have "TotalUndonePiecesLeft sp' = int (card (undone sp - {i}))"
    using TotalUndone_card [OF wf] undone_MarkAsDone [OF assms(2)] by simp
  moreover have "int (card (undone sp - {i})) = int (card (undone sp)) - (if i \<in> undone sp then 1 else 0)"
    using assms(1) card_gt_0_iff [of "undone sp"] by (auto simp: card_Diff_singleton_if)
  moreover have "card (undone sp') = 0 \<longleftrightarrow> (\<forall>k p. Get sp' k = Some p \<longrightarrow> Downloaded p)"
    using card_0_eq [OF finite_undone [OF wf]]
    by (auto simp: undone_def status_at_def Downloaded_def)
  ultimately show ?thesis
    using wf TotalUndone_card [OF wf] TotalUndone_card [OF assms(1)] by auto
qed

definition two_pieces :: SafePieces where
  "two_pieces = [(0, NewPiece 0 768 PIECESTATUS_IDLE), (1, NewPiece 1 768 PIECESTATUS_IDLE)]"

definition two_pieces_taken :: SafePieces where
  "two_pieces_taken = [(0, SetDownloader ''id'' (SetStatus PIECESTATUS_DOWNLOADING
      (NewPiece 0 768 PIECESTATUS_IDLE))), (1, NewPiece 1 768 PIECESTATUS_IDLE)]"

lemma two_pieces_run:
  "store_run TryToReserve MarkAsDone two_pieces [Reserved 0 ''id'', Refused 0 ''other''] two_pieces_taken"
  by (rule run_reserved [where t = two_pieces_taken], simp add: two_pieces_def two_pieces_taken_def
      TryToReserve_def on_piece_def NewPiece_def, rule run_refused [where t = two_pieces_taken],
      simp add: two_pieces_taken_def TryToReserve_def on_piece_def, rule run_nil)

theorem reserved_at_most_once_witness:
  "\<exists>p. Get two_pieces_taken 0 = Some p \<and> piece_downloader p = ''id'' \<and> piece_status p \<noteq> PIECESTATUS_IDLE"
  using reserved_at_most_once [OF two_pieces_run, of 0] by simp

lemma two_pieces_wf: "sp_wf two_pieces"
  by (simp add: two_pieces_def sp_wf_def NewPiece_def)

theorem undone_count_witness:
  "\<exists>sp'. MarkAsDone two_pieces 1 = Ok sp' \<and> TotalUndonePiecesLeft two_pieces = 2 \<and>
     TotalUndonePiecesLeft sp' = 1"
proof -
  obtain sp' where sp': "MarkAsDone two_pieces 1 = Ok sp'"
    by (simp add: MarkAsDone_def on_piece_def two_pieces_def)
  have "1 \<in> undone two_pieces"
    by (simp add: undone_def status_at_def Get_def two_pieces_def NewPiece_def)
  then have "TotalUndonePiecesLeft sp' = TotalUndonePiecesLeft two_pieces - 1"
    using undone_count [OF two_pieces_wf sp'] by simp
  then show ?thesis
    using sp' by (simp add: TotalUndonePiecesLeft_def two_pieces_def NewPiece_def)
qed

end
