(* ===== verification/PeerMsg.thy ===== *)
theory PeerMsg
  imports SafePieces
begin

text \<open>
  \<^verbatim>\<open>peer/peermsg.go\<close>: the messages of the peer wire protocol, their encoding, and the parser. A slice
  that the code compares with \<open>nil\<close> is an \<open>option\<close>; payloads are plain byte lists, because a nil
  payload and an empty one behave the same. A \<open>[20]byte\<close> array is a list of 20 bytes. Locale
  \<open>wire_format\<close> states what a reader of a byte stream needs of an encoding: the length can be told
  from any prefix that holds the start of the message, and the message can be parsed back.
\<close>

section \<open>Messages\<close>

datatype PeerMsg =
    HandshakePeerMsg bytes
  | KeepAlivePeerMsg bytes
  | ChokedPeerMsg bytes
  | UnchokedPeerMsg bytes
  | InterestedPeerMsg bytes
  | NotInterestedPeerMsg bytes
  | HavePeerMsg bytes
  | BitfieldPeerMsg bytes
  | RequestPeerMsg bytes
  | PiecePeerMsg bytes

definition PEERMSG_CHOKED :: byte where "PEERMSG_CHOKED = 0"
definition PEERMSG_UNCHOKED :: byte where "PEERMSG_UNCHOKED = 1"
definition PEERMSG_INTERESTED :: byte where "PEERMSG_INTERESTED = 2"
definition PEERMSG_NOT_INTERESTED :: byte where "PEERMSG_NOT_INTERESTED = 3"
definition PEERMSG_HAVE :: byte where "PEERMSG_HAVE = 4"
definition PEERMSG_BITFIELD :: byte where "PEERMSG_BITFIELD = 5"
definition PEERMSG_REQUEST :: byte where "PEERMSG_REQUEST = 6"
definition PEERMSG_PIECE :: byte where "PEERMSG_PIECE = 7"

lemmas PEERMSG_defs [byte_simps] =
  PEERMSG_CHOKED_def PEERMSG_UNCHOKED_def PEERMSG_INTERESTED_def PEERMSG_NOT_INTERESTED_def
  PEERMSG_HAVE_def PEERMSG_BITFIELD_def PEERMSG_REQUEST_def PEERMSG_PIECE_def

fun GetPayload :: "PeerMsg \<Rightarrow> bytes" where
  "GetPayload (HandshakePeerMsg p) = p"
| "GetPayload (KeepAlivePeerMsg p) = p"
| "GetPayload (ChokedPeerMsg p) = p"
| "GetPayload (UnchokedPeerMsg p) = p"
| "GetPayload (InterestedPeerMsg p) = p"
| "GetPayload (NotInterestedPeerMsg p) = p"
| "GetPayload (HavePeerMsg p) = p"
| "GetPayload (BitfieldPeerMsg p) = p"
| "GetPayload (RequestPeerMsg p) = p"
| "GetPayload (PiecePeerMsg p) = p"

fun SetPayload :: "bytes \<Rightarrow> PeerMsg \<Rightarrow> PeerMsg" where
  "SetPayload b (HandshakePeerMsg p) = HandshakePeerMsg b"
| "SetPayload b (KeepAlivePeerMsg p) = KeepAlivePeerMsg b"
| "SetPayload b (ChokedPeerMsg p) = ChokedPeerMsg b"
| "SetPayload b (UnchokedPeerMsg p) = UnchokedPeerMsg b"
| "SetPayload b (InterestedPeerMsg p) = InterestedPeerMsg b"
| "SetPayload b (NotInterestedPeerMsg p) = NotInterestedPeerMsg b"
| "SetPayload b (HavePeerMsg p) = HavePeerMsg b"
| "SetPayload b (BitfieldPeerMsg p) = BitfieldPeerMsg b"
| "SetPayload b (RequestPeerMsg p) = RequestPeerMsg b"
| "SetPayload b (PiecePeerMsg p) = PiecePeerMsg b"

section \<open>Encoding: the Bytes methods\<close>

text \<open>\<open>payloadReader.Read(buff)\<close> into a fresh buffer; \<open>io.EOF\<close> is wrapped as \<open>ERR_PEER_LISTEN\<close>.\<close>

definition read_payload :: "bytes \<Rightarrow> nat \<Rightarrow> bytes res" where
  "read_payload payload n =
     (case read_first payload n of None \<Rightarrow> Err ERR_PEER_LISTEN | Some b \<Rightarrow> Ok b)"

definition HavePeerMsg_Bytes :: "bytes \<Rightarrow> bytes res" where
  "HavePeerMsg_Bytes payload =
     res_bind (read_payload payload 4) (\<lambda>pieceIdxBuff.
       Ok ([0x00, 0x00, 0x00, 0x05, PEERMSG_HAVE] @ pieceIdxBuff))"

definition RequestPeerMsg_Bytes :: "bytes \<Rightarrow> bytes res" where
  "RequestPeerMsg_Bytes payload =
     res_bind (read_payload payload 12) (\<lambda>blockInfoBuff.
       Ok ([0x00, 0x00, 0x00, 0x0d, PEERMSG_REQUEST] @ blockInfoBuff))"

definition HandshakePeerMsg_Bytes :: "bytes \<Rightarrow> bytes" where
  "HandshakePeerMsg_Bytes payload = payload"

definition ChokedPeerMsg_Bytes :: bytes where
  "ChokedPeerMsg_Bytes = [0x00, 0x00, 0x00, 0x01, PEERMSG_CHOKED]"

definition UnchokedPeerMsg_Bytes :: bytes where
  "UnchokedPeerMsg_Bytes = [0x00, 0x00, 0x00, 0x01, PEERMSG_UNCHOKED]"

definition InterestedPeerMsg_Bytes :: bytes where
  "InterestedPeerMsg_Bytes = [0x00, 0x00, 0x00, 0x01, PEERMSG_INTERESTED]"

definition NotInterestedPeerMsg_Bytes :: bytes where
  "NotInterestedPeerMsg_Bytes = [0x00, 0x00, 0x00, 0x01, PEERMSG_NOT_INTERESTED]"

definition KeepAlivePeerMsg_Bytes :: bytes where
  "KeepAlivePeerMsg_Bytes = [0x00, 0x00, 0x00, 0x00]"

definition PiecePeerMsg_Bytes :: "bytes \<Rightarrow> bytes res" where
  "PiecePeerMsg_Bytes payload =
     (let lengthBuff = PutUint32 (word_of_int (int (length payload) + 1)) in
      res_bind (read_payload payload (length payload)) (\<lambda>blockBuff.
        Ok (lengthBuff @ [PEERMSG_PIECE] @ blockBuff)))"

definition BitfieldPeerMsg_Bytes :: "bytes \<Rightarrow> bytes" where
  "BitfieldPeerMsg_Bytes payload =
     PutUint32 (word_of_int (1 + int (length payload))) @ [PEERMSG_BITFIELD] @ payload"

fun PeerMsg_Bytes :: "PeerMsg \<Rightarrow> bytes res" where
  "PeerMsg_Bytes (HandshakePeerMsg p) = Ok (HandshakePeerMsg_Bytes p)"
| "PeerMsg_Bytes (KeepAlivePeerMsg p) = Ok KeepAlivePeerMsg_Bytes"
| "PeerMsg_Bytes (ChokedPeerMsg p) = Ok ChokedPeerMsg_Bytes"
| "PeerMsg_Bytes (UnchokedPeerMsg p) = Ok UnchokedPeerMsg_Bytes"
| "PeerMsg_Bytes (InterestedPeerMsg p) = Ok InterestedPeerMsg_Bytes"
| "PeerMsg_Bytes (NotInterestedPeerMsg p) = Ok NotInterestedPeerMsg_Bytes"
| "PeerMsg_Bytes (HavePeerMsg p) = HavePeerMsg_Bytes p"
| "PeerMsg_Bytes (BitfieldPeerMsg p) = Ok (BitfieldPeerMsg_Bytes p)"
| "PeerMsg_Bytes (RequestPeerMsg p) = RequestPeerMsg_Bytes p"
| "PeerMsg_Bytes (PiecePeerMsg p) = PiecePeerMsg_Bytes p"

definition BytesOrPanic :: "PeerMsg \<Rightarrow> bytes res" where
  "BytesOrPanic peerMsg =
     (case PeerMsg_Bytes peerMsg of Err e \<Rightarrow> Panic ExplicitPanic | r \<Rightarrow> r)"

section \<open>Reading fields of a payload\<close>

text \<open>A big-endian \<open>uint32\<close> read with \<open>ReadAt\<close>; a short payload is \<open>ERR_PEERMSG_FUNC\<close>.\<close>

definition u32_at :: "bytes \<Rightarrow> nat \<Rightarrow> uint32 res" where
  "u32_at payload off =
     (case read_at payload off 4 of None \<Rightarrow> Err ERR_PEERMSG_FUNC | Some buff \<Rightarrow> Uint32 buff)"

definition HavePeerMsg_GetPieceIdx :: "bytes \<Rightarrow> int res" where
  "HavePeerMsg_GetPieceIdx payload = res_bind (Uint32 payload) (\<lambda>w. Ok (uint w))"

definition RequestPeerMsg_GetPieceIdx :: "bytes \<Rightarrow> int res" where
  "RequestPeerMsg_GetPieceIdx payload = res_bind (u32_at payload 0) (\<lambda>w. Ok (uint w))"

definition RequestPeerMsg_GetBlockBegin :: "bytes \<Rightarrow> uint32 res" where
  "RequestPeerMsg_GetBlockBegin payload = u32_at payload 4"

definition RequestPeerMsg_GetBlockLength :: "bytes \<Rightarrow> uint32 res" where
  "RequestPeerMsg_GetBlockLength payload = u32_at payload 8"

definition RequestPeerMsg_GetBlock :: "bytes \<Rightarrow> Block res" where
  "RequestPeerMsg_GetBlock payload =
     res_bind (wrap_err ERR_REQUESTPEERMSG (RequestPeerMsg_GetBlockBegin payload)) (\<lambda>blockBegin.
     res_bind (wrap_err ERR_REQUESTPEERMSG (RequestPeerMsg_GetBlockLength payload)) (\<lambda>blockLength.
     res_bind (wrap_err ERR_REQUESTPEERMSG (RequestPeerMsg_GetPieceIdx payload)) (\<lambda>pieceIdx.
     res_bind (u32_div blockBegin blockLength) (\<lambda>idx.
       Ok (NewBlock (uint idx) pieceIdx blockBegin blockLength [])))))"

definition HandshakePeerMsg_GetInfoHash :: "bytes \<Rightarrow> bytes res" where
  "HandshakePeerMsg_GetInfoHash payload =
     (case read_at payload (1 + 19 + 8) 20 of None \<Rightarrow> Err ERR_PEERMSG_FUNC | Some b \<Rightarrow> Ok b)"

definition HandshakePeerMsg_GetPeerId :: "bytes \<Rightarrow> bytes res" where
  "HandshakePeerMsg_GetPeerId payload =
     (case read_at payload (1 + 19 + 8 + 20) 20 of None \<Rightarrow> Err ERR_PEERMSG_FUNC | Some b \<Rightarrow> Ok b)"

definition PiecePeerMsg_GetPieceIdx :: "bytes \<Rightarrow> int res" where
  "PiecePeerMsg_GetPieceIdx payload = res_bind (u32_at payload 0) (\<lambda>w. Ok (uint w))"

definition PiecePeerMsg_GetBlockBegin :: "bytes \<Rightarrow> uint32 res" where
  "PiecePeerMsg_GetBlockBegin payload = u32_at payload 4"

definition PiecePeerMsg_GetBlockBuff :: "bytes \<Rightarrow> bytes res" where
  "PiecePeerMsg_GetBlockBuff payload =
     res_bind (make_bytes (int (length payload) - 8)) (\<lambda>buff.
       case read_at payload 8 (length buff) of None \<Rightarrow> Err ERR_PEERMSG_FUNC | Some b \<Rightarrow> Ok b)"

definition PiecePeerMsg_GetBlock :: "bytes \<Rightarrow> Block res" where
  "PiecePeerMsg_GetBlock payload =
     res_bind (wrap_err ERR_REQUESTPEERMSG (PiecePeerMsg_GetBlockBegin payload)) (\<lambda>blockBegin.
     res_bind (wrap_err ERR_REQUESTPEERMSG (PiecePeerMsg_GetBlockBuff payload)) (\<lambda>blockBuff.
     res_bind (wrap_err ERR_REQUESTPEERMSG (PiecePeerMsg_GetPieceIdx payload)) (\<lambda>pieceIdx.
     res_bind (go_div (uint blockBegin) (int (length blockBuff))) (\<lambda>idx.
       Ok (NewBlock idx pieceIdx blockBegin (word_of_int (int (length blockBuff))) blockBuff)))))"

definition BitfieldPeerMsg_GetPieceIndices :: "bytes \<Rightarrow> int \<Rightarrow> int list res" where
  "BitfieldPeerMsg_GetPieceIndices payload maxPieceIdx =
     (let field = NewBitfieldFromBytes payload in
      if maxPieceIdx > bf_NumOfBits field then Err ERR_PEERMSG_BUILD
      else AsIntSlice field maxPieceIdx)"

section \<open>Building messages\<close>

definition bytes_of_string :: "string \<Rightarrow> bytes" where
  "bytes_of_string s = map of_char s"

definition BuildPeerHandshakeMsg :: "bytes \<Rightarrow> bytes \<Rightarrow> PeerMsg" where
  "BuildPeerHandshakeMsg peerId infohash =
     HandshakePeerMsg ([19] @ bytes_of_string ''BitTorrent protocol'' @
       [0x00, 0x00, 0x00, 0x00, 0x00, 0x00, 0x00, 0x00] @ infohash @ peerId)"

definition BuildPeerPieceMsg :: "Block \<Rightarrow> PeerMsg" where
  "BuildPeerPieceMsg block =
     PiecePeerMsg (PutUint32 (word_of_int (blk_PieceIdx block)) @ PutUint32 (blk_Begin block) @
       blk_Buff block)"

definition BuildPeerBitfieldMsg :: "SafePieces option \<Rightarrow> PeerMsg res" where
  "BuildPeerBitfieldMsg pieces =
     (case pieces of
       None \<Rightarrow> Err ERR_PEERMSG_BUILD
     | Some sp \<Rightarrow>
         if Len sp = 0 then Err ERR_PEERMSG_BUILD
         else res_bind (NewBitfield (MaxPieceIdx sp)) (\<lambda>bitfield.
              res_bind (for_each (\<lambda>(_, p) bf.
                  if Downloaded p then Bitfield_Set bf (piece_idx p) else Ok bf) sp bitfield)
                (\<lambda>bf. Ok (BitfieldPeerMsg (bf_Bytes bf)))))"

definition BuildPeerHaveMsg :: "uint32 \<Rightarrow> PeerMsg" where
  "BuildPeerHaveMsg pieceIdx = HavePeerMsg (PutUint32 pieceIdx)"

definition BuildPeerInterestedMsg :: PeerMsg where "BuildPeerInterestedMsg = InterestedPeerMsg []"
definition BuildPeerNotInterestedMsg :: PeerMsg where "BuildPeerNotInterestedMsg = NotInterestedPeerMsg []"
definition BuildPeerKeepAliveMsg :: PeerMsg where "BuildPeerKeepAliveMsg = KeepAlivePeerMsg []"
definition BuildPeerUnchokedMsg :: PeerMsg where "BuildPeerUnchokedMsg = UnchokedPeerMsg []"
definition BuildPeerChokedMsg :: PeerMsg where "BuildPeerChokedMsg = ChokedPeerMsg []"

definition BuildPeerRequestMsg :: "Block option \<Rightarrow> PeerMsg res" where
  "BuildPeerRequestMsg targetBlock =
     (case targetBlock of
       None \<Rightarrow> Err ERR_PEERMSG_BUILD
     | Some b \<Rightarrow> Ok (RequestPeerMsg (PutUint32 (word_of_int (blk_PieceIdx b)) @
         PutUint32 (blk_Begin b) @ PutUint32 (blk_Length b))))"

section \<open>Parsing\<close>

definition slice_bytes :: "bytes option \<Rightarrow> bytes" where
  "slice_bytes s = (case s of None \<Rightarrow> [] | Some b \<Rightarrow> b)"

definition IsPeerHandshakeMsg :: "bytes option \<Rightarrow> bool" where
  "IsPeerHandshakeMsg msgBuf =
     (case msgBuf of
       None \<Rightarrow> False
     | Some [] \<Rightarrow> False
     | Some (messageLength # rest) \<Rightarrow>
         if 68 \<noteq> uint messageLength + 49 then False
         else (case read_at (messageLength # rest) 1 19 of
             None \<Rightarrow> False
           | Some fixedProtocolMsg \<Rightarrow>
               if fixedProtocolMsg \<noteq> bytes_of_string ''BitTorrent protocol'' then False else True))"

definition ParseRawPeerMsgLength :: "bytes option \<Rightarrow> int res" where
  "ParseRawPeerMsgLength msgBuf =
     (case msgBuf of
       None \<Rightarrow> Err ERR_PEER_LISTEN
     | Some buf \<Rightarrow>
         if IsPeerHandshakeMsg msgBuf then Ok 68
         else (case read_at buf 0 4 of
             None \<Rightarrow> Err ERR_PEER_LISTEN
           | Some msgLenBuff \<Rightarrow> res_bind (Uint32 msgLenBuff) (\<lambda>w.
               let msgLen = uint w + 4 in
               if msgLen > 16640 then Err ERR_PEER_LISTEN else Ok msgLen)))"

definition BuildPeerHandshakeMsgFromRawBytes :: "bytes option \<Rightarrow> PeerMsg res" where
  "BuildPeerHandshakeMsgFromRawBytes msgBuf =
     (case msgBuf of
       None \<Rightarrow> Err ERR_PEER_LISTEN
     | Some buf \<Rightarrow> (case read_at buf 48 20 of
         None \<Rightarrow> Err ERR_PEER_LISTEN
       | Some peerId \<Rightarrow> (case read_at buf 28 20 of
           None \<Rightarrow> Err ERR_PEER_LISTEN
         | Some infoHash \<Rightarrow> Ok (BuildPeerHandshakeMsg peerId infoHash))))"

text \<open>The switch on the message id.\<close>

definition msg_of_id :: "byte \<Rightarrow> bytes \<Rightarrow> PeerMsg res" where
  "msg_of_id i payload =
     (if i = PEERMSG_INTERESTED then Ok (InterestedPeerMsg payload)
      else if i = PEERMSG_NOT_INTERESTED then Ok (NotInterestedPeerMsg payload)
      else if i = PEERMSG_UNCHOKED then Ok (UnchokedPeerMsg payload)
      else if i = PEERMSG_CHOKED then Ok (ChokedPeerMsg payload)
      else if i = PEERMSG_HAVE then Ok (HavePeerMsg payload)
      else if i = PEERMSG_BITFIELD then Ok (BitfieldPeerMsg payload)
      else if i = PEERMSG_REQUEST then Ok (RequestPeerMsg payload)
      else if i = PEERMSG_PIECE then Ok (PiecePeerMsg payload)
      else Err ERR_PARSE_PEER)"

definition NewPeerMsgFromBuffer :: "bytes option \<Rightarrow> PeerMsg res" where
  "NewPeerMsgFromBuffer msgBuf =
     (if IsPeerHandshakeMsg msgBuf then BuildPeerHandshakeMsgFromRawBytes msgBuf
      else let buf = slice_bytes msgBuf;
               msgIdBuff = (if length buf > 4 then read_at buf 4 1 else None);
               payloadBuff = (if length buf > 5 then drop 5 buf else []) in
        case msgIdBuff of
          None \<Rightarrow> Ok (KeepAlivePeerMsg payloadBuff)
        | Some b \<Rightarrow> msg_of_id (hd b) payloadBuff)"

lemma ParseRawPeerMsgLength_cases:
  "(\<exists>n. ParseRawPeerMsgLength buf = Ok n \<and> 4 \<le> n \<and> n \<le> 16640 \<and> (IsPeerHandshakeMsg buf \<longrightarrow> n = 68)) \<or>
   ParseRawPeerMsgLength buf = Err ERR_PEER_LISTEN \<and> \<not> IsPeerHandshakeMsg buf"
proof (cases buf)
  case None
  then show ?thesis by (simp add: ParseRawPeerMsgLength_def IsPeerHandshakeMsg_def)
next
  case (Some b)
  show ?thesis
  proof (cases "read_at b 0 4")
    case None
    with Some show ?thesis by (simp add: ParseRawPeerMsgLength_def)
  next
    case (Some w)
    then obtain v where "Uint32 w = Ok v"
      using Uint32_total [of w] by (auto simp: byte_simps)
    with Some \<open>buf = Some b\<close> show ?thesis
      by (simp add: ParseRawPeerMsgLength_def Let_def)
  qed
qed

lemma ParseRawPeerMsgLength_returns: "returns (ParseRawPeerMsgLength buf)"
  using ParseRawPeerMsgLength_cases [of buf] by auto

lemma NewPeerMsgFromBuffer_returns: "returns (NewPeerMsgFromBuffer buf)"
  by (auto simp: NewPeerMsgFromBuffer_def BuildPeerHandshakeMsgFromRawBytes_def msg_of_id_def Let_def
      split: option.splits)

section \<open>The format of a message on the wire\<close>

text \<open>
  The messages the program builds: an empty payload where the encoding has none, four and twelve bytes
  for HAVE and REQUEST, a non-empty PIECE, the 68 bytes of a handshake.
\<close>

fun wf_msg :: "PeerMsg \<Rightarrow> bool" where
  "wf_msg (HandshakePeerMsg p) \<longleftrightarrow>
     (\<exists>infohash peerId. length infohash = 20 \<and> length peerId = 20 \<and>
        HandshakePeerMsg p = BuildPeerHandshakeMsg peerId infohash)"
| "wf_msg (HavePeerMsg p) \<longleftrightarrow> length p = 4"
| "wf_msg (RequestPeerMsg p) \<longleftrightarrow> length p = 12"
| "wf_msg (PiecePeerMsg p) \<longleftrightarrow> p \<noteq> []"
| "wf_msg (BitfieldPeerMsg p) \<longleftrightarrow> True"
| "wf_msg m \<longleftrightarrow> GetPayload m = []"

lemma PutUint32_small_consts:
  "PutUint32 0 = [0, 0, 0, 0]" "PutUint32 1 = [0, 0, 0, 1]"
  "PutUint32 5 = [0, 0, 0, 5]" "PutUint32 13 = [0, 0, 0, 13]"
  by (simp_all add: PutUint32_def)

lemma length_protocol [simp]: "length (bytes_of_string ''BitTorrent protocol'') = 19"
  by (simp add: bytes_of_string_def)

lemma not_handshake_framed:
  assumes "uint n < 2 ^ 24"
  shows "\<not> IsPeerHandshakeMsg (Some (PutUint32 n @ rest))"
proof -
  have "PutUint32 n @ rest = 0 # (tl (PutUint32 n) @ rest)"
    by (subst PutUint32_small_first [OF assms]) simp
  then show ?thesis unfolding \<open>PutUint32 n @ rest = _\<close> by (simp add: IsPeerHandshakeMsg_def)
qed

lemma parse_length_framed:
  assumes "uint n + 4 \<le> 16640"
  shows "ParseRawPeerMsgLength (Some (PutUint32 n @ rest)) = Ok (uint n + 4)"
  using assms not_handshake_framed [of n rest] u32.dec_field [of n]
  by (simp add: ParseRawPeerMsgLength_def u32.read_field_first)

lemma parse_framed:
  assumes "uint n < 2 ^ 24"
  shows "NewPeerMsgFromBuffer (Some (PutUint32 n @ body)) =
    (case body of [] \<Rightarrow> Ok (KeepAlivePeerMsg []) | i # payload \<Rightarrow> msg_of_id i payload)"
  using not_handshake_framed [OF assms, of body]
  by (cases body; cases "tl body")
     (auto simp: NewPeerMsgFromBuffer_def slice_bytes_def read_at_def Let_def)

lemma read_payload_exact [simp]: "length p = n \<Longrightarrow> 0 < n \<Longrightarrow> read_payload p n = Ok p"
  by (auto simp: read_payload_def read_first_exact)

text \<open>Every message but the handshake is a big-endian length, an id and the payload.\<close>

lemma Bytes_framed:
  assumes "wf_msg m" and "\<And>p. m \<noteq> HandshakePeerMsg p" and "int (length (GetPayload m)) < 2 ^ 24 - 1"
  shows "\<exists>n body. PeerMsg_Bytes m = Ok (PutUint32 n @ body) \<and> uint n = int (length body) \<and> uint n < 2 ^ 24 \<and>
    (case body of [] \<Rightarrow> Ok (KeepAlivePeerMsg []) | i # payload \<Rightarrow> msg_of_id i payload) = Ok m"
proof (cases m)
  case (HandshakePeerMsg p)
  with assms(2) show ?thesis by blast
next
  case (KeepAlivePeerMsg p)
  with assms(1) show ?thesis
    by (intro exI [of _ 0] exI [of _ "[]"]) (simp add: KeepAlivePeerMsg_Bytes_def PutUint32_small_consts)
next
  case (ChokedPeerMsg p)
  with assms(1) show ?thesis
    by (intro exI [of _ 1] exI [of _ "[PEERMSG_CHOKED]"])
       (simp add: ChokedPeerMsg_Bytes_def PutUint32_small_consts msg_of_id_def byte_simps)
next
  case (UnchokedPeerMsg p)
  with assms(1) show ?thesis
    by (intro exI [of _ 1] exI [of _ "[PEERMSG_UNCHOKED]"])
       (simp add: UnchokedPeerMsg_Bytes_def PutUint32_small_consts msg_of_id_def byte_simps)
next
  case (InterestedPeerMsg p)
  with assms(1) show ?thesis
    by (intro exI [of _ 1] exI [of _ "[PEERMSG_INTERESTED]"])
       (simp add: InterestedPeerMsg_Bytes_def PutUint32_small_consts msg_of_id_def byte_simps)
next
  case (NotInterestedPeerMsg p)
  with assms(1) show ?thesis
    by (intro exI [of _ 1] exI [of _ "[PEERMSG_NOT_INTERESTED]"])
       (simp add: NotInterestedPeerMsg_Bytes_def PutUint32_small_consts msg_of_id_def byte_simps)
next
  case (HavePeerMsg p)
  with assms(1) show ?thesis
    by (intro exI [of _ 5] exI [of _ "PEERMSG_HAVE # p"])
       (auto simp: HavePeerMsg_Bytes_def PutUint32_small_consts msg_of_id_def byte_simps)
next
  case (BitfieldPeerMsg p)
  with assms(3) show ?thesis
    by (intro exI [of _ "word_of_int (1 + int (length p))"] exI [of _ "PEERMSG_BITFIELD # p"])
       (simp add: BitfieldPeerMsg_Bytes_def msg_of_id_def byte_simps del: of_int_add)
next
  case (RequestPeerMsg p)
  with assms(1) show ?thesis
    by (intro exI [of _ 13] exI [of _ "PEERMSG_REQUEST # p"])
       (auto simp: RequestPeerMsg_Bytes_def PutUint32_small_consts msg_of_id_def byte_simps)
next
  case (PiecePeerMsg p)
  with assms(1,3) show ?thesis
    by (intro exI [of _ "word_of_int (int (length p) + 1)"] exI [of _ "PEERMSG_PIECE # p"])
       (simp add: PiecePeerMsg_Bytes_def msg_of_id_def byte_simps del: of_int_add)
qed

subsection \<open>The handshake\<close>

lemma IsPeerHandshakeMsg_prefix:
  assumes "20 \<le> length pre"
  shows "IsPeerHandshakeMsg (Some (pre @ rest)) = IsPeerHandshakeMsg (Some pre)"
proof -
  obtain b pre' where pre: "pre = b # pre'" using assms by (cases pre) auto
  have "read_at (pre @ rest) 1 19 = read_at pre 1 19"
    using assms by (intro read_at_append_left) auto
  then show ?thesis by (simp add: IsPeerHandshakeMsg_def pre)
qed

definition handshake_head :: bytes where
  "handshake_head = [19] @ bytes_of_string ''BitTorrent protocol''"

lemma length_handshake_head [simp]: "length handshake_head = 20"
  by (simp add: handshake_head_def)

lemma IsPeerHandshakeMsg_head: "IsPeerHandshakeMsg (Some (handshake_head @ rest))"
proof -
  have "read_at (handshake_head @ rest) 1 19 = Some (bytes_of_string ''BitTorrent protocol'')"
    by (simp add: read_at_def handshake_head_def)
  then show ?thesis
    by (simp add: IsPeerHandshakeMsg_def handshake_head_def)
qed

lemma BuildPeerHandshakeMsg_payload:
  "BuildPeerHandshakeMsg peerId infohash =
     HandshakePeerMsg (handshake_head @ replicate 8 0 @ infohash @ peerId)"
  by (simp add: BuildPeerHandshakeMsg_def handshake_head_def numeral_eq_Suc)

lemma wf_handshake:
  assumes "wf_msg (HandshakePeerMsg p)"
  obtains infohash peerId where "length infohash = 20" "length peerId = 20"
    "p = handshake_head @ replicate 8 0 @ infohash @ peerId"
  using assms by (auto simp: BuildPeerHandshakeMsg_payload)

lemma handshake_fields:
  assumes "length infohash = 20" "length peerId = 20"
  defines "p \<equiv> handshake_head @ replicate 8 0 @ infohash @ peerId"
  shows "read_at p 28 20 = Some infohash" and "read_at p 48 20 = Some peerId" and "length p = 68"
  using assms by (simp_all add: read_at_def)

lemma parse_handshake:
  assumes "wf_msg (HandshakePeerMsg p)"
  shows "NewPeerMsgFromBuffer (Some p) = Ok (HandshakePeerMsg p)"
proof -
  obtain infohash peerId where f: "length infohash = 20" "length peerId = 20"
    "p = handshake_head @ replicate 8 0 @ infohash @ peerId"
    using assms by (rule wf_handshake)
  then show ?thesis
    using handshake_fields [OF f(1,2)]
    by (simp add: NewPeerMsgFromBuffer_def BuildPeerHandshakeMsgFromRawBytes_def
        IsPeerHandshakeMsg_head BuildPeerHandshakeMsg_payload)
qed

subsection \<open>The contract of a wire format\<close>

text \<open>
  What a reader of a stream relies on. \<open>frame_len\<close> tells the length of the message at the head of a
  buffer once the buffer holds the whole message or its first \<open>header\<close> bytes, whatever comes after;
  \<open>parse\<close> gives the message back from exactly its bytes.
\<close>

locale wire_format =
  fixes enc :: "'m \<Rightarrow> bytes res"
    and wf :: "'m \<Rightarrow> bool"
    and frame_len :: "bytes option \<Rightarrow> int res"
    and parse :: "bytes option \<Rightarrow> 'm res"
    and header :: nat
    and limit :: int
  assumes enc_total: "wf m \<Longrightarrow> \<exists>b. enc m = Ok b \<and> b \<noteq> []"
    and frame_len_prefix: "wf m \<Longrightarrow> enc m = Ok (pre @ suf) \<Longrightarrow> int (length (pre @ suf)) \<le> limit \<Longrightarrow>
      suf = [] \<or> header \<le> length pre \<Longrightarrow> frame_len (Some (pre @ rest)) = Ok (int (length (pre @ suf)))"
    and parse_enc: "wf m \<Longrightarrow> enc m = Ok b \<Longrightarrow> int (length b) \<le> limit \<Longrightarrow> parse (Some b) = Ok m"
begin

lemma enc_bytes:
  assumes "wf m"
  obtains b where "enc m = Ok b" "b \<noteq> []"
  using enc_total [OF assms] by blast

lemma frame_len_whole:
  assumes "wf m" "enc m = Ok b" "int (length b) \<le> limit"
  shows "frame_len (Some (b @ rest)) = Ok (int (length b))"
  using frame_len_prefix [of m b "[]" rest] assms by simp

text \<open>No two messages share an encoding, and no encoding is a proper prefix of another one.\<close>

lemma enc_prefix_free:
  assumes "wf m" "enc m = Ok b" "int (length b) \<le> limit"
    and "wf m'" "enc m' = Ok b'" "int (length b') \<le> limit" and "b' = b @ rest"
  shows "m' = m"
proof -
  have "frame_len (Some b') = Ok (int (length b))"
    using frame_len_whole [OF assms(1-3), of rest] assms(7) by simp
  moreover have "frame_len (Some b') = Ok (int (length b'))"
    using frame_len_whole [OF assms(4-6), of "[]"] by simp
  ultimately have "b' = b" using assms(7) by simp
  then show ?thesis
    using parse_enc [OF assms(1-3)] parse_enc [OF assms(4-6)] by simp
qed

end

lemma GetPayload_le_Bytes:
  assumes "PeerMsg_Bytes m = Ok b" "wf_msg m"
  shows "length (GetPayload m) \<le> length b"
  using assms
  by (cases m) (auto simp: HandshakePeerMsg_Bytes_def BitfieldPeerMsg_Bytes_def HavePeerMsg_Bytes_def
      RequestPeerMsg_Bytes_def PiecePeerMsg_Bytes_def Let_def)

lemma frame_len_PeerMsg:
  assumes "wf_msg m" "PeerMsg_Bytes m = Ok (pre @ suf)" "int (length (pre @ suf)) \<le> 16640"
    and "suf = [] \<or> 20 \<le> length pre"
  shows "ParseRawPeerMsgLength (Some (pre @ rest)) = Ok (int (length (pre @ suf)))"
proof (cases "\<exists>p. m = HandshakePeerMsg p")
  case True
  then obtain p where m: "m = HandshakePeerMsg p" ..
  then have p: "p = pre @ suf" using assms(2) by (simp add: HandshakePeerMsg_Bytes_def)
  obtain infohash peerId where f: "length infohash = 20" "length peerId = 20"
    "p = handshake_head @ replicate 8 0 @ infohash @ peerId"
    using wf_handshake [of p] assms(1) m by metis
  then have len: "length p = 68" by simp
  with p assms(4) have pre: "20 \<le> length pre" by auto
  then have "pre = take 20 (pre @ suf) @ drop 20 pre" by simp
  moreover have "take 20 (pre @ suf) = handshake_head" using f(3) p by simp
  ultimately have "IsPeerHandshakeMsg (Some (pre @ rest))"
    by (metis IsPeerHandshakeMsg_head append.assoc)
  then show ?thesis using len p by (simp add: ParseRawPeerMsgLength_def)
next
  case False
  have "int (length (GetPayload m)) < 2 ^ 24 - 1"
    using GetPayload_le_Bytes [OF assms(2,1)] assms(3) by simp
  then obtain n body where n: "PeerMsg_Bytes m = Ok (PutUint32 n @ body)" "uint n = int (length body)"
    using Bytes_framed [OF assms(1)] False by blast
  then have split: "pre @ suf = PutUint32 n @ body" using assms(2) by simp
  have "4 \<le> length pre"
    using assms(4) arg_cong [OF split, of length] by auto
  then have pre: "pre = PutUint32 n @ drop 4 pre"
    using arg_cong [OF split, of "take 4"] append_take_drop_id [of 4 pre] by simp
  have "uint n + 4 = int (length (pre @ suf))" using n(2) split by simp
  moreover have "uint n + 4 \<le> 16640" using calculation assms(3) by simp
  ultimately show ?thesis
    using parse_length_framed [of n "drop 4 pre @ rest"] pre by (metis append.assoc)
qed

lemma parse_PeerMsg:
  assumes "wf_msg m" "PeerMsg_Bytes m = Ok b" "int (length b) \<le> 16640"
  shows "NewPeerMsgFromBuffer (Some b) = Ok m"
proof (cases "\<exists>p. m = HandshakePeerMsg p")
  case True
  then show ?thesis using assms parse_handshake by (auto simp: HandshakePeerMsg_Bytes_def)
next
  case False
  have "int (length (GetPayload m)) < 2 ^ 24 - 1"
    using GetPayload_le_Bytes [OF assms(2,1)] assms(3) by simp
  then obtain n body where "PeerMsg_Bytes m = Ok (PutUint32 n @ body)" "uint n < 2 ^ 24"
    "(case body of [] \<Rightarrow> Ok (KeepAlivePeerMsg []) | i # payload \<Rightarrow> msg_of_id i payload) = Ok m"
    using Bytes_framed [OF assms(1)] False by blast
  then show ?thesis using parse_framed assms(2) by auto
qed

lemma Bytes_total: "wf_msg m \<Longrightarrow> \<exists>b. PeerMsg_Bytes m = Ok b \<and> b \<noteq> []"
  by (cases m) (auto simp: HandshakePeerMsg_Bytes_def BuildPeerHandshakeMsg_payload handshake_head_def
      KeepAlivePeerMsg_Bytes_def ChokedPeerMsg_Bytes_def UnchokedPeerMsg_Bytes_def
      InterestedPeerMsg_Bytes_def NotInterestedPeerMsg_Bytes_def HavePeerMsg_Bytes_def
      BitfieldPeerMsg_Bytes_def RequestPeerMsg_Bytes_def PiecePeerMsg_Bytes_def Let_def)

interpretation wire: wire_format PeerMsg_Bytes wf_msg ParseRawPeerMsgLength NewPeerMsgFromBuffer 20 16640
  by unfold_locales (fact Bytes_total frame_len_PeerMsg parse_PeerMsg)+

section \<open>Fields of a payload\<close>

lemma u32_at_field:
  assumes "length pre = off"
  shows "u32_at (pre @ PutUint32 w @ post) off = Ok w"
  by (simp add: u32_at_def u32.read_field [OF assms] u32.dec_field)

lemmas u32_at_first = u32_at_field [of "[]" 0, simplified]

lemma u32_at_cases:
  "u32_at payload off = (if length payload < off + 4 then Err ERR_PEERMSG_FUNC
     else Uint32 (take 4 (drop off payload)))"
  by (simp add: u32_at_def read_at_def)

lemma u32_at_Ok: "off + 4 \<le> length payload \<Longrightarrow> \<exists>w. u32_at payload off = Ok w"
  using Uint32_total [of "take 4 (drop off payload)"] by (simp add: u32_at_cases)

lemma u32_at_no_panic [simp]: "u32_at payload off \<noteq> Panic p"
proof (cases "length payload < off + 4")
  case False
  then show ?thesis using u32_at_Ok [of off payload] by auto
qed (simp add: u32_at_cases)

lemma request_payload_fields:
  "RequestPeerMsg_GetPieceIdx (PutUint32 i @ PutUint32 b @ PutUint32 l) = Ok (uint i)"
  "RequestPeerMsg_GetBlockBegin (PutUint32 i @ PutUint32 b @ PutUint32 l) = Ok b"
  "RequestPeerMsg_GetBlockLength (PutUint32 i @ PutUint32 b @ PutUint32 l) = Ok l"
  using u32_at_first [of i "PutUint32 b @ PutUint32 l"] u32_at_field [of "PutUint32 i" 4 b "PutUint32 l"]
    u32_at_field [of "PutUint32 i @ PutUint32 b" 8 l "[]"]
  by (simp_all add: RequestPeerMsg_GetPieceIdx_def RequestPeerMsg_GetBlockBegin_def
      RequestPeerMsg_GetBlockLength_def)

lemma piece_payload_fields:
  "PiecePeerMsg_GetPieceIdx (PutUint32 i @ PutUint32 b @ buff) = Ok (uint i)"
  "PiecePeerMsg_GetBlockBegin (PutUint32 i @ PutUint32 b @ buff) = Ok b"
  "buff \<noteq> [] \<Longrightarrow> PiecePeerMsg_GetBlockBuff (PutUint32 i @ PutUint32 b @ buff) = Ok buff"
  using u32_at_first [of i "PutUint32 b @ buff"] u32_at_field [of "PutUint32 i" 4 b buff]
  by (simp_all add: PiecePeerMsg_GetPieceIdx_def PiecePeerMsg_GetBlockBegin_def
      PiecePeerMsg_GetBlockBuff_def make_bytes_def read_at_def)

section \<open>Bitfield messages\<close>

lemma for_each_selected:
  "for_each (\<lambda>(_, p) bf. if P p then add bf (g p) else Ok bf) sp s =
   for_each (\<lambda>i bf. add bf i) (map (g \<circ> snd) (filter (P \<circ> snd) sp)) s"
proof (induction sp arbitrary: s)
  case (Cons e sp)
  then show ?case by (cases e) (auto simp: fun_eq_iff cong: res_bind_cong)
qed simp

definition downloaded_idx :: "SafePieces \<Rightarrow> int list" where
  "downloaded_idx sp = map (piece_idx \<circ> snd) (filter (Downloaded \<circ> snd) sp)"

lemma set_downloaded_idx:
  assumes "sp_wf sp"
  shows "set (downloaded_idx sp) = {i. \<exists>p. Get sp i = Some p \<and> Downloaded p}"
  using assms by (force simp: downloaded_idx_def Get_in_set sp_wf_def)

definition fresh_bitfield :: "int \<Rightarrow> Bitfield" where
  "fresh_bitfield n = \<lparr>bf_Bytes = replicate (nat ((n + 7) div 8)) 0, bf_NumOfBits = n\<rparr>"

lemma cap_fresh [simp]: "0 \<le> n \<Longrightarrow> bf_cap (fresh_bitfield n) = 8 * ((n + 7) div 8)"
  by (simp add: bf_cap_def fresh_bitfield_def)

lemma BuildPeerBitfieldMsg_eq:
  assumes "sp \<noteq> []"
  shows "BuildPeerBitfieldMsg (Some sp) =
    res_bind (for_each (\<lambda>i bf. Bitfield_Set bf i) (downloaded_idx sp) (fresh_bitfield (MaxPieceIdx sp)))
      (\<lambda>bf. Ok (BitfieldPeerMsg (bf_Bytes bf)))"
  using assms
  by (simp add: BuildPeerBitfieldMsg_def Len_def NewBitfield_nonneg downloaded_idx_def
      for_each_selected [symmetric] fresh_bitfield_def)

lemma bit_at_FromBytes [simp]: "bit_at (NewBitfieldFromBytes (bf_Bytes bf)) i = bit_at bf i"
  by (simp add: bit_at_def NewBitfieldFromBytes_def)

lemma cap_FromBytes [simp]: "bf_cap (NewBitfieldFromBytes b) = 8 * int (length b)"
  by (simp add: bf_cap_def NewBitfieldFromBytes_def)

text \<open>The receiving side, on any payload.\<close>

lemma GetPieceIndices_cases:
  "BitfieldPeerMsg_GetPieceIndices payload mx =
     (if mx > 8 * int (length payload) then Err ERR_PEERMSG_BUILD
      else AsIntSlice (NewBitfieldFromBytes payload) mx)"
  by (simp add: BitfieldPeerMsg_GetPieceIndices_def NewBitfieldFromBytes_def mult.commute)

end
