(* ===== verification/PeerMsg_Properties.thy ===== *)
theory PeerMsg_Properties
  imports PeerMsg "HOL-Library.Multiset"
begin

text \<open>
  What the message layer of \<^verbatim>\<open>peer/peermsg.go\<close> guarantees: encoding and parsing are inverse, the length of
  a message is read off its head, the block and bitfield messages carry their contents, and which
  payloads of a remote peer make a getter fail or panic.
\<close>

section \<open>Round trips\<close>

text \<open>
  (C6) Encode and parse: every message the program builds, encoded with \<open>Bytes\<close> to at most the 16640
  bytes the reader accepts, is parsed back by \<open>NewPeerMsgFromBuffer\<close> to the same message, and \<open>ParseRawPeerMsgLength\<close>
  finds exactly its length at the head of a buffer, whatever bytes follow it there.
\<close>

theorem message_roundtrip:
  assumes "wf_msg m" "PeerMsg_Bytes m = Ok b" "length b \<le> 16640"
  shows "NewPeerMsgFromBuffer (Some b) = Ok m \<and>
    ParseRawPeerMsgLength (Some (b @ rest)) = Ok (int (length b))"
  using wire.parse_enc [OF assms(1,2)] wire.frame_len_whole [OF assms(1,2), of rest] assms(3) by simp

theorem message_roundtrip_witness:
  "NewPeerMsgFromBuffer (Some [0, 0, 0, 5, 4, 0, 0, 1, 249]) = Ok (HavePeerMsg [0, 0, 1, 249]) \<and>
   ParseRawPeerMsgLength (Some ([0, 0, 0, 5, 4, 0, 0, 1, 249] @ [7, 7])) = Ok 9"
  using message_roundtrip [of "HavePeerMsg [0, 0, 1, 249]" "[0, 0, 0, 5, 4, 0, 0, 1, 249]" "[7, 7]"]
  by (simp add: HavePeerMsg_Bytes_def PEERMSG_HAVE_def)

text \<open>
  The encoding is prefix-free: when the bytes of one message start with the bytes of another, the two
  messages are equal. A stream of messages can therefore be cut in one way only, and no message is taken for a
  handshake or the other way round.
\<close>

theorem encoding_prefix_free:
  assumes "wf_msg m" "PeerMsg_Bytes m = Ok b" "wf_msg m'" "PeerMsg_Bytes m' = Ok (b @ rest)"
    and "length (b @ rest) \<le> 16640"
  shows "m' = m \<and> rest = []"
proof -
  have "m' = m"
    using wire.enc_prefix_free [OF assms(1,2) _ assms(3,4) _ refl] assms(5) by simp
  with assms(2,4) show ?thesis by simp
qed

theorem encoding_prefix_free_witness:
  "PeerMsg_Bytes BuildPeerChokedMsg = Ok ([0, 0, 0, 1, 0] @ []) \<and> BuildPeerChokedMsg = ChokedPeerMsg []"
  using encoding_prefix_free [of "ChokedPeerMsg []" "[0, 0, 0, 1, 0]" BuildPeerChokedMsg "[]"]
  by (simp add: BuildPeerChokedMsg_def ChokedPeerMsg_Bytes_def PEERMSG_CHOKED_def)

lemma wf_builders [simp]:
  "wf_msg BuildPeerInterestedMsg" "wf_msg BuildPeerNotInterestedMsg" "wf_msg BuildPeerKeepAliveMsg"
  "wf_msg BuildPeerUnchokedMsg" "wf_msg BuildPeerChokedMsg" "wf_msg (BuildPeerHaveMsg i)"
  "wf_msg (BuildPeerPieceMsg b)"
  "length infohash = 20 \<Longrightarrow> length peerId = 20 \<Longrightarrow> wf_msg (BuildPeerHandshakeMsg peerId infohash)"
  "BuildPeerRequestMsg tb = Ok m \<Longrightarrow> wf_msg m" "BuildPeerBitfieldMsg sp = Ok m \<Longrightarrow> wf_msg m"
  by (auto simp: BuildPeerInterestedMsg_def BuildPeerNotInterestedMsg_def BuildPeerKeepAliveMsg_def
      BuildPeerUnchokedMsg_def BuildPeerChokedMsg_def BuildPeerHaveMsg_def BuildPeerPieceMsg_def
      BuildPeerHandshakeMsg_payload BuildPeerRequestMsg_def BuildPeerBitfieldMsg_def res_simps
      split: option.splits if_splits)

text \<open>
  A REQUEST carries its block: the message built for a block, encoded, parsed and read with \<open>GetBlock\<close> gives a
  block with the same piece index (a \<open>uint32\<close>), offset and length, and with the index \<open>Begin / Length\<close>.
\<close>

theorem request_roundtrip:
  assumes "0 \<le> blk_PieceIdx blk" "blk_PieceIdx blk < 2 ^ 32" "blk_Length blk \<noteq> 0"
  shows "\<exists>m b. BuildPeerRequestMsg (Some blk) = Ok m \<and> PeerMsg_Bytes m = Ok b \<and> length b = 17 \<and>
    NewPeerMsgFromBuffer (Some b) = Ok m \<and>
    RequestPeerMsg_GetBlock (GetPayload m) =
      Ok (NewBlock (uint (blk_Begin blk) div uint (blk_Length blk)) (blk_PieceIdx blk)
            (blk_Begin blk) (blk_Length blk) [])"
proof -
  let ?p = "PutUint32 (word_of_int (blk_PieceIdx blk)) @ PutUint32 (blk_Begin blk) @ PutUint32 (blk_Length blk)"
  have m: "BuildPeerRequestMsg (Some blk) = Ok (RequestPeerMsg ?p)"
    by (simp add: BuildPeerRequestMsg_def)
  obtain b where b: "PeerMsg_Bytes (RequestPeerMsg ?p) = Ok b" "length b = 17"
    by (simp add: RequestPeerMsg_Bytes_def)
  then have "NewPeerMsgFromBuffer (Some b) = Ok (RequestPeerMsg ?p)"
    using wire.parse_enc [OF wf_builders(9) [OF m]] by simp
  moreover have "RequestPeerMsg_GetBlock ?p =
      Ok (NewBlock (uint (blk_Begin blk) div uint (blk_Length blk)) (blk_PieceIdx blk)
            (blk_Begin blk) (blk_Length blk) [])"
    using assms by (simp add: RequestPeerMsg_GetBlock_def request_payload_fields u32_div_def uint_div)
  ultimately show ?thesis using m b by simp
qed

theorem request_roundtrip_witness:
  "\<exists>m b. BuildPeerRequestMsg (Some (NewBlock 3 7 0xC000 0x4000 [])) = Ok m \<and> PeerMsg_Bytes m = Ok b \<and>
    RequestPeerMsg_GetBlock (GetPayload m) = Ok (NewBlock 3 7 0xC000 0x4000 [])"
  using request_roundtrip [of "NewBlock 3 7 0xC000 0x4000 []"] by auto

text \<open>
  A PIECE carries its data: the message built for a block with data, encoded, parsed and read with \<open>GetBlock\<close>,
  gives the same piece index, offset and data, the length of the data, and the index \<open>Begin / len(data)\<close>.
\<close>

theorem piece_roundtrip:
  assumes "0 \<le> blk_PieceIdx blk" "blk_PieceIdx blk < 2 ^ 32" "blk_Buff blk \<noteq> []"
    and "length (blk_Buff blk) \<le> 16627"
  shows "\<exists>b. PeerMsg_Bytes (BuildPeerPieceMsg blk) = Ok b \<and>
    NewPeerMsgFromBuffer (Some b) = Ok (BuildPeerPieceMsg blk) \<and>
    ParseRawPeerMsgLength (Some b) = Ok (int (length (blk_Buff blk)) + 13) \<and>
    PiecePeerMsg_GetBlock (GetPayload (BuildPeerPieceMsg blk)) =
      Ok (NewBlock (uint (blk_Begin blk) div int (length (blk_Buff blk))) (blk_PieceIdx blk) (blk_Begin blk)
            (word_of_nat (length (blk_Buff blk))) (blk_Buff blk))"
proof -
  let ?buff = "blk_Buff blk"
  let ?p = "PutUint32 (word_of_int (blk_PieceIdx blk)) @ PutUint32 (blk_Begin blk) @ ?buff"
  have m: "BuildPeerPieceMsg blk = PiecePeerMsg ?p"
    by (simp add: BuildPeerPieceMsg_def)
  obtain b where b: "PeerMsg_Bytes (PiecePeerMsg ?p) = Ok b" "length b = length ?buff + 13"
    by (simp add: PiecePeerMsg_Bytes_def Let_def)
  have small: "int (length b) \<le> 16640" using b(2) assms(4) by simp
  have "NewPeerMsgFromBuffer (Some b) = Ok (BuildPeerPieceMsg blk)"
    using wire.parse_enc [of "BuildPeerPieceMsg blk"] b(1) small m by simp
  moreover have "ParseRawPeerMsgLength (Some b) = Ok (int (length ?buff) + 13)"
    using wire.frame_len_whole [of "BuildPeerPieceMsg blk" b "[]"] b small m by simp
  moreover have "PiecePeerMsg_GetBlock ?p =
      Ok (NewBlock (uint (blk_Begin blk) div int (length ?buff)) (blk_PieceIdx blk) (blk_Begin blk)
            (word_of_nat (length ?buff)) ?buff)"
    using assms by (simp add: PiecePeerMsg_GetBlock_def piece_payload_fields go_div_def)
  ultimately show ?thesis using b m by simp
qed

theorem piece_roundtrip_witness:
  "\<exists>b. PeerMsg_Bytes (BuildPeerPieceMsg (NewBlock 4 1 12 3 [0x11, 0x22, 0x33])) = Ok b \<and>
    NewPeerMsgFromBuffer (Some b) = Ok (BuildPeerPieceMsg (NewBlock 4 1 12 3 [0x11, 0x22, 0x33])) \<and>
    ParseRawPeerMsgLength (Some b) = Ok 16"
  using piece_roundtrip [of "NewBlock 4 1 12 3 [0x11, 0x22, 0x33]"] by auto

section \<open>Arbitrary input\<close>

text \<open>
  (C15) Parsing is total on arbitrary bytes from the network: neither \<open>ParseRawPeerMsgLength\<close> nor \<open>NewPeerMsgFromBuffer\<close>
  panics on any buffer, nil included; an accepted length is between 4 and 16640 (never zero, so the reader makes
  progress), and it is 68 for a handshake.
\<close>

theorem parsing_total:
  "(case ParseRawPeerMsgLength buf of
      Ok n \<Rightarrow> 4 \<le> n \<and> n \<le> 16640 \<and> (if IsPeerHandshakeMsg buf then n = 68 else True)
    | Err e \<Rightarrow> e = ERR_PEER_LISTEN \<and> \<not> IsPeerHandshakeMsg buf
    | Panic p \<Rightarrow> False
    | Hang \<Rightarrow> False) \<and>
   returns (NewPeerMsgFromBuffer buf)"
  using ParseRawPeerMsgLength_cases [of buf] NewPeerMsgFromBuffer_returns [of buf] by auto

text \<open>
  REQUEST payloads: \<open>GetBlock\<close> of a payload shorter than twelve bytes is the error \<open>ERR_REQUESTPEERMSG\<close>; of a longer
  one it succeeds exactly when the length field is not zero. With a zero length field, which a remote peer is
  free to send, the division \<open>blockBegin / blockLength\<close> panics.
\<close>

theorem request_GetBlock_cases:
  "if length payload < 12 then RequestPeerMsg_GetBlock payload = Err ERR_REQUESTPEERMSG
   else \<exists>len. RequestPeerMsg_GetBlockLength payload = Ok len \<and>
     (if len = 0 then RequestPeerMsg_GetBlock payload = Panic DivideByZero
      else is_Ok (RequestPeerMsg_GetBlock payload))"
proof (cases "length payload < 12")
  case True
  then show ?thesis
    using u32_at_Ok [of 4 payload]
    by (cases "length payload < 8")
       (auto simp: RequestPeerMsg_GetBlock_def RequestPeerMsg_GetBlockBegin_def
         RequestPeerMsg_GetBlockLength_def u32_at_cases)
next
  case False
  then obtain i b l where "u32_at payload 0 = Ok i" "u32_at payload 4 = Ok b" "u32_at payload 8 = Ok l"
    using u32_at_Ok [of 0 payload] u32_at_Ok [of 4 payload] u32_at_Ok [of 8 payload] by auto
  with False show ?thesis
    by (simp add: RequestPeerMsg_GetBlock_def RequestPeerMsg_GetBlockBegin_def
        RequestPeerMsg_GetBlockLength_def RequestPeerMsg_GetPieceIdx_def u32_div_def)
qed

text \<open>
  PIECE payloads never panic: \<open>GetBlock\<close> succeeds exactly when the payload holds at least one byte of data
  after the two header fields, and is \<open>ERR_REQUESTPEERMSG\<close> otherwise. Neither \<open>make\<close> with a negative length
  nor the division by the length of the data can be reached.
\<close>

theorem piece_GetBlock_cases:
  "if length payload \<le> 8 then PiecePeerMsg_GetBlock payload = Err ERR_REQUESTPEERMSG
   else \<exists>b. PiecePeerMsg_GetBlock payload = Ok b \<and> blk_Buff b = drop 8 payload \<and>
          blk_Idx b = uint (blk_Begin b) div int (length payload - 8)"
proof (cases "length payload \<le> 8")
  case True
  then show ?thesis
    using u32_at_Ok [of 4 payload]
    by (cases "length payload = 8")
       (auto simp: PiecePeerMsg_GetBlock_def PiecePeerMsg_GetBlockBegin_def PiecePeerMsg_GetBlockBuff_def
         u32_at_cases make_bytes_def read_at_def)
next
  case False
  then obtain i b where ib: "u32_at payload 0 = Ok i" "u32_at payload 4 = Ok b"
    using u32_at_Ok [of 0 payload] u32_at_Ok [of 4 payload] by auto
  have "PiecePeerMsg_GetBlockBuff payload = Ok (drop 8 payload)"
    using False by (simp add: PiecePeerMsg_GetBlockBuff_def make_bytes_def read_at_def nat_diff_distrib)
  with False ib show ?thesis
    by (simp add: PiecePeerMsg_GetBlock_def PiecePeerMsg_GetBlockBegin_def
        PiecePeerMsg_GetPieceIdx_def go_div_def of_nat_diff)
qed

text \<open>
  HAVE payloads: \<open>GetPieceIdx\<close> returns the big-endian piece index of a built message, and panics with an index
  out of range on every payload shorter than four bytes, which the parser lets through.
\<close>

theorem have_GetPieceIdx_cases:
  "HavePeerMsg_GetPieceIdx (GetPayload (BuildPeerHaveMsg w)) = Ok (uint w) \<and>
   (is_panic (HavePeerMsg_GetPieceIdx payload) \<longleftrightarrow> length payload < 4) \<and>
   NewPeerMsgFromBuffer (Some [0, 0, 0, 1, PEERMSG_HAVE]) = Ok (HavePeerMsg [])"
proof (intro conjI)
  show "HavePeerMsg_GetPieceIdx (GetPayload (BuildPeerHaveMsg w)) = Ok (uint w)"
    by (simp add: HavePeerMsg_GetPieceIdx_def BuildPeerHaveMsg_def u32.dec_field)
  show "is_panic (HavePeerMsg_GetPieceIdx payload) \<longleftrightarrow> length payload < 4"
    using Uint32_total [of payload] Uint32_panic [of payload]
    by (cases "length payload < 4") (auto simp: HavePeerMsg_GetPieceIdx_def)
  have "NewPeerMsgFromBuffer (Some (PutUint32 1 @ [PEERMSG_HAVE])) = Ok (HavePeerMsg [])"
    by (subst parse_framed) (simp_all add: msg_of_id_def byte_simps)
  then show "NewPeerMsgFromBuffer (Some [0, 0, 0, 1, PEERMSG_HAVE]) = Ok (HavePeerMsg [])"
    by (simp add: PutUint32_small_consts)
qed

section \<open>Bitfields\<close>

text \<open>
  Reading a BITFIELD: \<open>GetPieceIndices(max)\<close> is the error \<open>ERR_PEERMSG_BUILD\<close> when \<open>max\<close> exceeds the number of bits; it
  returns the set bits up to \<open>max\<close>, increasing, when \<open>max\<close> is below it; and when \<open>max\<close> equals the number of bits the
  check lets it through and the read of bit \<open>max\<close> panics (the comparison is \<open>>\<close> where \<open>>=\<close> is needed).
\<close>

theorem GetPieceIndices_exact:
  "if mx > 8 * int (length payload) then BitfieldPeerMsg_GetPieceIndices payload mx = Err ERR_PEERMSG_BUILD
   else if mx = 8 * int (length payload) then is_panic (BitfieldPeerMsg_GetPieceIndices payload mx)
   else BitfieldPeerMsg_GetPieceIndices payload mx =
     Ok (filter (\<lambda>i. Bitfield_Has (NewBitfieldFromBytes payload) i = Ok True) [0..mx])"
proof -
  let ?f = "NewBitfieldFromBytes payload"
  have "filter (bit_at ?f) [0..mx] = filter (\<lambda>i. Bitfield_Has ?f i = Ok True) [0..mx]"
    if "mx < bf_cap ?f"
    using that by (intro filter_cong) (auto simp: Has_in_range)
  then show ?thesis
    using AsIntSlice_in_range [of mx ?f] AsIntSlice_out_of_range [of ?f mx]
    by (auto simp: GetPieceIndices_cases)
qed

lemma GetPieceIndices_at_cap:
  "mx = 8 * int (length payload) \<Longrightarrow> is_panic (BitfieldPeerMsg_GetPieceIndices payload mx)"
  using AsIntSlice_out_of_range [of "NewBitfieldFromBytes payload" mx] by (auto simp: GetPieceIndices_cases)

text \<open>Two bitfields with the same capacity and the same bits have the same bytes.\<close>

lemma bf_Bytes_ext:
  assumes "bf_cap f = bf_cap g" "\<And>i. 0 \<le> i \<Longrightarrow> i < bf_cap f \<Longrightarrow> bit_at f i \<longleftrightarrow> bit_at g i"
  shows "bf_Bytes f = bf_Bytes g"
proof (rule nth_equalityI)
  show len: "length (bf_Bytes f) = length (bf_Bytes g)" using assms(1) by (simp add: bf_cap_def)
  fix k assume k: "k < length (bf_Bytes f)"
  show "bf_Bytes f ! k = bf_Bytes g ! k"
  proof (rule bit_word_eqI)
    fix n assume "n < LENGTH(8)"
    then have n: "n < 8" by simp
    have "nat ((8 * int k + int n) div 8) = k" "nat ((8 * int k + int n) mod 8) = n" using n by simp_all
    moreover have "8 * int k + int n < bf_cap f" using k n by (simp add: bf_cap_def)
    ultimately show "bit (bf_Bytes f ! k) n \<longleftrightarrow> bit (bf_Bytes g ! k) n"
      using assms(2) [of "8 * int k + int n"] by (simp add: bit_at_def)
  qed
qed

lemma same_entries:
  assumes "sp_wf sp" "mset sp' = mset sp"
  shows "sp_wf sp' \<and> Get sp' = Get sp \<and> MaxPieceIdx sp' = MaxPieceIdx sp"
proof -
  have set: "set sp' = set sp" using assms(2) by (metis set_mset_mset)
  have "mset (map fst sp') = mset (map fst sp)" using assms(2) by simp
  then have "distinct (map fst sp')" using assms(1) by (metis sp_wf_def mset_eq_imp_distinct_iff)
  then have wf: "sp_wf sp'" using assms(1) set by (simp add: sp_wf_def)
  have "Get sp' i = Get sp i" for i
    using Get_in_set [OF wf, of i] Get_in_set [OF assms(1), of i] set by (metis not_None_eq)
  then show ?thesis using wf set by (auto simp: MaxPieceIdx_eq)
qed

text \<open>The bit count of the message, and the two outcomes of building it.\<close>

definition msg_cap :: "SafePieces \<Rightarrow> int" where
  "msg_cap sp = 8 * ((MaxPieceIdx sp + 7) div 8)"

lemma msg_cap_facts:
  "MaxPieceIdx sp \<le> msg_cap sp"
  "MaxPieceIdx sp mod 8 \<noteq> 0 \<Longrightarrow> MaxPieceIdx sp < msg_cap sp"
  "MaxPieceIdx sp mod 8 = 0 \<Longrightarrow> msg_cap sp = MaxPieceIdx sp"
  unfolding msg_cap_def by presburger+

lemma cap_fresh_msg: "bf_cap (fresh_bitfield (MaxPieceIdx sp)) = msg_cap sp"
  by (simp add: msg_cap_def)

lemma piece_idx_range:
  assumes "\<forall>i p. Get sp i = Some p \<longrightarrow> 0 \<le> i" "Get sp i = Some p"
  shows "0 \<le> i \<and> i \<le> MaxPieceIdx sp"
  using assms MaxPieceIdx_ge [of i sp] Get_Some_iff_key [of sp i] by auto

lemma build_bitfield_panic:
  assumes "sp_wf sp" "sp \<noteq> []" "Get sp (MaxPieceIdx sp) = Some p" "Downloaded p"
    and "msg_cap sp \<le> MaxPieceIdx sp"
  shows "is_panic (BuildPeerBitfieldMsg (Some sp))"
proof -
  have "MaxPieceIdx sp \<in> set (downloaded_idx sp)"
    using assms by (simp add: set_downloaded_idx)
  then have "is_panic (for_each (\<lambda>i bf. Bitfield_Set bf i) (downloaded_idx sp) (fresh_bitfield (MaxPieceIdx sp)))"
    using bf.add_all_panic assms(5) cap_fresh_msg by metis
  then show ?thesis
    using BuildPeerBitfieldMsg_eq [OF assms(2)] by (auto simp: is_panic_iff)
qed

lemma build_bitfield_ok:
  assumes "sp_wf sp" "sp \<noteq> []" "\<forall>i p. Get sp i = Some p \<longrightarrow> 0 \<le> i"
    and "\<And>p. Get sp (MaxPieceIdx sp) = Some p \<Longrightarrow> Downloaded p \<Longrightarrow> MaxPieceIdx sp < msg_cap sp"
  obtains bf where "BuildPeerBitfieldMsg (Some sp) = Ok (BitfieldPeerMsg (bf_Bytes bf))" "bf_cap bf = msg_cap sp"
    "\<And>i. 0 \<le> i \<Longrightarrow> i < msg_cap sp \<Longrightarrow> bit_at bf i \<longleftrightarrow> (\<exists>p. Get sp i = Some p \<and> Downloaded p)"
proof -
  let ?f = "fresh_bitfield (MaxPieceIdx sp)"
  note downloaded = set_downloaded_idx [OF assms(1)]
  have "\<forall>i \<in> set (downloaded_idx sp). 0 \<le> i \<and> i < bf_cap ?f"
  proof
    fix i assume "i \<in> set (downloaded_idx sp)"
    then obtain p where p: "Get sp i = Some p" "Downloaded p" using downloaded by auto
    then show "0 \<le> i \<and> i < bf_cap ?f"
      using piece_idx_range [OF assms(3) p(1)] assms(4) msg_cap_facts(1) [of sp]
      by (cases "i = MaxPieceIdx sp") (auto simp: cap_fresh_msg)
  qed
  from bf.add_all_ok [OF this] obtain bf where
    bf: "for_each (\<lambda>i bf. Bitfield_Set bf i) (downloaded_idx sp) ?f = Ok bf" "bf_cap bf = msg_cap sp"
      "\<And>j. 0 \<le> j \<Longrightarrow> j < msg_cap sp \<Longrightarrow> bit_at bf j \<longleftrightarrow> j \<in> set (downloaded_idx sp) \<or> bit_at ?f j"
    unfolding cap_fresh_msg by blast
  have "\<not> bit_at ?f j" if "0 \<le> j" "j < msg_cap sp" for j
    by (rule bit_at_fresh) (use that cap_fresh_msg in \<open>simp_all add: fresh_bitfield_def\<close>)
  with bf(3) downloaded have "bit_at bf j \<longleftrightarrow> (\<exists>p. Get sp j = Some p \<and> Downloaded p)"
    if "0 \<le> j" "j < msg_cap sp" for j using that by auto
  with bf show thesis
    using BuildPeerBitfieldMsg_eq [OF assms(2)] by (intro that [of bf]) auto
qed


text \<open>
  (C22) The bitfield is one bit short: when the largest piece index is a multiple of eight (a single-piece torrent,
  say), building the BITFIELD message panics if that piece is downloaded; if it is not, the message is built but
  every peer that reads it with the same largest index panics. The bit count should be \<open>MaxPieceIdx() + 1\<close>.
\<close>

theorem bitfield_off_by_one:
  assumes "sp_wf sp" "sp \<noteq> []" "\<forall>i p. Get sp i = Some p \<longrightarrow> 0 \<le> i" "MaxPieceIdx sp mod 8 = 0"
  shows "if \<exists>p. Get sp (MaxPieceIdx sp) = Some p \<and> Downloaded p
    then is_panic (BuildPeerBitfieldMsg (Some sp))
    else \<exists>payload. BuildPeerBitfieldMsg (Some sp) = Ok (BitfieldPeerMsg payload) \<and>
           is_panic (BitfieldPeerMsg_GetPieceIndices payload (MaxPieceIdx sp))"
proof (cases "\<exists>p. Get sp (MaxPieceIdx sp) = Some p \<and> Downloaded p")
  case True
  then show ?thesis
    using build_bitfield_panic [OF assms(1,2)] msg_cap_facts(3) [OF assms(4)] by auto
next
  case False
  then obtain bf where bf: "BuildPeerBitfieldMsg (Some sp) = Ok (BitfieldPeerMsg (bf_Bytes bf))"
      "bf_cap bf = msg_cap sp"
    using build_bitfield_ok [OF assms(1-3)] by blast
  then have "is_panic (BitfieldPeerMsg_GetPieceIndices (bf_Bytes bf) (MaxPieceIdx sp))"
    using msg_cap_facts(3) [OF assms(4)] by (intro GetPieceIndices_at_cap) (simp add: bf_cap_def)
  with False bf(1) show ?thesis by auto
qed

definition done_pieces :: "int list \<Rightarrow> SafePieces" where
  "done_pieces is = map (\<lambda>i. (i, NewPiece i 768 PIECESTATUS_DONE)) is"

lemma Get_done_pieces: "Get (done_pieces is) i = (if i \<in> set is then Some (NewPiece i 768 PIECESTATUS_DONE) else None)"
  by (induction "is") (auto simp: done_pieces_def Get_def)

lemma Get_done_pieces_nonneg:
  "\<forall>i \<in> set is. 0 \<le> i \<Longrightarrow> \<forall>i p. Get (done_pieces is) i = Some p \<longrightarrow> 0 \<le> i"
  by (auto simp: Get_done_pieces split: if_splits)

lemma sp_wf_done_pieces: "distinct is \<Longrightarrow> sp_wf (done_pieces is)"
  by (auto simp: sp_wf_def done_pieces_def NewPiece_def comp_def)

lemma MaxPieceIdx_done_pieces: "MaxPieceIdx (done_pieces is) = Max (insert 0 (set is))"
  by (simp add: MaxPieceIdx_eq done_pieces_def image_image)

lemma done_pieces_Nil [simp]: "done_pieces is = [] \<longleftrightarrow> is = []"
  by (simp add: done_pieces_def)

lemma set_Downloaded_done_pieces: "distinct is \<Longrightarrow> set (DownloadedPieceIndices (done_pieces is)) = set is"
  by (auto simp: set_DownloadedPieceIndices sp_wf_done_pieces status_at_def Get_done_pieces NewPiece_def)


theorem bitfield_off_by_one_witness:
  "is_panic (BuildPeerBitfieldMsg (Some (done_pieces [0])))"
  using bitfield_off_by_one [of "done_pieces [0]"]
  by (simp add: sp_wf_done_pieces MaxPieceIdx_done_pieces Get_done_pieces NewPiece_def Downloaded_def)

text \<open>
  (C23) The BITFIELD message does not depend on the order in which Go ranges over the map of pieces: any two
  orders of the same entries give the same bytes.
\<close>

theorem bitfield_order_independent:
  assumes "sp_wf sp" "sp \<noteq> []" "\<forall>i p. Get sp i = Some p \<longrightarrow> 0 \<le> i" "mset sp' = mset sp"
    and "BuildPeerBitfieldMsg (Some sp) = Ok m"
  shows "BuildPeerBitfieldMsg (Some sp') = Ok m"
proof -
  have wf: "sp_wf sp'" and get: "Get sp' = Get sp" and mx: "MaxPieceIdx sp' = MaxPieceIdx sp"
    using same_entries [OF assms(1,4)] by auto
  have fine: "MaxPieceIdx sp < msg_cap sp" if "Get sp (MaxPieceIdx sp) = Some p" "Downloaded p" for p
    using build_bitfield_panic [OF assms(1,2) that] assms(5) by (force simp: not_le [symmetric])
  obtain bf where bf: "BuildPeerBitfieldMsg (Some sp) = Ok (BitfieldPeerMsg (bf_Bytes bf))"
      "bf_cap bf = msg_cap sp"
      "\<And>i. 0 \<le> i \<Longrightarrow> i < msg_cap sp \<Longrightarrow> bit_at bf i \<longleftrightarrow> (\<exists>p. Get sp i = Some p \<and> Downloaded p)"
    using build_bitfield_ok [OF assms(1-3)] fine by blast
  then have m: "m = BitfieldPeerMsg (bf_Bytes bf)" using assms(5) by simp
  have cap: "msg_cap sp' = msg_cap sp" by (simp add: msg_cap_def mx)
  have ne: "sp' \<noteq> []" using assms(2,4) by auto
  have "MaxPieceIdx sp' < msg_cap sp'" if "Get sp' (MaxPieceIdx sp') = Some p" "Downloaded p" for p
    using fine that by (simp add: get mx cap)
  note fine' = this
  have nonneg: "\<forall>i p. Get sp' i = Some p \<longrightarrow> 0 \<le> i" using assms(3) get by simp
  obtain bf' where bf': "BuildPeerBitfieldMsg (Some sp') = Ok (BitfieldPeerMsg (bf_Bytes bf'))"
      "bf_cap bf' = msg_cap sp"
      "\<And>i. 0 \<le> i \<Longrightarrow> i < msg_cap sp \<Longrightarrow> bit_at bf' i \<longleftrightarrow> (\<exists>p. Get sp i = Some p \<and> Downloaded p)"
    using build_bitfield_ok [OF wf ne nonneg] fine' unfolding get cap by blast
  have "bf_Bytes bf' = bf_Bytes bf"
    by (rule bf_Bytes_ext) (use bf(2,3) bf'(2,3) in auto)
  with m bf'(1) show ?thesis by simp
qed

theorem bitfield_order_independent_witness:
  "BuildPeerBitfieldMsg (Some (done_pieces [3, 0, 2])) = BuildPeerBitfieldMsg (Some (done_pieces [2, 0, 3]))"
proof -
  have wf: "sp_wf (done_pieces [2, 0, 3])" by (rule sp_wf_done_pieces) simp
  have nonneg: "\<forall>i p. Get (done_pieces [2, 0, 3]) i = Some p \<longrightarrow> 0 \<le> i"
    by (rule Get_done_pieces_nonneg) simp
  have cap: "MaxPieceIdx (done_pieces [2, 0, 3]) < msg_cap (done_pieces [2, 0, 3])"
    by (simp add: MaxPieceIdx_done_pieces msg_cap_def)
  have ne: "done_pieces [2, 0, 3] \<noteq> []" by simp
  obtain payload where built: "BuildPeerBitfieldMsg (Some (done_pieces [2, 0, 3])) = Ok (BitfieldPeerMsg payload)"
    using build_bitfield_ok [OF wf ne nonneg] cap by blast
  moreover have "mset (done_pieces [3, 0, 2]) = mset (done_pieces [2, 0, 3])"
    by (simp add: done_pieces_def)
  ultimately show ?thesis
    using bitfield_order_independent [OF wf ne nonneg _ built] by metis
qed

end
