(* ===== verification/Files.thy ===== *)
theory Files
  imports Prelude "HOL-Library.AList" "HOL-Library.List_Lexorder" "HOL-Library.Char_ord"
    "HOL-Library.Product_Lexorder"
begin

text \<open>
  The part of \<^verbatim>\<open>os\<close>, \<^verbatim>\<open>io\<close>, \<^verbatim>\<open>path/filepath\<close>, \<^verbatim>\<open>sort\<close> and \<^verbatim>\<open>fmt\<close> that \<^verbatim>\<open>fileinfo/fileinfo.go\<close> uses: a file system of
  directories that hold files, and the file names \<open>block_%010d_%010d\<close>. A path is a directory and a name in it; the
  directories the program uses are absolute and clean (they come from \<open>MkdirTemp\<close> and \<open>Abs\<close>), so \<open>filepath.Join\<close> is
  concatenation with a slash. A predicate of type \<open>faults\<close> says which calls fail for reasons outside the model
  (permissions, a full disk); a theorem that holds for all of them covers every error path. Locale \<open>ordered_names\<close> is what
  the program expects of file names: their order as strings is the order of what they name.
\<close>

section \<open>Directories\<close>

datatype node = File bytes | SubDir

type_synonym fs = "(string \<times> (string \<times> node) list) list"

datatype os_call =
    CallReadDir string | CallMkdirAll string | CallAbs string string | CallOpen string string | CallCreate string string
  | CallWriteFile string string | CallSeek string string int | CallRead string string | CallCopy string string
  | CallRemove string string

type_synonym faults = "os_call \<Rightarrow> bool"

definition no_faults :: faults where "no_faults _ = False"

definition lookup :: "fs \<Rightarrow> string \<Rightarrow> string \<Rightarrow> node option" where
  "lookup fs dir name = (case map_of fs dir of None \<Rightarrow> None | Some entries \<Rightarrow> map_of entries name)"

definition put_node :: "string \<Rightarrow> string \<Rightarrow> node \<Rightarrow> fs \<Rightarrow> fs" where
  "put_node dir name nd fs = AList.map_entry dir (AList.update name nd) fs"

definition remove_node :: "string \<Rightarrow> string \<Rightarrow> fs \<Rightarrow> fs" where
  "remove_node dir name fs = AList.map_entry dir (AList.delete name) fs"

definition Join :: "string \<Rightarrow> string \<Rightarrow> string" where
  "Join dir name = dir @ ''/'' @ name"

text \<open>\<open>os.ReadDir\<close> returns the entries sorted by file name.\<close>

definition os_ReadDir :: "faults \<Rightarrow> string \<Rightarrow> (fs, string list) act" where
  "os_ReadDir flt dir fs = (fs,
     if flt (CallReadDir dir) then Err OsError
     else case map_of fs dir of None \<Rightarrow> Err OsError | Some entries \<Rightarrow> Ok (sort (map fst entries)))"

definition filepath_Abs :: "faults \<Rightarrow> string \<Rightarrow> string \<Rightarrow> (fs, unit) act" where
  "filepath_Abs flt dir name fs = (fs, if flt (CallAbs dir name) then Err OsError else Ok ())"

definition IsFile :: "fs \<Rightarrow> string \<Rightarrow> string \<Rightarrow> bool" where
  "IsFile fs dir name = (case lookup fs dir name of Some (File b) \<Rightarrow> True | _ \<Rightarrow> False)"

definition IsDirectory :: "fs \<Rightarrow> string \<Rightarrow> bool" where
  "IsDirectory fs dir \<longleftrightarrow> map_of fs dir \<noteq> None"

definition MkdirAllOrPanic :: "faults \<Rightarrow> string \<Rightarrow> (fs, unit) act" where
  "MkdirAllOrPanic flt dir fs =
     (if flt (CallMkdirAll dir) then (fs, Panic ExplicitPanic)
      else (if IsDirectory fs dir then fs else (dir, []) # fs, Ok ()))"

definition os_Open :: "faults \<Rightarrow> string \<Rightarrow> string \<Rightarrow> (fs, node) act" where
  "os_Open flt dir name fs = (fs,
     if flt (CallOpen dir name) then Err OsError
     else case lookup fs dir name of None \<Rightarrow> Err OsError | Some nd \<Rightarrow> Ok nd)"

text \<open>Creating a file, or truncating an old one; writing a file in one go.\<close>

definition writable :: "fs \<Rightarrow> string \<Rightarrow> string \<Rightarrow> bool" where
  "writable fs dir name \<longleftrightarrow> map_of fs dir \<noteq> None \<and> lookup fs dir name \<noteq> Some SubDir"

definition os_Create :: "faults \<Rightarrow> string \<Rightarrow> string \<Rightarrow> (fs, unit) act" where
  "os_Create flt dir name fs =
     (if flt (CallCreate dir name) \<or> \<not> writable fs dir name then (fs, Err OsError)
      else (put_node dir name (File []) fs, Ok ()))"

definition os_WriteFile :: "faults \<Rightarrow> string \<Rightarrow> string \<Rightarrow> bytes \<Rightarrow> (fs, unit) act" where
  "os_WriteFile flt dir name b fs =
     (if flt (CallWriteFile dir name) \<or> \<not> writable fs dir name then (fs, Err OsError)
      else (put_node dir name (File b) fs, Ok ()))"

text \<open>\<open>io.Copy\<close> appends all of an open file to the file being written; reading a directory is an error.\<close>

definition io_Copy :: "faults \<Rightarrow> string \<Rightarrow> string \<Rightarrow> node \<Rightarrow> (fs, unit) act" where
  "io_Copy flt dir name src fs =
     (if flt (CallCopy dir name) then (fs, Err OsError)
      else case src of
        SubDir \<Rightarrow> (fs, Err OsError)
      | File b \<Rightarrow> (case lookup fs dir name of
          Some (File old) \<Rightarrow> (put_node dir name (File (old @ b)) fs, Ok ())
        | _ \<Rightarrow> (fs, Ok ())))"

text \<open>The result of \<open>os.Remove\<close> is ignored by its caller.\<close>

definition os_Remove :: "faults \<Rightarrow> string \<Rightarrow> string \<Rightarrow> (fs, unit) act" where
  "os_Remove flt dir name fs = (if flt (CallRemove dir name) then fs else remove_node dir name fs, Ok ())"

text \<open>\<open>fd.Seek(off, 0)\<close> and then \<open>fd.Read(buff)\<close> into \<open>n\<close> fresh bytes: a short read leaves zeros and is no error.\<close>

definition seek_and_read :: "faults \<Rightarrow> string \<Rightarrow> string \<Rightarrow> node \<Rightarrow> int \<Rightarrow> nat \<Rightarrow> (fs, bytes) act" where
  "seek_and_read flt dir name nd off n fs = (fs,
     if flt (CallSeek dir name off) \<or> off < 0 then Err OsError
     else if flt (CallRead dir name) then Err OsError
     else case nd of
       SubDir \<Rightarrow> if n = 0 then Ok [] else Err OsError
     | File b \<Rightarrow>
         if n = 0 then Ok []
         else if int (length b) \<le> off then Err OsError
         else Ok (take n (drop (nat off) b) @ replicate (n - (length b - nat off)) 0))"

subsection \<open>Facts\<close>

lemma map_of_map_entry:
  "map_of (AList.map_entry k f xs) j = (if j = k then map_option f (map_of xs k) else map_of xs j)"
  by (induction xs) auto

lemma lookup_put [simp]:
  "lookup (put_node d n nd fs) d' n' =
     (if d' = d \<and> n' = n \<and> map_of fs d \<noteq> None then Some nd else lookup fs d' n')"
  by (auto simp: lookup_def put_node_def map_of_map_entry update_conv' split: option.splits)

lemma lookup_remove [simp]:
  "lookup (remove_node d n fs) d' n' = (if d' = d \<and> n' = n then None else lookup fs d' n')"
  by (auto simp: lookup_def remove_node_def map_of_map_entry delete_conv' split: option.splits)

lemma dir_put [simp]:
  "map_of (put_node d n nd fs) d' = (if d' = d then map_option (AList.update n nd) (map_of fs d) else map_of fs d')"
  by (simp add: put_node_def map_of_map_entry)

lemma dir_remove [simp]:
  "map_of (remove_node d n fs) d' = (if d' = d then map_option (AList.delete n) (map_of fs d) else map_of fs d')"
  by (simp add: remove_node_def map_of_map_entry)

section \<open>Names\<close>

definition digit_char :: "nat \<Rightarrow> char" where
  "digit_char d = char_of (48 + d)"

fun dec_digits :: "nat \<Rightarrow> string" where
  "dec_digits n = (if n < 10 then [digit_char n] else dec_digits (n div 10) @ [digit_char (n mod 10)])"

declare dec_digits.simps [simp del]

definition pad_zeros :: "nat \<Rightarrow> string \<Rightarrow> string" where
  "pad_zeros w s = replicate (w - length s) (CHR ''0'') @ s"

text \<open>The verb \<open>%010d\<close>: ten characters at least, the sign of a negative number before the zeros.\<close>

definition fmt_010d :: "int \<Rightarrow> string" where
  "fmt_010d i = (if i < 0 then CHR ''-'' # pad_zeros 9 (dec_digits (nat (- i))) else pad_zeros 10 (dec_digits (nat i)))"

definition block_name :: "int \<times> int \<Rightarrow> string" where
  "block_name = (\<lambda>(pieceIdx, blockIdx). ''block_'' @ fmt_010d pieceIdx @ ''_'' @ fmt_010d blockIdx)"

text \<open>The digits of a number at a fixed width.\<close>

fun fixed :: "nat \<Rightarrow> nat \<Rightarrow> string" where
  "fixed 0 n = []"
| "fixed (Suc w) n = fixed w (n div 10) @ [digit_char (n mod 10)]"

lemma length_fixed [simp]: "length (fixed w n) = w"
  by (induction w arbitrary: n) auto

lemma fixed_zero: "fixed w 0 = replicate w (CHR ''0'')"
proof (induction w)
  case (Suc w)
  have "digit_char 0 = CHR ''0''" by code_simp
  with Suc show ?case by (simp add: replicate_append_same)
qed simp

lemma pad_append: "pad_zeros (Suc w) (s @ [c]) = pad_zeros w s @ [c]"
  by (simp add: pad_zeros_def)

lemma pad_dec_digits: "0 < w \<Longrightarrow> n < 10 ^ w \<Longrightarrow> pad_zeros w (dec_digits n) = fixed w n"
proof (induction w arbitrary: n)
  case (Suc w)
  show ?case
  proof (cases "n < 10")
    case True
    then show ?thesis
      using pad_append [of w "[]" "digit_char n"]
      by (simp add: dec_digits.simps [of n] fixed_zero) (simp add: pad_zeros_def)
  next
    case False
    with Suc.prems have w: "0 < w" by (cases w) auto
    have "n div 10 < 10 ^ w" using Suc.prems(2) by (simp add: less_mult_imp_div_less mult.commute)
    with Suc.IH [OF w] False show ?thesis by (simp add: dec_digits.simps [of n] pad_append)
  qed
qed simp

lemma append_less_iff:
  fixes xs ys us vs :: "'a :: linorder list"
  assumes "length xs = length ys"
  shows "xs @ us < ys @ vs \<longleftrightarrow> xs < ys \<or> xs = ys \<and> us < vs"
  using assms by (induction xs ys rule: list_induct2) auto

lemma append_le_iff:
  fixes xs us vs :: "'a :: linorder list"
  shows "xs @ us \<le> xs @ vs \<longleftrightarrow> us \<le> vs"
  by (induction xs) auto

lemma digit_char_less: "a < 10 \<Longrightarrow> b < 10 \<Longrightarrow> digit_char a < digit_char b \<longleftrightarrow> a < b"
  by (simp add: digit_char_def less_char_def)

lemma ten_less: "r < 10 \<Longrightarrow> r' < 10 \<Longrightarrow> 10 * q + r < 10 * q' + r' \<longleftrightarrow> q < q' \<or> q = q' \<and> r < (r' :: nat)"
  by auto

lemma fixed_less_iff: "a < 10 ^ w \<Longrightarrow> b < 10 ^ w \<Longrightarrow> (fixed w a < fixed w b \<longleftrightarrow> a < b) \<and> (fixed w a = fixed w b \<longleftrightarrow> a = b)"
proof (induction w arbitrary: a b)
  case (Suc w)
  have ab: "a div 10 < 10 ^ w" "b div 10 < 10 ^ w"
    using Suc.prems by (simp_all add: less_mult_imp_div_less mult.commute)
  have dig: "digit_char (a mod 10) < digit_char (b mod 10) \<longleftrightarrow> a mod 10 < b mod 10"
    "digit_char (b mod 10) < digit_char (a mod 10) \<longleftrightarrow> b mod 10 < a mod 10"
    by (simp_all add: digit_char_less)
  then have eq: "digit_char (a mod 10) = digit_char (b mod 10) \<longleftrightarrow> a mod 10 = b mod 10"
    by (metis linorder_neq_iff)
  have less: "fixed (Suc w) a < fixed (Suc w) b \<longleftrightarrow> fixed w (a div 10) < fixed w (b div 10) \<or>
      fixed w (a div 10) = fixed w (b div 10) \<and> [digit_char (a mod 10)] < [digit_char (b mod 10)]"
    unfolding fixed.simps by (rule append_less_iff) simp
  have single: "[digit_char (a mod 10)] < [digit_char (b mod 10)] \<longleftrightarrow> a mod 10 < b mod 10"
    using dig by simp
  have same: "fixed (Suc w) a = fixed (Suc w) b \<longleftrightarrow> fixed w (a div 10) = fixed w (b div 10) \<and> a mod 10 = b mod 10"
    using eq by simp
  have split: "10 * (a div 10) + a mod 10 = a" "10 * (b div 10) + b mod 10 = b" by simp_all
  have "a < b \<longleftrightarrow> a div 10 < b div 10 \<or> a div 10 = b div 10 \<and> a mod 10 < b mod 10"
    using ten_less [of "a mod 10" "b mod 10" "a div 10" "b div 10"] unfolding split by simp
  moreover have "a = b \<longleftrightarrow> a div 10 = b div 10 \<and> a mod 10 = b mod 10"
    using split by metis
  ultimately show ?case using Suc.IH [OF ab] unfolding less single same by blast
qed simp

lemma fmt_010d_fixed: "0 \<le> i \<Longrightarrow> i < 10 ^ 10 \<Longrightarrow> fmt_010d i = fixed 10 (nat i)"
  by (simp add: fmt_010d_def pad_dec_digits)

subsection \<open>What the order of names is good for\<close>

locale ordered_names =
  fixes name :: "'k :: linorder \<Rightarrow> string" and valid :: "'k \<Rightarrow> bool"
  assumes name_less: "valid a \<Longrightarrow> valid b \<Longrightarrow> name a < name b \<longleftrightarrow> a < b"
begin

lemma name_le: "valid a \<Longrightarrow> valid b \<Longrightarrow> name a \<le> name b \<longleftrightarrow> a \<le> b"
  using name_less [of b a] by (simp add: not_less [symmetric])

lemma name_inj: "valid a \<Longrightarrow> valid b \<Longrightarrow> name a = name b \<longleftrightarrow> a = b"
  using name_le [of a b] name_le [of b a] by (metis order_antisym order_refl)

lemma insort_names:
  "valid k \<Longrightarrow> \<forall>j \<in> set ks. valid j \<Longrightarrow> insort (name k) (map name ks) = map name (insort k ks)"
  by (induction ks) (auto simp: name_le)

lemma sort_names: "\<forall>k \<in> set ks. valid k \<Longrightarrow> sort (map name ks) = map name (sort ks)"
  by (induction ks) (auto simp: insort_names)

end

definition valid_key :: "int \<times> int \<Rightarrow> bool" where
  "valid_key = (\<lambda>(pieceIdx, blockIdx). 0 \<le> pieceIdx \<and> pieceIdx < 10 ^ 10 \<and> 0 \<le> blockIdx \<and> blockIdx < 10 ^ 10)"

lemma block_name_less:
  assumes "valid_key a" "valid_key b"
  shows "block_name a < block_name b \<longleftrightarrow> a < b"
proof -
  obtain p i q j where ab: "a = (p, i)" "b = (q, j)" by (cases a; cases b)
  with assms have fmt: "fmt_010d p = fixed 10 (nat p)" "fmt_010d i = fixed 10 (nat i)"
      "fmt_010d q = fixed 10 (nat q)" "fmt_010d j = fixed 10 (nat j)"
    by (simp_all add: valid_key_def fmt_010d_fixed)
  have bounds: "nat p < 10 ^ 10" "nat i < 10 ^ 10" "nat q < 10 ^ 10" "nat j < 10 ^ 10"
    using assms ab by (simp_all add: valid_key_def nat_less_iff)
  have "block_name a < block_name b \<longleftrightarrow>
      fixed 10 (nat p) < fixed 10 (nat q) \<or> fixed 10 (nat p) = fixed 10 (nat q) \<and>
      fixed 10 (nat i) < fixed 10 (nat j)"
    unfolding ab block_name_def prod.case fmt
    using append_less_iff [of "fixed 10 (nat p)" "fixed 10 (nat q)"] by simp
  also have "\<dots> \<longleftrightarrow> p < q \<or> p = q \<and> i < j"
    using fixed_less_iff [OF bounds(1,3)] fixed_less_iff [OF bounds(2,4)] assms ab
    by (auto simp: valid_key_def)
  finally show ?thesis using ab by auto
qed

interpretation block_names: ordered_names block_name valid_key
  by unfold_locales (rule block_name_less)

text \<open>Sorting paths of one directory is sorting their names.\<close>

lemma Join_le: "Join d a \<le> Join d b \<longleftrightarrow> a \<le> b"
  unfolding Join_def append.assoc [symmetric] by (rule append_le_iff)

lemma insort_Join: "insort_key (Join d) x xs = insort x xs"
  by (induction xs) (auto simp: Join_le)

lemma sort_paths: "sort_key (Join d) xs = sort xs"
proof (induction xs)
  case (Cons x xs)
  then show ?case unfolding sort_key_simps by (simp add: insort_Join)
qed simp

end
