(* ===== verification/FileInfo.thy ===== *)
theory FileInfo
  imports SafePieces Files
begin

text \<open>
  \<^verbatim>\<open>fileinfo/fileinfo.go\<close>: the pieces and directories of one torrent; saving blocks as files, assembling
  them, and reading blocks back from the assembled file. Operations that touch the file system are actions
  on it; \<open>GetBlock\<close> and \<open>DefaultFinalizeFunc\<close> also change the \<open>FileInfo\<close>. The field \<open>FinalizeFunc\<close> is left out: the
  program only ever stores \<open>DefaultFinalizeFunc\<close> there, so the calls through it are calls of that function.
\<close>

section \<open>State\<close>

text \<open>The fields of \<open>metainfo.Info\<close> the program reads; of the files of a multi-file torrent, their lengths.\<close>

record Info =
  info_PieceLength :: int
  info_Pieces :: bytes
  info_Name :: string
  info_Length :: int
  info_Files :: "int list"

definition Info_IsDir :: "Info \<Rightarrow> bool" where
  "Info_IsDir info \<longleftrightarrow> length (info_Files info) \<noteq> 0"

record FileInfo =
  fi_DownloadedBlocksDir :: string
  fi_FinalDownloadDir :: string
  fi_IsSeeding :: bool
  fi_Pieces :: SafePieces
  fi_torrentInfo :: "Info option"

section \<open>NewFileInfo\<close>

definition cut_pieces :: "int \<Rightarrow> int \<Rightarrow> int \<Rightarrow> Info option \<Rightarrow> bool \<Rightarrow> SafePieces res" where
  "cut_pieces totalPieces pieceLength blockLength torrentInfo isSeeding =
     res_bind (for_each (\<lambda>pieceIdx pieces.
         res_bind (CalculateNewPiece pieceIdx pieceLength blockLength isSeeding) (\<lambda>p. Ok (Put p pieces)))
       [0..totalPieces - 2] NewSafePieces) (\<lambda>pieces.
     res_bind (case torrentInfo of None \<Rightarrow> Panic NilDereference | Some info \<Rightarrow> go_mod (info_Length info) pieceLength)
       (\<lambda>remainingLength.
     res_bind (if remainingLength \<noteq> 0
         then CalculateNewPiece (totalPieces - 1) remainingLength blockLength isSeeding
         else CalculateNewPiece (totalPieces - 1) pieceLength blockLength isSeeding) (\<lambda>p.
       SetAsLastPiece (Put p pieces) (totalPieces - 1))))"

definition NewFileInfo ::
    "faults \<Rightarrow> int \<Rightarrow> int \<Rightarrow> int \<Rightarrow> string \<Rightarrow> string \<Rightarrow> Info option \<Rightarrow> bool \<Rightarrow> (fs, FileInfo) act" where
  "NewFileInfo flt totalPieces pieceLength blockLength finalDownloadDir downloadedBlocksDir torrentInfo isSeeding =
     act_bind
       (if finalDownloadDir \<noteq> ''''
        then act_bind (\<lambda>fs. if \<not> IsDirectory fs finalDownloadDir then MkdirAllOrPanic flt finalDownloadDir fs
                            else (fs, Ok ())) (\<lambda>_.
             act_bind (filepath_Abs flt finalDownloadDir '''') (\<lambda>_. ret (Ok finalDownloadDir)))
        else ret (Ok '''')) (\<lambda>finalDownloadDir.
     act_bind (ret (cut_pieces totalPieces pieceLength blockLength torrentInfo isSeeding)) (\<lambda>pieces.
       ret (Ok \<lparr>fi_DownloadedBlocksDir = downloadedBlocksDir, fi_FinalDownloadDir = finalDownloadDir,
                fi_IsSeeding = isSeeding, fi_Pieces = pieces, fi_torrentInfo = torrentInfo\<rparr>)))"

section \<open>Reading a block\<close>

definition readFromDownloadedData_singlefilemode ::
    "faults \<Rightarrow> string \<Rightarrow> int \<Rightarrow> int \<Rightarrow> int \<Rightarrow> uint32 \<Rightarrow> uint32 \<Rightarrow> (fs, bytes) act" where
  "readFromDownloadedData_singlefilemode flt finalDownloadDir pieceIdx blockIdx blocksPerPieceCount blockBegin blockLength =
     act_bind (act_wrap ERR_FILEINFO_READ_DOWNLOADED_DATA (os_ReadDir flt finalDownloadDir)) (\<lambda>dirEntry.
       if length dirEntry \<noteq> 1 then ret (Err ERR_FILEINFO_READ_DOWNLOADED_DATA)
       else let name = dirEntry ! 0 in
         act_bind (act_wrap ERR_FILEINFO_READ_DOWNLOADED_DATA (os_Open flt finalDownloadDir name)) (\<lambda>fd.
           let seekLoc = i64 (i64 (pieceIdx * blocksPerPieceCount) + blockIdx);
               seekLoc = i64 (seekLoc * uint blockLength) in
           act_wrap ERR_FILEINFO_READ_DOWNLOADED_DATA
             (seek_and_read flt finalDownloadDir name fd seekLoc (unat blockLength))))"

definition readFromDownloadedData ::
    "faults \<Rightarrow> string \<Rightarrow> int \<Rightarrow> int \<Rightarrow> int \<Rightarrow> uint32 \<Rightarrow> uint32 \<Rightarrow> bool \<Rightarrow> (fs, bytes) act" where
  "readFromDownloadedData flt finalDownloadDir pieceIdx blockIdx blocksPerPieceCount blockBegin blockLength isDir =
     (if isDir then ret (Panic ExplicitPanic)
      else readFromDownloadedData_singlefilemode flt finalDownloadDir pieceIdx blockIdx blocksPerPieceCount
        blockBegin blockLength)"

text \<open>A write through the pointer to a block: slot \<open>slot\<close> of the piece stored under \<open>pieceIdx\<close>.\<close>

definition store_buff :: "int \<Rightarrow> int \<Rightarrow> bytes \<Rightarrow> FileInfo \<Rightarrow> FileInfo" where
  "store_buff pieceIdx slot buff self =
     (case Get (fi_Pieces self) pieceIdx of
       None \<Rightarrow> self
     | Some p \<Rightarrow> self\<lparr>fi_Pieces := AList.update pieceIdx
         (p\<lparr>piece_blocks := (piece_blocks p)[nat slot := (piece_blocks p ! nat slot)\<lparr>blk_Buff := buff\<rparr>]\<rparr>)
         (fi_Pieces self)\<rparr>)"

text \<open>The pair of results is \<open>None\<close> for the Go result \<open>(nil, nil)\<close>.\<close>

definition GetBlock :: "faults \<Rightarrow> int \<Rightarrow> uint32 \<Rightarrow> uint32 \<Rightarrow> bool \<Rightarrow> (FileInfo \<times> fs, Block option) act" where
  "GetBlock flt pieceIdx blockBegin blockLength isSeeding = (\<lambda>(self, fs).
     case Get (fi_Pieces self) pieceIdx of
       None \<Rightarrow> ((self, fs), Ok None)
     | Some p \<Rightarrow>
         act_bind (ret (block_slot p blockBegin blockLength)) (\<lambda>slot. case slot of
           None \<Rightarrow> ret (Ok None)
         | Some slot \<Rightarrow>
             act_bind (ret (slice_get (piece_blocks p) slot)) (\<lambda>b.
               if isSeeding then
                 act_bind (ret (case fi_torrentInfo self of None \<Rightarrow> Panic NilDereference | Some info \<Rightarrow> Ok (Info_IsDir info)))
                   (\<lambda>isDir (self, fs).
                     case readFromDownloadedData flt (fi_FinalDownloadDir self) (piece_idx p) (blk_Idx b) (BlockCount p)
                         (blk_Begin b) (blk_Length b) isDir fs of
                       (fs, Ok buff) \<Rightarrow> ((store_buff pieceIdx slot buff self, fs), Ok (Some (b\<lparr>blk_Buff := buff\<rparr>)))
                     | (fs, Err e) \<Rightarrow> ((store_buff pieceIdx slot [] self, fs), Err e)
                     | (fs, Panic p) \<Rightarrow> ((self, fs), Panic p)
                     | (fs, Hang) \<Rightarrow> ((self, fs), Hang))
               else ret (Ok (Some b)))) (self, fs))"

section \<open>Saving and assembling blocks\<close>

definition block_key :: "Block \<Rightarrow> int \<times> int" where
  "block_key b = (blk_PieceIdx b, blk_Idx b)"

definition SaveBlock :: "faults \<Rightarrow> FileInfo \<Rightarrow> Block \<Rightarrow> (fs, unit) act" where
  "SaveBlock flt self targetBlock =
     os_WriteFile flt (fi_DownloadedBlocksDir self) (block_name (block_key targetBlock)) (blk_Buff targetBlock)"

definition DeleteBlocksDir :: "FileInfo \<Rightarrow> fs \<Rightarrow> fs" where
  "DeleteBlocksDir self fs = AList.delete (fi_DownloadedBlocksDir self) fs"

definition DeleteFinalDownloadDir :: "FileInfo \<Rightarrow> fs \<Rightarrow> fs" where
  "DeleteFinalDownloadDir self fs = AList.delete (fi_FinalDownloadDir self) fs"

text \<open>
  The body of the loop that copies one chunk, and the whole function. The check \<open>HasPrefix(file.Name(), "block")\<close>
  only prints a warning: every entry of the directory becomes a chunk.
\<close>

definition append_chunk :: "faults \<Rightarrow> string \<Rightarrow> string \<Rightarrow> string \<Rightarrow> string \<Rightarrow> (fs, unit) act" where
  "append_chunk flt downloadedBlocksDir finalDownloadDir finalDownloadName chunk =
     act_bind (act_wrap ERR_FILEINFO_ASSEMBLE_BLOCKS (os_Open flt downloadedBlocksDir chunk)) (\<lambda>chunkFile.
     act_bind (act_wrap ERR_FILEINFO_ASSEMBLE_BLOCKS (io_Copy flt finalDownloadDir finalDownloadName chunkFile)) (\<lambda>_.
       os_Remove flt downloadedBlocksDir chunk))"

definition assembleBlocks_singlefilemode :: "faults \<Rightarrow> string \<Rightarrow> string \<Rightarrow> string \<Rightarrow> (fs, unit) act" where
  "assembleBlocks_singlefilemode flt downloadedBlocksDir finalDownloadDir finalDownloadName =
     act_bind (act_wrap ERR_FILEINFO_ASSEMBLE_BLOCKS (os_ReadDir flt downloadedBlocksDir)) (\<lambda>dirEntry.
     act_bind (act_wrap ERR_FILEINFO_ASSEMBLE_BLOCKS (filepath_Abs flt finalDownloadDir finalDownloadName)) (\<lambda>_ fs.
       if IsFile fs finalDownloadDir finalDownloadName then (fs, Err ERR_FILEINFO_ASSEMBLE_BLOCKS_ALREADY_EXISTS)
       else
         act_bind (act_wrap ERR_FILEINFO_ASSEMBLE_BLOCKS (os_Create flt finalDownloadDir finalDownloadName)) (\<lambda>_.
         act_bind (for_act (\<lambda>file. act_wrap ERR_FILEINFO_ASSEMBLE_BLOCKS (filepath_Abs flt downloadedBlocksDir file))
           dirEntry) (\<lambda>_.
         let sortedChunkPaths = sort_key (Join downloadedBlocksDir) dirEntry in
         for_act (append_chunk flt downloadedBlocksDir finalDownloadDir finalDownloadName) sortedChunkPaths)) fs))"

definition assembleBlocks :: "faults \<Rightarrow> string \<Rightarrow> string \<Rightarrow> string \<Rightarrow> bool \<Rightarrow> (fs, unit) act" where
  "assembleBlocks flt downloadedBlocksDir finalDownloadDir finalDownloadName isDir =
     (if isDir then ret (Panic ExplicitPanic)
      else assembleBlocks_singlefilemode flt downloadedBlocksDir finalDownloadDir finalDownloadName)"

definition DefaultFinalizeFunc :: "faults \<Rightarrow> (FileInfo \<times> fs, unit) act" where
  "DefaultFinalizeFunc flt = (\<lambda>(fileInfo, fs).
     case fi_torrentInfo fileInfo of
       None \<Rightarrow> ((fileInfo, fs), Panic NilDereference)
     | Some info \<Rightarrow>
         (case assembleBlocks flt (fi_DownloadedBlocksDir fileInfo) (fi_FinalDownloadDir fileInfo) (info_Name info)
             (Info_IsDir info) fs of
           (fs, Ok _) \<Rightarrow> ((fileInfo\<lparr>fi_IsSeeding := True\<rparr>, fs), Ok ())
         | (fs, Err e) \<Rightarrow>
             if e = ERR_FILEINFO_ASSEMBLE_BLOCKS_ALREADY_EXISTS then ((fileInfo\<lparr>fi_IsSeeding := True\<rparr>, fs), Ok ())
             else ((fileInfo, fs), Err e)
         | (fs, Panic p) \<Rightarrow> ((fileInfo, fs), Panic p)
         | (fs, Hang) \<Rightarrow> ((fileInfo, fs), Hang)))"

end
