(* ===== verification/FileInfo_Properties.thy ===== *)
theory FileInfo_Properties
  imports FileInfo
begin

text \<open>
  What \<^verbatim>\<open>fileinfo/fileinfo.go\<close> guarantees: the assembled file is the saved blocks in the order of their (piece, block)
  indices, whatever order they were saved in, which data it therefore holds, and where the code reads it back.
\<close>

section \<open>Saving\<close>

text \<open>What was saved last under each key.\<close>

definition saved :: "Block list \<Rightarrow> int \<times> int \<Rightarrow> bytes option" where
  "saved bs = map_of (rev (map (\<lambda>b. (block_key b, blk_Buff b)) bs))"

lemma saved_Nil [simp]: "saved [] k = None"
  by (simp add: saved_def)

lemma saved_snoc: "saved (bs @ [b]) k = (if k = block_key b then Some (blk_Buff b) else saved bs k)"
  by (simp add: saved_def)

lemma saved_dom: "(saved bs k = None) \<longleftrightarrow> k \<notin> block_key ` set bs"
  by (simp add: saved_def map_of_eq_None_iff image_image)

definition save_entry :: "Block \<Rightarrow> (string \<times> node) list \<Rightarrow> (string \<times> node) list" where
  "save_entry b = AList.update (block_name (block_key b)) (File (blk_Buff b))"

lemma map_of_save_entry [simp]:
  "map_of (save_entry b es) n = (if n = block_name (block_key b) then Some (File (blk_Buff b)) else map_of es n)"
  by (simp add: save_entry_def update_conv')

lemma keys_save_entry [simp]:
  "fst ` set (save_entry b es) = insert (block_name (block_key b)) (fst ` set es)"
  by (simp add: save_entry_def dom_map_of_conv_image_fst [symmetric] update_conv')

lemma distinct_save_entry: "distinct (map fst es) \<Longrightarrow> distinct (map fst (save_entry b es))"
  by (simp add: save_entry_def distinct_update)

lemma SaveBlock_step:
  assumes "map_of fs (fi_DownloadedBlocksDir self) = Some es" "map_of es (block_name (block_key b)) \<noteq> Some SubDir"
  shows "\<exists>fs'. SaveBlock no_faults self b fs = (fs', Ok ()) \<and>
    (\<forall>d. map_of fs' d = (if d = fi_DownloadedBlocksDir self then Some (save_entry b es) else map_of fs d))"
  using assms by (simp add: SaveBlock_def os_WriteFile_def writable_def lookup_def save_entry_def no_faults_def)

lemma save_entries:
  assumes "\<forall>b \<in> set bs. valid_key (block_key b)"
  shows "distinct (map fst (fold save_entry bs [])) \<and>
    fst ` set (fold save_entry bs []) = block_name ` block_key ` set bs \<and>
    (\<forall>k. valid_key k \<longrightarrow> map_of (fold save_entry bs []) (block_name k) = map_option File (saved bs k))"
  using assms
proof (induction bs rule: rev_induct)
  case (snoc b bs)
  let ?es = "fold save_entry bs []"
  have "map_of (save_entry b ?es) (block_name k) = map_option File (saved (bs @ [b]) k)" if "valid_key k" for k
    using snoc that block_names.name_inj [of k "block_key b"]
    by (simp add: saved_snoc del: split_paired_All)
  then show ?case using snoc distinct_save_entry by (simp del: split_paired_All)
qed simp

lemma save_entries_files: "\<forall>nd \<in> snd ` set (fold save_entry bs []). nd \<noteq> SubDir"
proof (induction bs rule: rev_induct)
  case (snoc b bs)
  have "set (save_entry b es) \<subseteq> insert (block_name (block_key b), File (blk_Buff b)) (set es)" for es
    unfolding save_entry_def by (rule set_update_subset)
  from this [of "fold save_entry bs []"] snoc show ?case by fastforce
qed simp

lemma save_all:
  assumes "map_of fs (fi_DownloadedBlocksDir self) = Some []" "\<forall>b \<in> set bs. valid_key (block_key b)"
  shows "\<exists>fs'. for_act (SaveBlock no_faults self) bs fs = (fs', Ok ()) \<and>
    (\<forall>d. map_of fs' d = (if d = fi_DownloadedBlocksDir self then Some (fold save_entry bs []) else map_of fs d))"
  using assms(2)
proof (induction bs rule: rev_induct)
  case Nil
  then show ?case using assms(1) by auto
next
  case (snoc b bs)
  then obtain fs1 where fs1: "for_act (SaveBlock no_faults self) bs fs = (fs1, Ok ())"
    "\<And>d. map_of fs1 d = (if d = fi_DownloadedBlocksDir self then Some (fold save_entry bs []) else map_of fs d)"
    by (auto simp del: split_paired_All)
  have "map_of (fold save_entry bs []) (block_name (block_key b)) \<noteq> Some SubDir"
  proof -
    have "map_of (fold save_entry bs []) (block_name (block_key b)) = map_option File (saved bs (block_key b))"
      using save_entries [of bs] snoc.prems by (simp del: split_paired_All)
    then show ?thesis by (cases "saved bs (block_key b)") simp_all
  qed
  then obtain fs2 where "SaveBlock no_faults self b fs1 = (fs2, Ok ())"
    "\<And>d. map_of fs2 d = (if d = fi_DownloadedBlocksDir self then Some (save_entry b (fold save_entry bs [])) else map_of fs1 d)"
    using SaveBlock_step [of fs1 self "fold save_entry bs []" b] fs1(2) by auto
  then show ?case using fs1 by (auto simp: for_act_append act_simps)
qed

section \<open>Assembling\<close>

lemma append_chunk_step:
  assumes "lookup fs d n = Some (File c)" "lookup fs f fin = Some (File old)"
  shows "append_chunk no_faults d f fin n fs = (remove_node d n (put_node f fin (File (old @ c)) fs), Ok ())"
proof -
  have "os_Open no_faults d n fs = (fs, Ok (File c))" using assms by (simp add: os_Open_def no_faults_def)
  moreover have "io_Copy no_faults f fin (File c) fs = (put_node f fin (File (old @ c)) fs, Ok ())"
    using assms by (simp add: io_Copy_def no_faults_def)
  ultimately show ?thesis by (simp add: append_chunk_def act_simps os_Remove_def no_faults_def)
qed

lemma lookup_Some_dir: "lookup fs d n = Some nd \<Longrightarrow> map_of fs d \<noteq> None"
  by (auto simp: lookup_def split: option.splits)

lemma append_chunks:
  assumes "distinct ns" "\<And>n. n \<in> set ns \<Longrightarrow> lookup fs d n = Some (File (c n))" "d \<noteq> f"
    and "lookup fs f fin = Some (File old)"
  shows "\<exists>fs'. for_act (append_chunk no_faults d f fin) ns fs = (fs', Ok ()) \<and>
    lookup fs' f fin = Some (File (old @ concat (map c ns))) \<and>
    map_of fs' d = map_option (\<lambda>es. fold AList.delete ns es) (map_of fs d)"
  using assms
proof (induction ns arbitrary: fs old)
  case Nil
  then show ?case by (cases "map_of fs d") auto
next
  case (Cons n ns)
  let ?fs = "remove_node d n (put_node f fin (File (old @ c n)) fs)"
  have "lookup ?fs f fin = Some (File (old @ c n))"
    using Cons.prems lookup_Some_dir by auto
  moreover have "\<And>m. m \<in> set ns \<Longrightarrow> lookup ?fs d m = Some (File (c m))"
    using Cons.prems by auto
  ultimately obtain fs' where "for_act (append_chunk no_faults d f fin) ns ?fs = (fs', Ok ())"
    "lookup fs' f fin = Some (File ((old @ c n) @ concat (map c ns)))"
    "map_of fs' d = map_option (\<lambda>es. fold AList.delete ns es) (map_of ?fs d)"
    using Cons.IH [of ?fs "old @ c n"] Cons.prems(1,3) by auto
  then show ?case
    using append_chunk_step [of fs d n "c n" f fin old] Cons.prems
    by (auto simp: act_simps option.map_comp comp_def)
qed

lemma delete_all: "fst ` set es \<subseteq> set ns \<Longrightarrow> fold AList.delete ns es = []"
proof (induction ns arbitrary: es)
  case (Cons n ns)
  have "fst ` set (AList.delete n es) \<subseteq> set ns"
    using Cons.prems by (auto simp: AList.delete_eq)
  then show ?case using Cons.IH by simp
qed auto

lemma sort_distinct_eq: "distinct xs \<Longrightarrow> distinct ys \<Longrightarrow> set xs = set ys \<Longrightarrow> sort xs = sort (ys :: 'a :: linorder list)"
  by (metis sorted_list_of_set_sort_remdups distinct_remdups_id)

text \<open>The keys of the saved blocks, in order, and the file that is assembled from them.\<close>

definition saved_keys :: "Block list \<Rightarrow> (int \<times> int) list" where
  "saved_keys bs = sort (remdups (map block_key bs))"

definition assembled :: "Block list \<Rightarrow> bytes" where
  "assembled bs = concat (map (\<lambda>k. the (saved bs k)) (saved_keys bs))"

text \<open>Whatever files the directory holds are chunks: all of them are appended, in the order of their names.\<close>

definition content :: "(string \<times> node) list \<Rightarrow> string \<Rightarrow> bytes" where
  "content es n = (case map_of es n of Some (File b) \<Rightarrow> b | _ \<Rightarrow> [])"

lemma assemble_files:
  assumes "map_of fs d = Some es" "distinct (map fst es)" "\<forall>nd \<in> snd ` set es. nd \<noteq> SubDir"
    and "map_of fs f \<noteq> None" "lookup fs f fin = None" "d \<noteq> f"
  shows "\<exists>fs'. assembleBlocks_singlefilemode no_faults d f fin fs = (fs', Ok ()) \<and>
    lookup fs' f fin = Some (File (concat (map (content es) (sort (map fst es))))) \<and> map_of fs' d = Some []"
proof -
  let ?fs = "put_node f fin (File []) fs" and ?names = "sort (map fst es)"
  have "lookup ?fs d n = Some (File (content es n))" if n: "n \<in> set ?names" for n
  proof -
    obtain nd where nd: "map_of es n = Some nd" using n weak_map_of_SomeI [of n _ es] by fastforce
    then have "nd \<in> snd ` set es" by (auto dest!: map_of_SomeD intro: image_eqI [of _ _ "(n, nd)"])
    then obtain b where "nd = File b" using assms(3) by (cases nd) auto
    then show ?thesis using nd assms(1,6) by (simp add: lookup_def content_def)
  qed
  moreover have "lookup ?fs f fin = Some (File [])" using assms(4) by simp
  moreover have "distinct ?names" using assms(2) by simp
  ultimately obtain fs' where fs': "for_act (append_chunk no_faults d f fin) ?names ?fs = (fs', Ok ())"
    "lookup fs' f fin = Some (File (concat (map (content es) ?names)))"
    "map_of fs' d = map_option (\<lambda>es. fold AList.delete ?names es) (map_of ?fs d)"
    using append_chunks [of ?names ?fs d "content es" f fin "[]"] assms(6) by auto
  have "os_ReadDir no_faults d fs = (fs, Ok ?names)" using assms(1) by (simp add: os_ReadDir_def no_faults_def)
  moreover have "os_Create no_faults f fin fs = (?fs, Ok ())"
    using assms(4,5) by (simp add: os_Create_def writable_def no_faults_def)
  moreover have "for_act (\<lambda>file. act_wrap ERR_FILEINFO_ASSEMBLE_BLOCKS (filepath_Abs no_faults d file)) ?names ?fs =
      (?fs, Ok ())"
    by (subst for_act_total [where g = "\<lambda>_. id"]) (auto simp: act_wrap_def filepath_Abs_def no_faults_def fold_id)
  ultimately have "assembleBlocks_singlefilemode no_faults d f fin fs = (fs', Ok ())"
    using fs'(1) assms(5)
    by (simp add: assembleBlocks_singlefilemode_def act_simps filepath_Abs_def IsFile_def sort_paths sorted_sort_id no_faults_def)
  then show ?thesis using fs' assms(1,6) delete_all [of es ?names] by simp
qed

lemma assemble_entries:
  assumes "map_of fs d = Some (fold save_entry bs [])" "\<forall>b \<in> set bs. valid_key (block_key b)"
    and "map_of fs f \<noteq> None" "lookup fs f fin = None" "d \<noteq> f"
  shows "\<exists>fs'. assembleBlocks_singlefilemode no_faults d f fin fs = (fs', Ok ()) \<and>
    lookup fs' f fin = Some (File (assembled bs)) \<and> map_of fs' d = Some []"
proof -
  let ?es = "fold save_entry bs []"
  note es = save_entries [OF assms(2)]
  have keys: "set (saved_keys bs) = block_key ` set bs" by (simp add: saved_keys_def)
  have valid: "\<forall>k \<in> set (remdups (map block_key bs)). valid_key k" using assms(2) by auto
  have c: "map_of ?es (block_name k) = Some (File (the (saved bs k)))" if "k \<in> set (saved_keys bs)" for k
    using es that assms(2) saved_dom [of bs k] keys
    by (cases "saved bs k") (auto simp del: split_paired_All map_of_eq_None_iff)
  have "distinct (map block_name (remdups (map block_key bs)))"
    using valid block_names.name_inj by (auto simp: distinct_map inj_on_def)
  then have "sort (map fst ?es) = sort (map block_name (remdups (map block_key bs)))"
    using es by (intro sort_distinct_eq) (auto simp: image_image)
  then have names: "sort (map fst ?es) = map block_name (saved_keys bs)"
    using block_names.sort_names [OF valid] by (simp add: saved_keys_def)
  have "concat (map (content ?es) (sort (map fst ?es))) = assembled bs"
    unfolding names assembled_def using c by (simp add: comp_def content_def cong: map_cong)
  moreover have "\<forall>nd \<in> snd ` set ?es. nd \<noteq> SubDir" by (rule save_entries_files)
  ultimately show ?thesis
    using assemble_files [OF assms(1) _ _ assms(3-5)] es by simp
qed

lemma finalize_assembled:
  assumes "\<forall>b \<in> set bs. valid_key (block_key b)" "fi_torrentInfo self = Some info" "info_Files info = []"
    and "map_of fs (fi_DownloadedBlocksDir self) = Some []" "map_of fs (fi_FinalDownloadDir self) \<noteq> None"
    and "lookup fs (fi_FinalDownloadDir self) (info_Name info) = None"
    and "fi_DownloadedBlocksDir self \<noteq> fi_FinalDownloadDir self"
  shows "\<exists>fs1 fs2. for_act (SaveBlock no_faults self) bs fs = (fs1, Ok ()) \<and>
    DefaultFinalizeFunc no_faults (self, fs1) = ((self\<lparr>fi_IsSeeding := True\<rparr>, fs2), Ok ()) \<and>
    lookup fs2 (fi_FinalDownloadDir self) (info_Name info) =
      Some (File (assembled bs)) \<and>
    map_of fs2 (fi_DownloadedBlocksDir self) = Some []"
proof -
  obtain fs1 where fs1: "for_act (SaveBlock no_faults self) bs fs = (fs1, Ok ())"
    "\<And>d. map_of fs1 d = (if d = fi_DownloadedBlocksDir self then Some (fold save_entry bs []) else map_of fs d)"
    using save_all [OF assms(4,1)] by blast
  have "lookup fs1 (fi_FinalDownloadDir self) (info_Name info) = None"
    using fs1(2) assms(6,7) by (simp add: lookup_def)
  then obtain fs2 where "assembleBlocks_singlefilemode no_faults (fi_DownloadedBlocksDir self)
      (fi_FinalDownloadDir self) (info_Name info) fs1 = (fs2, Ok ())"
    "lookup fs2 (fi_FinalDownloadDir self) (info_Name info) = Some (File (assembled bs))"
    "map_of fs2 (fi_DownloadedBlocksDir self) = Some []"
    using assemble_entries [of fs1 _ bs "fi_FinalDownloadDir self" "info_Name info"] fs1(2) assms by metis
  then show ?thesis
    using fs1(1) assms(2,3)
    by (simp add: DefaultFinalizeFunc_def assembleBlocks_def Info_IsDir_def)
qed

text \<open>
  The downloaded file does not depend on the order in which blocks arrive: saving any blocks (some of them several times)
  into an empty directory and then finalizing creates a file that holds, for each (piece, block) index that was
  saved, the bytes saved last, in increasing order of the indices; the block files are gone, and the torrent is
  seeding.
\<close>

theorem finalize_assembles:
  assumes "\<forall>b \<in> set bs. valid_key (block_key b)" "fi_torrentInfo self = Some info" "info_Files info = []"
    and "map_of fs (fi_DownloadedBlocksDir self) = Some []" "map_of fs (fi_FinalDownloadDir self) \<noteq> None"
    and "lookup fs (fi_FinalDownloadDir self) (info_Name info) = None"
    and "fi_DownloadedBlocksDir self \<noteq> fi_FinalDownloadDir self"
  shows "\<exists>fs1 fs2. for_act (SaveBlock no_faults self) bs fs = (fs1, Ok ()) \<and>
    DefaultFinalizeFunc no_faults (self, fs1) = ((self\<lparr>fi_IsSeeding := True\<rparr>, fs2), Ok ()) \<and>
    lookup fs2 (fi_FinalDownloadDir self) (info_Name info) =
      Some (File (concat (map (\<lambda>k. the (saved bs k)) (sort (remdups (map block_key bs)))))) \<and>
    map_of fs2 (fi_DownloadedBlocksDir self) = Some []"
  using finalize_assembled [OF assms] by (simp add: assembled_def saved_keys_def)

section \<open>What the file holds\<close>

text \<open>
  Block \<open>j\<close> of some data, when pieces have \<open>k\<close> blocks of \<open>bl\<close> bytes: it is block \<open>j mod k\<close> of piece \<open>j div k\<close>, and only the
  last one may be short.
\<close>

definition grid_key :: "nat \<Rightarrow> nat \<Rightarrow> int \<times> int" where
  "grid_key k j = (int (j div k), int (j mod k))"

definition block_of :: "bytes \<Rightarrow> nat \<Rightarrow> nat \<Rightarrow> Block \<Rightarrow> bool" where
  "block_of data k bl b \<longleftrightarrow> (\<exists>j < length data. block_key b = grid_key k j \<and> j * bl < length data \<and>
     blk_Buff b = take bl (drop (j * bl) data))"

lemma grid_key_less:
  assumes "0 < k"
  shows "grid_key k i < grid_key k j \<longleftrightarrow> i < j"
proof -
  have split: "k * (i div k) + i mod k = i" "k * (j div k) + j mod k = j" by simp_all
  have "i mod k < k" "j mod k < k" using assms by simp_all
  have "i < j" if "i div k < j div k" using that by (meson div_le_mono leD leI)
  moreover have "i div k \<le> j div k" if "i < j" using that by (simp add: div_le_mono)
  moreover have "i mod k < j mod k \<longleftrightarrow> i < j" if "i div k = j div k"
    using split that by (metis nat_add_left_cancel_less)
  ultimately show ?thesis unfolding grid_key_def less_prod_simp of_nat_less_iff of_nat_le_iff
    by (metis order_le_less)
qed

lemma grid_key_inj: "0 < k \<Longrightarrow> grid_key k i = grid_key k j \<longleftrightarrow> i = j"
  using grid_key_less [of k i j] grid_key_less [of k j i] by (metis less_irrefl linorder_neq_iff)

lemma concat_blocks: "concat (map (\<lambda>j. take bl (drop (j * bl) data)) [0..<n]) = take (n * bl) data"
proof (induction n)
  case (Suc n)
  have "take (n * bl) data @ take bl (drop (n * bl) data) = take (n * bl + bl) data"
    by (simp only: take_add)
  with Suc show ?case by (simp add: add.commute)
qed simp

lemma ceil_blocks:
  assumes "0 < bl" "0 < L"
  shows "j < (L + bl - 1) div bl \<longleftrightarrow> j * bl < (L :: nat)"
proof -
  have "j < (L + bl - 1) div bl \<longleftrightarrow> Suc j \<le> (L + bl - 1) div bl" by auto
  also have "\<dots> \<longleftrightarrow> Suc j * bl \<le> L + bl - 1" by (rule less_eq_div_iff_mult_less_eq [OF assms(1)])
  also have "\<dots> \<longleftrightarrow> j * bl < L" using assms by auto
  finally show ?thesis .
qed

lemma saved_block_of:
  assumes "0 < k" "\<forall>b \<in> set bs. block_of data k bl b" "grid_key k j \<in> block_key ` set bs"
  shows "saved bs (grid_key k j) = Some (take bl (drop (j * bl) data))"
  using assms(2,3)
proof (induction bs rule: rev_induct)
  case (snoc b bs)
  show ?case
  proof (cases "grid_key k j = block_key b")
    case True
    with snoc.prems(1) show ?thesis
      using grid_key_inj [OF assms(1)] by (auto simp: saved_snoc block_of_def)
  qed (use snoc in \<open>auto simp: saved_snoc\<close>)
qed simp

lemma saved_keys_grid:
  assumes "0 < k" "block_key ` set bs = grid_key k ` {0..<n}"
  shows "saved_keys bs = map (grid_key k) [0..<n]"
proof -
  have "sorted (map (grid_key k) [0..<n])"
    using grid_key_less [OF assms(1)] by (intro sorted_wrt_map [THEN iffD2] sorted_wrt_mono_rel [OF _ sorted_upt])
      (meson leD leI)
  moreover have "distinct (map (grid_key k) [0..<n])"
    using grid_key_inj [OF assms(1)] by (auto simp: distinct_map inj_on_def)
  ultimately have "sort (map (grid_key k) [0..<n]) = map (grid_key k) [0..<n]" "distinct (map (grid_key k) [0..<n])"
    by (simp_all add: sorted_sort_id)
  then show ?thesis
    unfolding saved_keys_def using assms(2) sort_distinct_eq [of "remdups (map block_key bs)" "map (grid_key k) [0..<n]"]
    by auto
qed

lemma assembled_data:
  assumes "0 < bl" "0 < k" "data \<noteq> []" "\<forall>b \<in> set bs. block_of data k bl b"
    and "\<forall>j. j * bl < length data \<longrightarrow> grid_key k j \<in> block_key ` set bs"
  shows "assembled bs = data"
proof -
  let ?n = "(length data + bl - 1) div bl"
  have n: "j < ?n \<longleftrightarrow> j * bl < length data" for j
    using assms(1,3) by (intro ceil_blocks) auto
  have keys: "block_key ` set bs = grid_key k ` {0..<?n}"
    using assms(4,5) n by (fastforce simp: block_of_def)
  have "assembled bs = concat (map (\<lambda>j. the (saved bs (grid_key k j))) [0..<?n])"
    by (simp add: assembled_def saved_keys_grid [OF assms(2) keys] comp_def)
  also have "\<dots> = concat (map (\<lambda>j. take bl (drop (j * bl) data)) [0..<?n])"
    using saved_block_of [OF assms(2,4)] assms(5) n by (intro arg_cong [of _ _ concat] map_cong) auto
  also have "\<dots> = take (?n * bl) data" by (rule concat_blocks)
  also have "\<dots> = data" using n [of ?n] by simp
  finally show ?thesis .
qed

text \<open>
  (C37) The download is the file: if the saved blocks are blocks of some data, in any order and with repetitions, and every block of it
  was saved, then finalizing creates a file that holds exactly this data. This needs the index of a block to be
  its position in its piece, and at most \<open>10 ^ 10\<close> pieces and blocks per piece (the width of the names).
\<close>

theorem download_reassembles:
  assumes "0 < bl" "0 < k" "data \<noteq> []" "length data \<le> 10 ^ 10"
    and "\<forall>b \<in> set bs. block_of data k bl b" "\<forall>j. j * bl < length data \<longrightarrow> grid_key k j \<in> block_key ` set bs"
    and "fi_torrentInfo self = Some info" "info_Files info = []"
    and "map_of fs (fi_DownloadedBlocksDir self) = Some []" "map_of fs (fi_FinalDownloadDir self) \<noteq> None"
    and "lookup fs (fi_FinalDownloadDir self) (info_Name info) = None"
    and "fi_DownloadedBlocksDir self \<noteq> fi_FinalDownloadDir self"
  shows "\<exists>fs1 fs2. for_act (SaveBlock no_faults self) bs fs = (fs1, Ok ()) \<and>
    DefaultFinalizeFunc no_faults (self, fs1) = ((self\<lparr>fi_IsSeeding := True\<rparr>, fs2), Ok ()) \<and>
    lookup fs2 (fi_FinalDownloadDir self) (info_Name info) = Some (File data)"
proof -
  have "valid_key (block_key b)" if b: "b \<in> set bs" for b
  proof -
    obtain j where j: "block_key b = grid_key k j" "j < length data" using assms(5) b by (auto simp: block_of_def)
    have "j div k \<le> j" "j mod k \<le> j" by simp_all
    then have "j div k < 10 ^ 10" "j mod k < 10 ^ 10" using j(2) assms(4) by linarith+
    with j(1) show ?thesis by (simp add: grid_key_def valid_key_def)
  qed
  then have "\<forall>b \<in> set bs. valid_key (block_key b)" by blast
  from finalize_assembled [OF this assms(7-12)] show ?thesis
    using assembled_data [OF assms(1,2,3,5,6)] by auto
qed

definition sample_info :: Info where
  "sample_info = \<lparr>info_PieceLength = 4, info_Pieces = [], info_Name = ''file'', info_Length = 5, info_Files = []\<rparr>"

definition sample_fileinfo :: FileInfo where
  "sample_fileinfo = \<lparr>fi_DownloadedBlocksDir = ''/tmp/blocks'', fi_FinalDownloadDir = ''/final'', fi_IsSeeding = False,
     fi_Pieces = [], fi_torrentInfo = Some sample_info\<rparr>"

definition sample_blocks :: "Block list" where
  "sample_blocks = [NewBlock 0 1 0 1 [5], NewBlock 1 0 2 2 [3, 4], NewBlock 0 0 0 2 [1, 2], NewBlock 1 0 2 2 [3, 4]]"

lemma sample_sel [simp]:
  "fi_torrentInfo sample_fileinfo = Some sample_info" "info_Files sample_info = []"
  "fi_DownloadedBlocksDir sample_fileinfo = ''/tmp/blocks''" "fi_FinalDownloadDir sample_fileinfo = ''/final''"
  "info_Name sample_info = ''file''" "info_Length sample_info = 5"
  by (simp_all add: sample_fileinfo_def sample_info_def)

theorem finalize_assembles_witness:
  "\<exists>fs1 fs2. for_act (SaveBlock no_faults sample_fileinfo) [NewBlock 0 1 0 1 [9], NewBlock 3 0 0 2 [7, 8]]
      [(''/tmp/blocks'', []), (''/final'', [])] = (fs1, Ok ()) \<and>
    DefaultFinalizeFunc no_faults (sample_fileinfo, fs1) = ((sample_fileinfo\<lparr>fi_IsSeeding := True\<rparr>, fs2), Ok ()) \<and>
    lookup fs2 ''/final'' ''file'' = Some (File [7, 8, 9])"
  using finalize_assembles [of "[NewBlock 0 1 0 1 [9], NewBlock 3 0 0 2 [7, 8]]" sample_fileinfo sample_info
      "[(''/tmp/blocks'', []), (''/final'', [])]"]
  by (auto simp: valid_key_def block_key_def lookup_def saved_def)

theorem download_reassembles_witness:
  "\<exists>fs1 fs2. for_act (SaveBlock no_faults sample_fileinfo) sample_blocks
      [(''/tmp/blocks'', []), (''/final'', [])] = (fs1, Ok ()) \<and>
    DefaultFinalizeFunc no_faults (sample_fileinfo, fs1) = ((sample_fileinfo\<lparr>fi_IsSeeding := True\<rparr>, fs2), Ok ()) \<and>
    lookup fs2 ''/final'' ''file'' = Some (File [1, 2, 3, 4, 5])"
proof -
  have small: "j = 0 \<or> j = 1 \<or> j = 2" if "j * 2 < (5 :: nat)" for j using that by presburger
  have "\<forall>b \<in> set sample_blocks. block_of [1, 2, 3, 4, 5] 2 2 b"
    by (auto simp: sample_blocks_def block_of_def grid_key_def block_key_def intro: exI [of _ 2] exI [of _ 1] exI [of _ 0])
  moreover have "\<forall>j. j * 2 < length [1, 2, 3, 4, 5 :: byte] \<longrightarrow> grid_key 2 j \<in> block_key ` set sample_blocks"
  proof (intro allI impI)
    fix j assume "j * 2 < length [1, 2, 3, 4, 5 :: byte]"
    then have "j = 0 \<or> j = 1 \<or> j = 2" using small [of j] by simp
    then show "grid_key 2 j \<in> block_key ` set sample_blocks"
      by (elim disjE) (simp_all add: sample_blocks_def grid_key_def block_key_def)
  qed
  ultimately show ?thesis
    using download_reassembles [of 2 2 "[1, 2, 3, 4, 5]" sample_blocks sample_fileinfo sample_info
        "[(''/tmp/blocks'', []), (''/final'', [])]"]
    by (auto simp: lookup_def)
qed

section \<open>The pieces of a torrent\<close>

definition last_length :: "int \<Rightarrow> int \<Rightarrow> int" where
  "last_length pl L = (if L mod pl \<noteq> 0 then L mod pl else pl)"

definition torrent_piece :: "int \<Rightarrow> int \<Rightarrow> int \<Rightarrow> int \<Rightarrow> bool \<Rightarrow> int \<Rightarrow> PieceImpl" where
  "torrent_piece n pl L bl seeding i =
     (let len = (if i = n - 1 then last_length pl L else pl) in
      \<lparr>piece_idx = i, piece_length = len, piece_blocks = mark_last (cut_blocks i len bl),
       piece_status = (if seeding then PIECESTATUS_DONE else PIECESTATUS_IDLE), piece_downloader = '''',
       piece_isLastPiece = (i = n - 1)\<rparr>)"

lemma last_length_pos:
  assumes "0 < pl"
  shows "0 < last_length pl L" "last_length pl L \<le> pl"
proof -
  have "0 \<le> L mod pl" "L mod pl \<le> pl" using assms by (simp_all add: less_imp_le)
  then show "0 < last_length pl L" "last_length pl L \<le> pl"
    using assms unfolding last_length_def by (metis order_le_less, metis order_refl)
qed

lemma Get_fold_Put:
  assumes "\<And>i. i \<in> set is \<Longrightarrow> piece_idx (f i) = i"
  shows "Get (fold (\<lambda>i. Put (f i)) is sp) j = (if j \<in> set is then Some (f j) else Get sp j)"
  using assms
proof (induction "is" arbitrary: sp)
  case (Cons i "is")
  then show ?case by (simp add: Put_def)
qed simp

lemma sp_wf_fold_Put: "sp_wf sp \<Longrightarrow> sp_wf (fold (\<lambda>i. Put (f i)) is sp)"
  by (induction "is" arbitrary: sp) (auto simp: sp_wf_Put)

lemma cut_pieces_Ok:
  assumes "0 < bl" "0 < pl" "1 \<le> n" "0 \<le> info_Length info"
  shows "\<exists>sp. cut_pieces n pl bl (Some info) seeding = Ok sp \<and> sp_wf sp \<and>
    (\<forall>i. Get sp i = (if 0 \<le> i \<and> i < n then Some (torrent_piece n pl (info_Length info) bl seeding i) else None))"
proof -
  let ?st = "if seeding then PIECESTATUS_DONE else PIECESTATUS_IDLE"
  let ?p = "\<lambda>i len. (NewPiece i len ?st)\<lparr>piece_blocks := mark_last (cut_blocks i len bl)\<rparr>"
  let ?last = "last_length pl (info_Length info)"
  define sp where "sp = fold (\<lambda>i. Put (?p i pl)) [0..n - 2] NewSafePieces"
  have loop: "for_each (\<lambda>i pieces. res_bind (CalculateNewPiece i pl bl seeding) (\<lambda>p. Ok (Put p pieces))) [0..n - 2] NewSafePieces
      = Ok sp"
    unfolding sp_def by (rule for_each_total) (simp add: CalculateNewPiece_eq [OF assms(1,2)])
  have get: "Get sp j = (if 0 \<le> j \<and> j \<le> n - 2 then Some (?p j pl) else None)" for j
    unfolding sp_def by (subst Get_fold_Put) (auto simp: NewPiece_def Get_def NewSafePieces_def)
  have wf: "sp_wf sp" unfolding sp_def by (intro sp_wf_fold_Put sp_wf_new)
  let ?sp = "Put (?p (n - 1) ?last) sp"
  have get': "Get ?sp j = (if j = n - 1 then Some (?p (n - 1) ?last) else Get sp j)" for j
    by (simp add: Put_def NewPiece_def)
  have len: "0 < ?last" by (rule last_length_pos [OF assms(2)])
  have rem: "go_mod (info_Length info) pl = Ok (info_Length info mod pl)"
    using assms by (simp add: go_mod_def)
  have last: "(if info_Length info mod pl \<noteq> 0 then CalculateNewPiece (n - 1) (info_Length info mod pl) bl seeding
      else CalculateNewPiece (n - 1) pl bl seeding) = Ok (?p (n - 1) ?last)"
    using CalculateNewPiece_eq [OF assms(1) len, of "n - 1" seeding] by (simp add: last_length_def split: if_splits)
  let ?res = "AList.update (n - 1) (SetPieceAsLast (?p (n - 1) ?last)) ?sp"
  have "cut_pieces n pl bl (Some info) seeding = SetAsLastPiece ?sp (n - 1)"
    unfolding cut_pieces_def loop rem last by (simp add: rem last)
  also have "\<dots> = Ok ?res"
    by (simp add: SetAsLastPiece_def on_piece_eq get')
  finally have eq: "cut_pieces n pl bl (Some info) seeding = Ok ?res" .
  have "sp_wf ?res"
    by (intro sp_wf_update sp_wf_Put wf) (simp add: NewPiece_def)
  moreover have "Get ?res i = (if 0 \<le> i \<and> i < n then Some (torrent_piece n pl (info_Length info) bl seeding i) else None)" for i
  proof -
    have "Get ?res i = (if i = n - 1 then Some (SetPieceAsLast (?p (n - 1) ?last))
        else if 0 \<le> i \<and> i \<le> n - 2 then Some (?p i pl) else None)"
      by (simp only: Get_update get' get if_True if_False split: if_split) simp
    then show ?thesis
      using assms(3) by (simp add: torrent_piece_def NewPiece_def SetPieceAsLast_def Let_def)
  qed
  ultimately show ?thesis using eq by blast
qed

lemma last_length_eq:
  assumes "0 < pl" "(n - 1) * pl < L" "L \<le> n * pl"
  shows "last_length pl L = L - (n - 1) * pl"
proof -
  define r where "r = L - (n - 1) * pl"
  have r: "0 < r" "r \<le> pl" using assms by (simp_all add: r_def algebra_simps)
  have "L mod pl = r mod pl" by (simp add: r_def mod_diff_eq [symmetric])
  then show ?thesis using r by (cases "r = pl") (auto simp: last_length_def r_def [symmetric])
qed

lemma NewFileInfo_Ok:
  assumes "cut_pieces n pl bl torrentInfo seeding = Ok sp"
  shows "\<exists>fs'. NewFileInfo no_faults n pl bl fdir bdir torrentInfo seeding fs = (fs',
      Ok \<lparr>fi_DownloadedBlocksDir = bdir, fi_FinalDownloadDir = fdir, fi_IsSeeding = seeding,
          fi_Pieces = sp, fi_torrentInfo = torrentInfo\<rparr>) \<and> (if fdir = '''' then fs' = fs else IsDirectory fs' fdir)"
  using assms
  by (cases "fdir = ''''"; cases "IsDirectory fs fdir")
     (auto simp: NewFileInfo_def act_bind_def ret_def filepath_Abs_def MkdirAllOrPanic_def IsDirectory_def no_faults_def)

text \<open>
  (C38) A new \<open>FileInfo\<close> partitions the torrent: for a torrent of \<open>n\<close> pieces whose length fits them, there is a piece under
  each index below \<open>n\<close> and no other, every piece has the torrent's piece length except the last one, which
  has what is left, their lengths add up to the length of the torrent, only the last is marked last, and the number of
  unfinished pieces is \<open>n\<close>, or zero when seeding. The download directory exists afterwards.
\<close>

theorem NewFileInfo_pieces:
  assumes "0 < bl" "0 < pl" "1 \<le> n" "(n - 1) * pl < info_Length info" "info_Length info \<le> n * pl"
  shows "\<exists>fs' self. NewFileInfo no_faults n pl bl fdir bdir (Some info) seeding fs = (fs', Ok self) \<and>
    sp_wf (fi_Pieces self) \<and>
    (\<forall>i. case Get (fi_Pieces self) i of
        None \<Rightarrow> \<not> (0 \<le> i \<and> i < n)
      | Some p \<Rightarrow> 0 \<le> i \<and> i < n \<and> piece_idx p = i \<and>
          piece_length p = (if i < n - 1 then pl else info_Length info - (n - 1) * pl) \<and>
          (piece_isLastPiece p \<longleftrightarrow> i = n - 1)) \<and>
    (\<Sum>i \<leftarrow> [0..n - 1]. piece_length (the (Get (fi_Pieces self) i))) = info_Length info \<and>
    TotalUndonePiecesLeft (fi_Pieces self) = (if seeding then 0 else n) \<and>
    (if fdir = '''' then fs' = fs else IsDirectory fs' fdir)"
proof -
  let ?L = "info_Length info"
  have "0 \<le> (n - 1) * pl" using assms(2,3) by simp
  then have L: "0 \<le> ?L" using assms(4) by linarith
  obtain sp where sp: "cut_pieces n pl bl (Some info) seeding = Ok sp" "sp_wf sp"
    "\<And>i. Get sp i = (if 0 \<le> i \<and> i < n then Some (torrent_piece n pl ?L bl seeding i) else None)"
    using cut_pieces_Ok [OF assms(1-3) L] by blast
  obtain fs' where fs': "NewFileInfo no_faults n pl bl fdir bdir (Some info) seeding fs = (fs',
      Ok \<lparr>fi_DownloadedBlocksDir = bdir, fi_FinalDownloadDir = fdir, fi_IsSeeding = seeding,
          fi_Pieces = sp, fi_torrentInfo = Some info\<rparr>)"
      "if fdir = '''' then fs' = fs else IsDirectory fs' fdir"
    using NewFileInfo_Ok [OF sp(1)] by blast
  have len: "piece_length (torrent_piece n pl ?L bl seeding i) = (if i = n - 1 then ?L - (n - 1) * pl else pl)" for i
    using last_length_eq [OF assms(2,4,5)] by (simp add: torrent_piece_def Let_def)
  have "[0..n - 1] = [0..n - 2] @ [n - 1]" using assms(3) upto_rec2 [of 0 "n - 1"] by simp
  moreover have "(\<Sum>i \<leftarrow> [0..n - 2]. piece_length (the (Get sp i))) = (\<Sum>i \<leftarrow> [0..n - 2]. pl)"
    by (intro arg_cong [of _ _ sum_list] map_cong) (auto simp: sp(3) len)
  ultimately have sum: "(\<Sum>i \<leftarrow> [0..n - 1]. piece_length (the (Get sp i))) = ?L"
    using assms(3) by (simp add: sum_list_triv sp(3) len)
  have "undone sp = (if seeding then {} else {0..n - 1})"
    by (auto simp: undone_def status_at_def sp(3) torrent_piece_def Let_def split: if_splits)
  then have "TotalUndonePiecesLeft sp = (if seeding then 0 else n)"
    using TotalUndone_card [OF sp(2)] assms(3) by simp
  then show ?thesis
    using fs' sp(2) sum assms(3) last_length_eq [OF assms(2,4,5)]
    by (intro exI [of _ fs'] exI conjI) (auto simp: sp(3) len torrent_piece_def Let_def)
qed

theorem NewFileInfo_pieces_witness:
  "\<exists>fs' self. NewFileInfo no_faults 4 37 5 ''/final'' ''/tmp/b'' (Some (sample_info\<lparr>info_Length := 113\<rparr>)) False [] = (fs', Ok self) \<and>
    TotalUndonePiecesLeft (fi_Pieces self) = 4 \<and> IsDirectory fs' ''/final''"
  using NewFileInfo_pieces [of 5 37 4 "sample_info\<lparr>info_Length := 113\<rparr>" "''/final''" "''/tmp/b''" False "[]"]
  by auto

section \<open>Seeding\<close>

lemma GetBlock_seeding:
  fixes off :: int
  assumes "fi_torrentInfo self = Some info" "info_Files info = []"
    and "map_of fs (fi_FinalDownloadDir self) = Some [(name, File data)]"
    and "Get (fi_Pieces self) i = Some p" "block_slot p begin len = Ok (Some s)" "0 \<le> s" "nat s < length (piece_blocks p)"
    and "b = piece_blocks p ! nat s" "0 < uint (blk_Length b)"
    and "off = (piece_idx p * BlockCount p + blk_Idx b) * uint (blk_Length b)"
    and "0 \<le> piece_idx p" "0 \<le> blk_Idx b" "off < int (length data)" "int (length data) < 2 ^ 63"
  defines "buff \<equiv> take (unat (blk_Length b)) (drop (nat off) data) @
    replicate (unat (blk_Length b) - (length data - nat off)) 0"
  shows "GetBlock no_faults i begin len True (self, fs) = ((store_buff i s buff self, fs), Ok (Some (b\<lparr>blk_Buff := buff\<rparr>)))"
proof -
  let ?c = "BlockCount p" and ?l = "uint (blk_Length b)"
  have c: "0 \<le> ?c" by (simp add: BlockCount_def)
  have "0 \<le> piece_idx p * ?c" using assms(11) c by simp
  then have pos: "0 \<le> piece_idx p * ?c" "piece_idx p * ?c \<le> piece_idx p * ?c + blk_Idx b" using assms(12) by auto
  then have "(piece_idx p * ?c + blk_Idx b) * 1 \<le> off"
    unfolding assms(10) using assms(9) by (intro mult_left_mono) auto
  then have "piece_idx p * ?c + blk_Idx b \<le> off" by simp
  then have bounds: "piece_idx p * ?c < 2 ^ 63" "piece_idx p * ?c + blk_Idx b < 2 ^ 63" "off < 2 ^ 63" "0 \<le> off"
    using pos assms(13,14) by linarith+
  have seek: "i64 (i64 (i64 (piece_idx p * ?c) + blk_Idx b) * ?l) = off"
  proof -
    have "i64 (piece_idx p * ?c) = piece_idx p * ?c" using bounds pos by (intro i64_id) linarith+
    moreover have "i64 (piece_idx p * ?c + blk_Idx b) = piece_idx p * ?c + blk_Idx b"
      using bounds pos by (intro i64_id) linarith+
    moreover have "i64 off = off" using bounds by (intro i64_id) linarith+
    ultimately show ?thesis using assms(10) by simp
  qed
  have n: "unat (blk_Length b) \<noteq> 0" using assms(9) by (auto simp: unat_eq_zero)
  have "seek_and_read no_faults (fi_FinalDownloadDir self) name (File data) off (unat (blk_Length b)) fs = (fs, Ok buff)"
    using bounds(4) n assms(13) by (simp add: seek_and_read_def no_faults_def buff_def)
  then have "readFromDownloadedData no_faults (fi_FinalDownloadDir self) (piece_idx p) (blk_Idx b) ?c
      (blk_Begin b) (blk_Length b) False fs = (fs, Ok buff)"
    using assms(3) seek
    by (simp add: readFromDownloadedData_def readFromDownloadedData_singlefilemode_def act_bind_def act_wrap_def
        os_ReadDir_def os_Open_def lookup_def no_faults_def Let_def)
  then show ?thesis
    using assms(1,2,4-8)
    by (simp add: GetBlock_def act_simps slice_get_def Info_IsDir_def)
qed

text \<open>The pieces of a torrent without short blocks, and where a seeding peer reads block \<open>j\<close> of piece \<open>i\<close>.\<close>

lemma seeding_offset:
  fixes i j :: int
  assumes "0 < bl" "0 < pl" "pl < 2 ^ 32" "1 \<le> n" "(n - 1) * pl < info_Length info" "info_Length info \<le> n * pl"
    and "bl dvd pl" "bl dvd info_Length info" "info_Length info < 2 ^ 63"
    and "cut_pieces n pl bl (Some info) seeding = Ok (fi_Pieces self)"
    and "fi_torrentInfo self = Some info" "info_Files info = []"
    and "map_of fs (fi_FinalDownloadDir self) = Some [(name, File data)]" "int (length data) = info_Length info"
    and "0 \<le> i" "i < n" "len = (if i = n - 1 then info_Length info - (n - 1) * pl else pl)"
    and "0 \<le> j" "j < len div bl"
  shows "\<exists>self' b. GetBlock no_faults i (word_of_int (j * bl)) (word_of_int bl) True (self, fs) = ((self', fs), Ok (Some b)) \<and>
    blk_Buff b = take (nat bl) (drop (nat ((i * (len div bl) + j) * bl)) data) \<and>
    (i * (len div bl) + j) * bl \<le> i * pl + j * bl \<and> i * pl + j * bl + bl \<le> info_Length info"
proof -
  let ?L = "info_Length info" and ?c = "len div bl"
  have "0 \<le> (n - 1) * pl" using assms(2,4) by simp
  then have L: "0 \<le> ?L" using assms(5) by linarith
  have ll: "len = (if i = n - 1 then last_length pl ?L else pl)"
    using last_length_eq [OF assms(2,5,6)] assms(17) by simp
  have len: "0 < len" "len \<le> pl" using last_length_pos [OF assms(2), of ?L] assms(2) unfolding ll by auto
  have dvd: "bl dvd len" using assms(7,8) unfolding assms(17) by simp
  define p where "p = torrent_piece n pl ?L bl seeding i"
  have get: "Get (fi_Pieces self) i = Some p"
    using cut_pieces_Ok [OF assms(1,2,4) L, of seeding] assms(10,15,16) by (auto simp: p_def)
  have p: "piece_blocks p = mark_last (cut_blocks i len bl)" "piece_idx p = i"
    by (simp_all add: p_def torrent_piece_def ll Let_def)
  have small: "len < 2 ^ 32" using len(2) assms(3) by simp
  note block = aligned_block [OF assms(1) len(1) small dvd assms(18,19) p(1)]
  define b where "b = piece_blocks p ! nat j"
  have count: "BlockCount p = ?c"
    using assms(1) len(1) dvd by (simp add: BlockCount_def p(1) length_cut_blocks)
  have cbl: "?c * bl = len" using dvd by simp
  have "(j + 1) * bl \<le> ?c * bl" using assms(1,19) by (intro mult_right_mono) auto
  then have jbl: "j * bl + bl \<le> len" "0 \<le> j * bl" using cbl assms(1,18) by (simp_all add: algebra_simps)
  have ilen: "i * len \<le> i * pl" "0 \<le> i * len" using len assms(15) by (simp_all add: mult_left_mono)
  have ipl: "i * pl + len \<le> ?L"
  proof (cases "i = n - 1")
    case False
    then have "(i + 1) * pl \<le> (n - 1) * pl" using assms(2,16) by (intro mult_right_mono) auto
    then show ?thesis using False assms(5,17) by (simp add: algebra_simps)
  qed (simp add: assms(17))
  have off: "(i * ?c + j) * bl = i * len + j * bl" using cbl by (simp add: distrib_right mult.assoc)
  have bl: "uint (blk_Length b) = bl" "blk_Idx b = j" "uint (blk_Begin b) = j * bl"
    using block by (simp_all add: b_def)
  have slot: "block_slot p (blk_Begin b) (blk_Length b) = Ok (Some j)" and inside: "nat j < length (piece_blocks p)"
    using block by (simp_all add: b_def)
  have args: "word_of_int (j * bl) = blk_Begin b" "word_of_int bl = blk_Length b"
    using bl by (metis word_of_int_uint)+
  have nb: "unat (blk_Length b) = nat bl" using bl(1) by (metis nat_uint_eq)
  have within: "(i * ?c + j) * bl + bl \<le> ?L" using off jbl ilen ipl by linarith
  let ?off = "(i * ?c + j) * bl"
  define buff where "buff = take (nat bl) (drop (nat ?off) data) @ replicate (nat bl - (length data - nat ?off)) 0"
  have no_pad: "nat bl - (length data - nat ?off) = 0"
    using within off jbl(2) ilen(2) assms(1,14) by simp
  have "GetBlock no_faults i (blk_Begin b) (blk_Length b) True (self, fs) =
      ((store_buff i j buff self, fs), Ok (Some (b\<lparr>blk_Buff := buff\<rparr>)))"
    unfolding buff_def nb [symmetric]
    by (rule GetBlock_seeding [OF assms(11,12,13) get slot assms(18) inside b_def])
       (use bl assms(1,9,14,15,18) within count p(2) in simp_all)
  then show ?thesis
    using args off ilen jbl ipl no_pad by (auto simp: buff_def)
qed


text \<open>
  The last piece is served from the wrong place: when the last piece has fewer blocks than the others (and is not
  the only piece), \<open>GetBlock\<close> computes the offset with the last piece's own block count, so what it returns as the bytes of
  its block \<open>j\<close> is a block of the file at a smaller offset than \<open>i * pieceLength + j * blockLength\<close>.
\<close>

theorem seeding_last_piece_wrong:
  fixes j :: int
  assumes "0 < bl" "0 < pl" "pl < 2 ^ 32" "2 \<le> n" "(n - 1) * pl < info_Length info" "info_Length info < n * pl"
    and "bl dvd pl" "bl dvd info_Length info" "info_Length info < 2 ^ 63"
    and "cut_pieces n pl bl (Some info) seeding = Ok (fi_Pieces self)"
    and "fi_torrentInfo self = Some info" "info_Files info = []"
    and "map_of fs (fi_FinalDownloadDir self) = Some [(name, File data)]" "int (length data) = info_Length info"
    and "ll = info_Length info - (n - 1) * pl" "0 \<le> j" "j < ll div bl"
  shows "\<exists>self' b off. GetBlock no_faults (n - 1) (word_of_int (j * bl)) (word_of_int bl) True (self, fs) =
      ((self', fs), Ok (Some b)) \<and>
    blk_Buff b = take (nat bl) (drop (nat off) data) \<and> 0 \<le> off \<and> off < (n - 1) * pl + j * bl"
proof -
  have n: "1 \<le> n" "0 \<le> n - 1" "n - 1 < n" "info_Length info \<le> n * pl" using assms(4,6) by auto
  have len: "ll = (if n - 1 = n - 1 then info_Length info - (n - 1) * pl else pl)" using assms(15) by simp
  have "bl dvd ll" unfolding assms(15) using assms(7,8) by simp
  then have off: "((n - 1) * (ll div bl) + j) * bl = (n - 1) * ll + j * bl"
    by (simp add: distrib_right mult.assoc)
  have "0 < ll" "ll < pl" using assms(5,6,15) by (simp_all add: algebra_simps)
  then have "(n - 1) * ll < (n - 1) * pl" "0 \<le> (n - 1) * ll" "0 \<le> j * bl"
    using assms(1,4,16) by simp_all
  then have "((n - 1) * (ll div bl) + j) * bl < (n - 1) * pl + j * bl" "0 \<le> ((n - 1) * (ll div bl) + j) * bl"
    unfolding off by linarith+
  then show ?thesis
    using seeding_offset [OF assms(1-3) n(1) assms(5) n(4) assms(7-14) n(2,3) len assms(16,17)] by metis
qed

definition six_info :: Info where
  "six_info = \<lparr>info_PieceLength = 4, info_Pieces = [], info_Name = ''file'', info_Length = 6, info_Files = []\<rparr>"

definition six_fileinfo :: "SafePieces \<Rightarrow> FileInfo" where
  "six_fileinfo pieces = \<lparr>fi_DownloadedBlocksDir = ''/tmp/blocks'', fi_FinalDownloadDir = ''/final'', fi_IsSeeding = True,
     fi_Pieces = pieces, fi_torrentInfo = Some six_info\<rparr>"

lemma six_sel [simp]:
  "info_Length six_info = 6" "info_Files six_info = []" "fi_Pieces (six_fileinfo sp) = sp"
  "fi_torrentInfo (six_fileinfo sp) = Some six_info" "fi_FinalDownloadDir (six_fileinfo sp) = ''/final''"
  by (simp_all add: six_info_def six_fileinfo_def)

lemma six_pieces: "\<exists>sp. cut_pieces 2 4 2 (Some six_info) True = Ok sp"
  using cut_pieces_Ok [of 2 4 2 six_info True] by auto


theorem seeding_last_piece_wrong_witness:
  "\<exists>sp self' b off. cut_pieces 2 4 2 (Some six_info) True = Ok sp \<and>
    GetBlock no_faults 1 0 2 True (six_fileinfo sp, [(''/final'', [(''file'', File [1, 2, 3, 4, 5, 6])])]) =
      ((self', [(''/final'', [(''file'', File [1, 2, 3, 4, 5, 6])])]), Ok (Some b)) \<and>
    blk_Buff b = take 2 (drop (nat off) [1, 2, 3, 4, 5, 6]) \<and> off < 4"
proof -
  obtain sp where sp: "cut_pieces 2 4 2 (Some six_info) True = Ok sp" using six_pieces by blast
  then show ?thesis
    using seeding_last_piece_wrong [of 2 4 2 six_info True "six_fileinfo sp"
        "[(''/final'', [(''file'', File [1, 2, 3, 4, 5, 6])])]" "''file''" "[1, 2, 3, 4, 5, 6]" 2 0] by auto
qed

section \<open>Finalizing again\<close>

text \<open>
  (C40) A failed assembly is taken for a finished one: when \<open>DefaultFinalizeFunc\<close> fails after it has created the output
  file, calling it again reports success, marks the torrent as seeding and leaves the incomplete file as it is,
  because an existing file counts as already assembled.
\<close>

theorem finalize_after_failure:
  assumes "DefaultFinalizeFunc flt (self, fs) = ((self1, fs1), Err e)"
    and "fi_torrentInfo self = Some info" "IsFile fs1 (fi_FinalDownloadDir self) (info_Name info)"
    and "map_of fs1 (fi_DownloadedBlocksDir self) \<noteq> None"
  shows "self1 = self \<and> DefaultFinalizeFunc no_faults (self1, fs1) = ((self\<lparr>fi_IsSeeding := True\<rparr>, fs1), Ok ())"
proof -
  have dir: "\<not> Info_IsDir info" and self: "self1 = self"
    using assms(1,2)
    by (auto simp: DefaultFinalizeFunc_def assembleBlocks_def ret_def split: res.splits prod.splits if_splits)
  have "assembleBlocks_singlefilemode no_faults (fi_DownloadedBlocksDir self) (fi_FinalDownloadDir self) (info_Name info) fs1 =
      (fs1, Err ERR_FILEINFO_ASSEMBLE_BLOCKS_ALREADY_EXISTS)"
    using assms(3,4)
    by (auto simp: assembleBlocks_singlefilemode_def act_bind_def act_wrap_def os_ReadDir_def filepath_Abs_def no_faults_def)
  then show ?thesis using dir self assms(2) by (simp add: DefaultFinalizeFunc_def assembleBlocks_def)
qed

definition two_chunks :: fs where
  "two_chunks = [(''/tmp/blocks'', [(''block_0000000000_0000000000'', File [1, 2]), (''block_0000000000_0000000001'', File [3])]),
     (''/final'', [])]"

definition second_unreadable :: faults where
  "second_unreadable c \<longleftrightarrow> c = CallOpen ''/tmp/blocks'' ''block_0000000000_0000000001''"

definition one_appended :: fs where
  "one_appended = [(''/tmp/blocks'', [(''block_0000000000_0000000001'', File [3])]), (''/final'', [(''file'', File [1, 2])])]"

lemma failing_run:
  "DefaultFinalizeFunc second_unreadable (sample_fileinfo, two_chunks) =
     ((sample_fileinfo, one_appended), Err ERR_FILEINFO_ASSEMBLE_BLOCKS)"
  by code_simp

theorem finalize_after_failure_witness:
  "DefaultFinalizeFunc no_faults (sample_fileinfo, one_appended) =
     ((sample_fileinfo\<lparr>fi_IsSeeding := True\<rparr>, one_appended), Ok ()) \<and>
   lookup one_appended ''/final'' ''file'' = Some (File [1, 2])"
  using finalize_after_failure [OF failing_run, of sample_info]
  by (simp add: one_appended_def IsFile_def lookup_def)

text \<open>
  Files that are not blocks become part of the download: whatever files the directory of blocks holds, with any names, all
  are appended to the output in the order of their names and removed; the warning "Ignoring non-block file" does not
  match what the loop does.
\<close>

theorem assemble_takes_every_file:
  assumes "map_of fs d = Some es" "distinct (map fst es)" "\<forall>nd \<in> snd ` set es. nd \<noteq> SubDir"
    and "map_of fs f \<noteq> None" "lookup fs f fin = None" "d \<noteq> f"
  shows "\<exists>fs'. assembleBlocks no_faults d f fin False fs = (fs', Ok ()) \<and>
    lookup fs' f fin = Some (File (concat (map (\<lambda>n. case map_of es n of Some (File b) \<Rightarrow> b | _ \<Rightarrow> []) (sort (map fst es))))) \<and>
    map_of fs' d = Some []"
  using assemble_files [OF assms] by (simp add: assembleBlocks_def content_def [abs_def])

theorem assemble_takes_every_file_witness:
  "\<exists>fs'. assembleBlocks no_faults ''/b'' ''/f'' ''out'' False
      [(''/b'', [(''block_0000000000_0000000000'', File [1, 2]), (''.DS_Store'', File [9])]), (''/f'', [])] = (fs', Ok ()) \<and>
    lookup fs' ''/f'' ''out'' = Some (File [9, 1, 2])"
proof -
  have order: "sort [''block_0000000000_0000000000'', ''.DS_Store''] = [''.DS_Store'', ''block_0000000000_0000000000'']"
    by code_simp
  show ?thesis
    using assemble_takes_every_file [of "[(''/b'', [(''block_0000000000_0000000000'', File [1, 2]), (''.DS_Store'', File [9])]), (''/f'', [])]"
        "''/b''" "[(''block_0000000000_0000000000'', File [1, 2]), (''.DS_Store'', File [9])]" "''/f''" "''out''"]
    by (auto simp: order lookup_def)
qed

end
