(* ===== verification/BlockRequester.thy ===== *)
theory BlockRequester
  imports FileInfo PeerMsg
begin

text \<open>
  \<^verbatim>\<open>peer/blockrequester.go\<close> and the state of a connection (\<open>PeerConnection\<close> in \<^verbatim>\<open>peer/peerconn.go\<close>): requesting a block,
  the goroutine that waits for it, and the count of blocks that are left.

  Pointers and channels that code shares are numbers into a store of the connection: \<open>pc_requesters\<close> holds every
  \<open>BlockRequester\<close> that was made for it (a goroutine keeps the one it was started with when the field is replaced), \<open>pc_chans\<close>
  every channel of type \<open>chan bool\<close>. \<open>pc_tasks\<close> are the goroutines that were started and have not run: sending
  the request for a block, and waiting for a block. A goroutine runs as one step; a handler of a message likewise.
  Data races between handlers are outside the model. \<open>pc_out\<close> is what was put into \<open>connWriterChan\<close>, \<open>pc_errs\<close> what
  was sent to \<open>errChan\<close>.
\<close>

section \<open>State\<close>

text \<open>A channel made by \<open>make(chan bool, 10)\<close>: how many values it buffers, and whether it is closed.\<close>

record bool_chan =
  ch_count :: nat
  ch_closed :: bool

text \<open>\<open>rq_locked\<close>: the mutex is held by a goroutine that blocks for ever. A full-piece channel is its capacity and its contents.\<close>

record Requester =
  rq_data :: "int \<rightharpoonup> nat"
  rq_fullPieceDownloadedChan :: "(nat \<times> int list) option"
  rq_locked :: bool
  rq_totalNumOfBlocks :: int
  rq_blocksLeft :: int

datatype task =
    RequestTask "nat option" Block
  | WaitTask nat Block nat

record PeerConn =
  pc_toPeerId :: string
  pc_toPeerDownloading :: bool
  pc_toPeerWeak :: bool
  pc_queue :: "int list"
  pc_misfires :: nat
  pc_requesters :: "Requester list"
  pc_blockRequester :: "nat option"
  pc_chans :: "bool_chan list"
  pc_out :: "PeerMsg list"
  pc_errs :: "go_error list"
  pc_closed :: bool
  pc_tasks :: "task list"

definition BlockRequestTotalAllowedMisfires :: nat where
  "BlockRequestTotalAllowedMisfires = 3"

section \<open>Operations\<close>

definition WritePeerMsg :: "PeerMsg \<Rightarrow> PeerConn \<Rightarrow> PeerConn" where
  "WritePeerMsg peerMsg self = self\<lparr>pc_out := pc_out self @ [peerMsg]\<rparr>"

definition send_err :: "go_error \<Rightarrow> PeerConn \<Rightarrow> PeerConn" where
  "send_err e self = self\<lparr>pc_errs := pc_errs self @ [e]\<rparr>"

text \<open>A call through a requester pointer; calling a method on nil panics at its first use of a field.\<close>

definition with_requester :: "nat option \<Rightarrow> (nat \<Rightarrow> Requester \<Rightarrow> (PeerConn, 'a) act) \<Rightarrow> (PeerConn, 'a) act" where
  "with_requester ptr f pc =
     (case ptr of
       None \<Rightarrow> (pc, Panic NilDereference)
     | Some r \<Rightarrow>
         if r < length (pc_requesters pc) then f r (pc_requesters pc ! r) pc else (pc, Panic NilDereference))"

definition set_requester :: "nat \<Rightarrow> Requester \<Rightarrow> PeerConn \<Rightarrow> PeerConn" where
  "set_requester r rq pc = pc\<lparr>pc_requesters := (pc_requesters pc)[r := rq]\<rparr>"

definition NewBlockRequester :: "int \<Rightarrow> (nat \<times> int list) option \<Rightarrow> Requester res" where
  "NewBlockRequester totalNumOfBlocks fullPieceDownloadedChan =
     (if fullPieceDownloadedChan \<noteq> None \<and> fst (the fullPieceDownloadedChan) = 0 then Panic ExplicitPanic
      else Ok \<lparr>rq_data = Map.empty, rq_fullPieceDownloadedChan = fullPieceDownloadedChan, rq_locked = False,
               rq_totalNumOfBlocks = totalNumOfBlocks, rq_blocksLeft = totalNumOfBlocks\<rparr>)"

text \<open>\<open>peerConn.blockRequester = NewBlockRequester(peerConn, n, DefaultWasBlockReceived, nil)\<close>\<close>

definition install_requester :: "int \<Rightarrow> (PeerConn, unit) act" where
  "install_requester totalNumOfBlocks pc =
     (case NewBlockRequester totalNumOfBlocks None of
       Ok rq \<Rightarrow> (pc\<lparr>pc_requesters := pc_requesters pc @ [rq], pc_blockRequester := Some (length (pc_requesters pc))\<rparr>, Ok ())
     | Err e \<Rightarrow> (pc, Err e) | Panic p \<Rightarrow> (pc, Panic p) | Hang \<Rightarrow> (pc, Hang))"

definition reset :: "nat option \<Rightarrow> (PeerConn, unit) act" where
  "reset ptr = with_requester ptr (\<lambda>r rq pc.
     (set_requester r (rq\<lparr>rq_blocksLeft := rq_totalNumOfBlocks rq\<rparr>) pc, Ok ()))"

text \<open>
  \<open>request\<close>: a new channel for the block's index, the REQUEST message, and a goroutine that waits on the channel.
\<close>

definition request :: "nat option \<Rightarrow> Block \<Rightarrow> (PeerConn, unit) act" where
  "request ptr targetBlock = with_requester ptr (\<lambda>r rq pc.
     if rq_locked rq then (pc, Hang)
     else
       let ch = length (pc_chans pc);
           pc = pc\<lparr>pc_chans := pc_chans pc @ [\<lparr>ch_count = 0, ch_closed = False\<rparr>]\<rparr>;
           pc = set_requester r (rq\<lparr>rq_data := (rq_data rq)(blk_Idx targetBlock \<mapsto> ch)\<rparr>) pc in
       case BuildPeerRequestMsg (Some targetBlock) of
         Ok requestPeerMsg \<Rightarrow>
           let pc = WritePeerMsg requestPeerMsg pc in
           (pc\<lparr>pc_tasks := pc_tasks pc @ [WaitTask r targetBlock ch]\<rparr>, Ok ())
       | Err e \<Rightarrow> (send_err e pc, Ok ())
       | Panic p \<Rightarrow> (pc, Panic p)
       | Hang \<Rightarrow> (pc, Hang))"

text \<open>What the waiting goroutine does when \<open>wasBlockReceivedFunc\<close> returned \<open>received\<close>.\<close>

definition MakeWeak :: "PeerConn \<Rightarrow> PeerConn" where
  "MakeWeak pc = pc\<lparr>pc_toPeerWeak := True\<rparr>"

definition after_wait :: "nat \<Rightarrow> Block \<Rightarrow> bool \<Rightarrow> (PeerConn, unit) act" where
  "after_wait r targetBlock received pc =
     (if received then (pc, Ok ())
      else
        let pc = pc\<lparr>pc_misfires := pc_misfires pc + 1\<rparr> in
        if pc_misfires pc > BlockRequestTotalAllowedMisfires then (MakeWeak pc, Ok ())
        else request (Some r) targetBlock pc)"

text \<open>
  \<open>DefaultWasBlockReceived\<close>: a value or the closing of the channel gives \<open>True\<close>, the timeout gives \<open>False\<close>; with a value
  ready long before the timeout, the result is \<open>True\<close>.
\<close>

definition DefaultWasBlockReceived :: "bool_chan \<Rightarrow> bool" where
  "DefaultWasBlockReceived misfireChan \<longleftrightarrow> ch_count misfireChan > 0 \<or> ch_closed misfireChan"

definition onBlockReceive :: "nat option \<Rightarrow> Block \<Rightarrow> (PeerConn, unit) act" where
  "onBlockReceive ptr targetBlock = with_requester ptr (\<lambda>r rq pc.
     if rq_locked rq then (pc, Hang)
     else
       let hang = (\<lambda>rq pc. (set_requester r (rq\<lparr>rq_locked := True\<rparr>) pc, Hang)) in
       case rq_data rq (blk_Idx targetBlock) of
         None \<Rightarrow> hang rq pc
       | Some ch \<Rightarrow>
           let c = pc_chans pc ! ch in
           if ch_closed c then (pc, Panic SendOnClosedChannel)
           else if ch_count c \<ge> 10 then hang rq pc
           else
             let pc = pc\<lparr>pc_chans := (pc_chans pc)[ch := \<lparr>ch_count = ch_count c + 1, ch_closed = True\<rparr>]\<rparr>;
                 rq = rq\<lparr>rq_blocksLeft := rq_blocksLeft rq - 1\<rparr> in
             if rq_blocksLeft rq = 0 then
               (case rq_fullPieceDownloadedChan rq of
                 None \<Rightarrow> (set_requester r rq pc, Ok ())
               | Some (cap, pieces) \<Rightarrow>
                   if length pieces < cap
                   then (set_requester r (rq\<lparr>rq_fullPieceDownloadedChan := Some (cap, pieces @ [blk_PieceIdx targetBlock])\<rparr>) pc,
                         Ok ())
                   else hang rq pc)
             else (set_requester r rq pc, Ok ()))"

definition BlocksLeft :: "nat option \<Rightarrow> (PeerConn, int) act" where
  "BlocksLeft ptr = with_requester ptr (\<lambda>r rq pc.
     if rq_locked rq then (pc, Hang) else (pc, Ok (rq_blocksLeft rq)))"

section \<open>The goroutines of a connection\<close>

text \<open>
  One goroutine runs: the \<open>n\<close>-th of those that were started. A waiting one goes on when its channel is ready, or
  when the timeout is reached first (\<open>timeout\<close>); otherwise it cannot run yet (\<open>None\<close>).
\<close>

definition run_task :: "nat \<Rightarrow> bool \<Rightarrow> PeerConn \<Rightarrow> (PeerConn \<times> unit res) option" where
  "run_task n timeout pc =
     (if n \<ge> length (pc_tasks pc) then None
      else
        let t = pc_tasks pc ! n; pc' = pc\<lparr>pc_tasks := take n (pc_tasks pc) @ drop (Suc n) (pc_tasks pc)\<rparr> in
        case t of
          RequestTask ptr b \<Rightarrow> if timeout then None else Some (request ptr b pc')
        | WaitTask r b ch \<Rightarrow>
            (let ready = DefaultWasBlockReceived (pc_chans pc ! ch) in
             if timeout = ready then None else Some (after_wait r b ready pc')))"

end
