(* ===== verification/Handlers.thy ===== *)
theory Handlers
  imports BlockRequester
begin

text \<open>
  \<^verbatim>\<open>peer/peermsghandlers.go\<close> and \<open>RequestNextPiece\<close> of \<^verbatim>\<open>peer/peerconn.go\<close>: what a peer does with each message it receives on
  a connection. The state of a handler is the client (\<open>peerConn.FromPeer\<close>: its pieces and files, shared by all its connections)
  and the connection. Log output is left out. The first argument of a handler is the set of file-system calls
  that fail.
\<close>

section \<open>State\<close>

record Client =
  cl_FileInfo :: FileInfo
  cl_fs :: fs
  cl_isDownloading :: bool

type_synonym 'a handler = "(Client \<times> PeerConn, 'a) act"

definition on_conn :: "(PeerConn, 'a) act \<Rightarrow> 'a handler" where
  "on_conn m = (\<lambda>(cl, pc). case m pc of (pc', r) \<Rightarrow> ((cl, pc'), r))"

definition on_files :: "(FileInfo \<times> fs, 'a) act \<Rightarrow> 'a handler" where
  "on_files m = (\<lambda>(cl, pc). case m (cl_FileInfo cl, cl_fs cl) of
     ((fi, fs), r) \<Rightarrow> ((cl\<lparr>cl_FileInfo := fi, cl_fs := fs\<rparr>, pc), r))"

abbreviation cl_pieces :: "Client \<Rightarrow> SafePieces" where
  "cl_pieces cl \<equiv> fi_Pieces (cl_FileInfo cl)"

definition set_pieces :: "SafePieces \<Rightarrow> Client \<Rightarrow> Client" where
  "set_pieces sp cl = cl\<lparr>cl_FileInfo := (cl_FileInfo cl)\<lparr>fi_Pieces := sp\<rparr>\<rparr>"

definition write_msg :: "PeerMsg \<Rightarrow> unit handler" where
  "write_msg m = on_conn (\<lambda>pc. (WritePeerMsg m pc, Ok ()))"

text \<open>\<open>FromPeer.MarkAsDownloading()\<close> and \<open>ToPeer.MarkAsDownloading()\<close>, or \<open>MarkAsNotDownloading\<close>.\<close>

definition mark_downloading :: "bool \<Rightarrow> Client \<times> PeerConn \<Rightarrow> Client \<times> PeerConn" where
  "mark_downloading d = (\<lambda>(cl, pc). (cl\<lparr>cl_isDownloading := d\<rparr>, pc\<lparr>pc_toPeerDownloading := d\<rparr>))"

section \<open>RequestNextPiece\<close>

text \<open>
  Every caller passes \<open>FromPeer.FileInfo.Pieces\<close>. The loop over the queue is \<open>reserve_first\<close>; one goroutine is
  started for each block of the piece that was reserved.
\<close>

definition RequestNextPiece :: "int handler" where
  "RequestNextPiece = (\<lambda>(cl, pc).
     if pc_queue pc = [] then (mark_downloading False (cl, pc), Ok 0)
     else (case reserve_first TryToReserve (pc_toPeerId pc) (pc_queue pc) (cl_pieces cl) of
         Ok (sp, None, queue) \<Rightarrow>
           (mark_downloading False (set_pieces sp cl, pc\<lparr>pc_queue := queue\<rparr>), Ok 0)
       | Ok (sp, Some dequeuedPieceIdx, queue) \<Rightarrow>
           (let (cl, pc) = mark_downloading True (set_pieces sp cl, pc\<lparr>pc_queue := queue\<rparr>) in
            case Get sp dequeuedPieceIdx of
              None \<Rightarrow> ((cl, pc), Panic NilDereference)
            | Some dequeuedPiece \<Rightarrow>
                ((cl, pc\<lparr>pc_tasks := pc_tasks pc @ map (RequestTask (pc_blockRequester pc)) (piece_blocks dequeuedPiece)\<rparr>),
                 Ok (BlockCount dequeuedPiece)))
       | Err e \<Rightarrow> ((cl, pc), Err e)
       | Panic p \<Rightarrow> ((cl, pc), Panic p)
       | Hang \<Rightarrow> ((cl, pc), Hang)))"

text \<open>\<open>NewBlockRequester(peerConn, Pieces.Get(pieceIdx).BlockCount(), ...)\<close>: calling a method on a nil piece panics.\<close>

definition start_requester :: "int \<Rightarrow> unit handler" where
  "start_requester pieceIdx = (\<lambda>(cl, pc).
     case Get (cl_pieces cl) pieceIdx of
       None \<Rightarrow> ((cl, pc), Panic NilDereference)
     | Some p \<Rightarrow> on_conn (install_requester (BlockCount p)) (cl, pc))"

definition ignore_result :: "int handler \<Rightarrow> unit handler" where
  "ignore_result m = act_bind m (\<lambda>_. ret (Ok ()))"

section \<open>Handlers\<close>

definition handlePeerHandshakeMessage :: "unit handler" where
  "handlePeerHandshakeMessage =
     act_bind (write_msg BuildPeerInterestedMsg) (\<lambda>_ (cl, pc).
       if length (DownloadedPieceIndices (cl_pieces cl)) = 0 then ((cl, pc), Ok ())
       else (case BuildPeerBitfieldMsg (Some (cl_pieces cl)) of
           Err e \<Rightarrow> ((cl, pc), Ok ())
         | Ok msg \<Rightarrow> write_msg msg (cl, pc)
         | Panic p \<Rightarrow> ((cl, pc), Panic p)
         | Hang \<Rightarrow> ((cl, pc), Hang)))"

definition handlePeerKeepAliveMessage :: "unit handler" where
  "handlePeerKeepAliveMessage = ret (Ok ())"

definition handlePeerRequestMessage :: "faults \<Rightarrow> bytes \<Rightarrow> unit handler" where
  "handlePeerRequestMessage flt payload =
     act_bind (ret (RequestPeerMsg_GetBlock payload)) (\<lambda>b (cl, pc).
       act_bind (on_files (GetBlock flt (blk_PieceIdx b) (blk_Begin b) (blk_Length b) (fi_IsSeeding (cl_FileInfo cl))))
         (\<lambda>fullBlock. case fullBlock of
             None \<Rightarrow> ret (Panic NilDereference)
           | Some fullBlock \<Rightarrow> write_msg (BuildPeerPieceMsg fullBlock)) (cl, pc))"

text \<open>
  The last block of a piece was received: the statements inside \<open>if peerConn.blockRequester.BlocksLeft() == 0\<close>.
\<close>

definition finish_piece :: "faults \<Rightarrow> nat option \<Rightarrow> int \<Rightarrow> unit handler" where
  "finish_piece flt blockRequester pieceIdx =
     act_bind (on_conn (reset blockRequester)) (\<lambda>_.
     act_bind (\<lambda>(cl, pc). case MarkAsDone (cl_pieces cl) pieceIdx of
         Ok sp \<Rightarrow> ((set_pieces sp cl, pc), Ok ())
       | Err e \<Rightarrow> ((cl, pc), Err e)
       | Panic p \<Rightarrow> ((cl, pc), Panic p)
       | Hang \<Rightarrow> ((cl, pc), Hang)) (\<lambda>_ (cl, pc).
       let piecesLeft = TotalUndonePiecesLeft (cl_pieces cl) in
       if piecesLeft \<noteq> 0 then ignore_result RequestNextPiece (cl, pc)
       else on_files (DefaultFinalizeFunc flt) (mark_downloading False (cl, pc))))"

definition handlePeerPieceMessage :: "faults \<Rightarrow> bytes \<Rightarrow> unit handler" where
  "handlePeerPieceMessage flt payload =
     act_bind (ret (PiecePeerMsg_GetBlock payload)) (\<lambda>b (cl, pc).
     act_bind (on_conn (onBlockReceive (pc_blockRequester pc) b)) (\<lambda>_ (cl, pc).
     act_bind (on_files (\<lambda>(fi, fs). case SaveBlock flt fi b fs of (fs', r) \<Rightarrow> ((fi, fs'), r))) (\<lambda>_ (cl, pc).
     act_bind (on_conn (BlocksLeft (pc_blockRequester pc))) (\<lambda>blocksLeft.
       if blocksLeft = 0 then finish_piece flt (pc_blockRequester pc) (blk_PieceIdx b)
       else ret (Ok ())) (cl, pc)) (cl, pc)) (cl, pc))"

definition handlePeerBitfieldMessage :: "bytes \<Rightarrow> unit handler" where
  "handlePeerBitfieldMessage payload = (\<lambda>(cl, pc).
     let wasQueueEmpty = (length (pc_queue pc) = 0) in
     act_bind (ret (BitfieldPeerMsg_GetPieceIndices payload (MaxPieceIdx (cl_pieces cl)))) (\<lambda>pieceIndices (cl, pc).
       if length pieceIndices = 0 then ((cl, pc), Ok ())
       else
         let pc = pc\<lparr>pc_queue := IntSliceUniqueMergeSlices (pc_queue pc) pieceIndices\<rparr> in
         if wasQueueEmpty then
           act_bind (ret (slice_get (pc_queue pc) 0)) (\<lambda>pieceIdx.
           act_bind (start_requester pieceIdx) (\<lambda>_.
             ignore_result RequestNextPiece)) (cl, pc)
         else ((cl, pc), Ok ())) (cl, pc))"

definition handlePeerHaveMessage :: "bytes \<Rightarrow> unit handler" where
  "handlePeerHaveMessage payload = (\<lambda>(cl, pc).
     let wasQueueEmpty = (length (pc_queue pc) = 0) in
     act_bind (ret (HavePeerMsg_GetPieceIdx payload)) (\<lambda>pieceIdx (cl, pc).
       if IntSliceHas (pc_queue pc) pieceIdx then ((cl, pc), Ok ())
       else
         let pc = pc\<lparr>pc_queue := pc_queue pc @ [pieceIdx]\<rparr> in
         if wasQueueEmpty then
           act_bind (start_requester pieceIdx) (\<lambda>_. ignore_result RequestNextPiece) (cl, pc)
         else ((cl, pc), Ok ())) (cl, pc))"

definition handlePeerInterestedMessage :: "unit handler" where
  "handlePeerInterestedMessage = write_msg BuildPeerUnchokedMsg"

definition handlePeerUnchokedMessage :: "unit handler" where
  "handlePeerUnchokedMessage = ret (Ok ())"

definition handlePeerChokedMessage :: "unit handler" where
  "handlePeerChokedMessage = on_conn (\<lambda>pc. (pc\<lparr>pc_closed := True\<rparr>, Ok ()))"

definition handlePeerNotInterestedMessage :: "unit handler" where
  "handlePeerNotInterestedMessage = on_conn (\<lambda>pc. (pc\<lparr>pc_closed := True\<rparr>, Ok ()))"

text \<open>\<open>DefaultPeerMsgFunc\<close>: the handler for the message's type; its error is sent to \<open>errChan\<close>.\<close>

definition handle :: "faults \<Rightarrow> PeerMsg \<Rightarrow> unit handler" where
  "handle flt peerMsg = (case peerMsg of
       HandshakePeerMsg p \<Rightarrow> handlePeerHandshakeMessage
     | KeepAlivePeerMsg p \<Rightarrow> handlePeerKeepAliveMessage
     | InterestedPeerMsg p \<Rightarrow> handlePeerInterestedMessage
     | NotInterestedPeerMsg p \<Rightarrow> handlePeerNotInterestedMessage
     | UnchokedPeerMsg p \<Rightarrow> handlePeerUnchokedMessage
     | ChokedPeerMsg p \<Rightarrow> handlePeerChokedMessage
     | HavePeerMsg p \<Rightarrow> handlePeerHaveMessage p
     | BitfieldPeerMsg p \<Rightarrow> handlePeerBitfieldMessage p
     | RequestPeerMsg p \<Rightarrow> handlePeerRequestMessage flt p
     | PiecePeerMsg p \<Rightarrow> handlePeerPieceMessage flt p)"

definition DefaultPeerMsgFunc :: "faults \<Rightarrow> PeerMsg \<Rightarrow> unit handler" where
  "DefaultPeerMsgFunc flt peerMsg s =
     (case handle flt peerMsg s of
       (s', Err e) \<Rightarrow> on_conn (\<lambda>pc. (send_err e pc, Ok ())) s'
     | (s', r) \<Rightarrow> (s', r))"

end
