(* ===== verification/Handlers_Invariants.thy ===== *)
theory Handlers_Invariants
  imports Handlers
begin

text \<open>
  What no message and no goroutine of a connection can undo: \<open>evolves\<close> relates a state to what it may become.
  Locale \<open>growing\<close> is the contract of such a relation (it can be composed step by step), and \<open>handler_steps\<close> what it has to
  admit so that everything the client does on a message respects it.
\<close>

section \<open>Steps that respect a preorder\<close>

definition advances :: "('s \<Rightarrow> 's \<Rightarrow> bool) \<Rightarrow> ('s, 'a) act \<Rightarrow> bool" where
  "advances R m \<longleftrightarrow> (\<forall>s. R s (fst (m s)))"

locale growing =
  fixes R :: "'s \<Rightarrow> 's \<Rightarrow> bool"
  assumes R_refl: "R s s" and R_trans: "R s t \<Longrightarrow> R t u \<Longrightarrow> R s u"
begin

lemma advances_ret [intro]: "advances R (ret r)"
  by (simp add: advances_def ret_def R_refl)

lemma advances_bind [intro]: "advances R m \<Longrightarrow> (\<And>a. advances R (f a)) \<Longrightarrow> advances R (act_bind m f)"
  unfolding advances_def
proof
  fix s
  assume m: "\<forall>s. R s (fst (m s))" and f: "\<And>a. \<forall>s. R s (fst (f a s))"
  obtain s' r where ms: "m s = (s', r)" by (cases "m s")
  then have "R s s'" using m by (metis fst_conv)
  then show "R s (fst (act_bind m f s))"
    using ms f R_trans [of s s'] by (cases r) (auto simp: act_bind_def)
qed

lemma advances_at: "advances R m \<Longrightarrow> R s (fst (m s))"
  by (simp add: advances_def)

lemma bind_at: "advances R m \<Longrightarrow> (\<And>a. advances R (f a)) \<Longrightarrow> R s (fst (act_bind m f s))"
  by (rule advances_at) blast

lemma advances_for_act: "(\<And>i. i \<in> set is \<Longrightarrow> advances R (f i)) \<Longrightarrow> advances R (for_act f is)"
proof (induction "is")
  case Nil
  then show ?case by (simp add: advances_def R_refl)
next
  case (Cons i "is")
  then have "advances R (act_bind (f i) (\<lambda>_. for_act f is))" by (intro advances_bind) auto
  then show ?case by (simp add: advances_def)
qed

end

section \<open>How the pieces evolve\<close>

text \<open>A block without its bytes, which is all of it that never changes.\<close>

definition shape :: "Block \<Rightarrow> Block" where
  "shape b = b\<lparr>blk_Buff := []\<rparr>"

definition piece_le :: "PieceImpl \<Rightarrow> PieceImpl \<Rightarrow> bool" where
  "piece_le p q \<longleftrightarrow> piece_status p \<le> piece_status q \<and> piece_idx q = piece_idx p \<and> piece_length q = piece_length p \<and>
     map shape (piece_blocks q) = map shape (piece_blocks p) \<and> piece_isLastPiece q = piece_isLastPiece p \<and>
     (piece_status p \<noteq> PIECESTATUS_IDLE \<longrightarrow> piece_downloader q = piece_downloader p)"

definition pieces_le :: "SafePieces \<Rightarrow> SafePieces \<Rightarrow> bool" where
  "pieces_le sp sp' \<longleftrightarrow> map fst sp' = map fst sp \<and> (sp_wf sp \<longrightarrow> sp_wf sp') \<and>
     (\<forall>i. rel_option piece_le (Get sp i) (Get sp' i))"

lemma piece_le_refl [simp]: "piece_le p p"
  by (simp add: piece_le_def)

lemma piece_le_trans: "piece_le p q \<Longrightarrow> piece_le q r \<Longrightarrow> piece_le p r"
proof -
  assume pq: "piece_le p q" and qr: "piece_le q r"
  have "piece_status q \<noteq> PIECESTATUS_IDLE" if "piece_status p \<noteq> PIECESTATUS_IDLE"
    using that pq by (auto simp: piece_le_def)
  with pq qr show ?thesis unfolding piece_le_def by (metis order_trans)
qed

lemma pieces_le_refl: "pieces_le sp sp"
  by (auto simp: pieces_le_def intro: option.rel_refl)

lemma pieces_le_trans: "pieces_le a b \<Longrightarrow> pieces_le b c \<Longrightarrow> pieces_le a c"
  unfolding pieces_le_def by (metis (no_types, lifting) option.rel_transp piece_le_trans transpE transpI)

lemma pieces_le_update:
  assumes "Get sp i = Some p" "piece_le p q"
  shows "pieces_le sp (AList.update i q sp)"
proof -
  have key: "i \<in> fst ` set sp" using assms(1) Get_Some_iff_key by blast
  have "sp_wf (AList.update i q sp)" if "sp_wf sp"
    using that assms sp_wf_idx [OF that assms(1)] by (intro sp_wf_update) (auto simp: piece_le_def)
  moreover have "rel_option piece_le (Get sp j) (Get (AList.update i q sp) j)" for j
    using assms by (auto intro: option.rel_refl)
  ultimately show ?thesis using keys_update_present [OF key] by (auto simp: pieces_le_def)
qed

lemma pieces_le_TryToReserve: "TryToReserve sp i d = Ok (sp', ok) \<Longrightarrow> pieces_le sp sp'"
  by (auto simp: TryToReserve_def on_piece_eq pieces_le_refl split: option.splits if_splits
      intro!: pieces_le_update simp: piece_le_def SetStatus_def SetDownloader_def)

lemma pieces_le_MarkAsDone: "MarkAsDone sp i = Ok sp' \<Longrightarrow> pieces_le sp sp'"
  by (auto simp: MarkAsDone_def on_piece_eq split: option.splits intro!: pieces_le_update
      simp: piece_le_def SetStatus_def)

lemma pieces_le_reserve_first: "reserve_first TryToReserve d q sp = Ok (sp', r, q') \<Longrightarrow> pieces_le sp sp'"
proof (induction q arbitrary: sp)
  case (Cons i q)
  then obtain sp1 ok where step: "TryToReserve sp i d = Ok (sp1, ok)"
    "(if ok then Ok (sp1, Some i, q) else reserve_first TryToReserve d q sp1) = Ok (sp', r, q')"
    by (auto simp: res_bind_eq_Ok)
  then show ?case
    using Cons.IH [of sp1] pieces_le_TryToReserve [OF step(1)]
    by (auto split: if_splits intro: pieces_le_trans)
qed (simp add: pieces_le_refl)

lemma pieces_le_store_buff: "pieces_le (fi_Pieces self) (fi_Pieces (store_buff i slot buff self))"
proof -
  have "map shape (bs[k := (bs ! k)\<lparr>blk_Buff := buff\<rparr>]) = map shape bs" for bs k
    by (cases "k < length bs") (auto simp: map_update shape_def list_update_same_conv list_update_beyond)
  then show ?thesis
    by (auto simp: store_buff_def pieces_le_refl split: option.splits intro!: pieces_le_update simp: piece_le_def)
qed

text \<open>The queue that \<open>reserve_first\<close> leaves is a suffix of the one it started with.\<close>

lemma reserve_first_suffix: "reserve_first f d q sp = Ok (sp', r, q') \<Longrightarrow> \<exists>pre. q = pre @ q'"
proof (induction q arbitrary: sp)
  case (Cons i q)
  then obtain sp1 ok where step: "f sp i d = Ok (sp1, ok)"
    "(if ok then Ok (sp1, Some i, q) else reserve_first f d q sp1) = Ok (sp', r, q')"
    by (auto simp: res_bind_eq_Ok)
  show ?case
  proof (cases ok)
    case True
    with step show ?thesis by (intro exI [of _ "[i]"]) simp
  next
    case False
    with step obtain pre where "q = pre @ q'" using Cons.IH [of sp1] by auto
    then show ?thesis by (intro exI [of _ "i # pre"]) simp
  qed
qed simp

section \<open>How a connection evolves\<close>

definition prefix_of :: "'a list \<Rightarrow> 'a list \<Rightarrow> bool" where
  "prefix_of xs ys \<longleftrightarrow> (\<exists>zs. ys = xs @ zs)"

lemma prefix_of_refl [simp]: "prefix_of xs xs" and prefix_of_append [simp]: "prefix_of xs (xs @ ys)"
  by (auto simp: prefix_of_def)

lemma prefix_of_trans: "prefix_of xs ys \<Longrightarrow> prefix_of ys zs \<Longrightarrow> prefix_of xs zs"
  by (auto simp: prefix_of_def)

definition conn_le :: "PeerConn \<Rightarrow> PeerConn \<Rightarrow> bool" where
  "conn_le pc pc' \<longleftrightarrow> pc_toPeerId pc' = pc_toPeerId pc \<and> (distinct (pc_queue pc) \<longrightarrow> distinct (pc_queue pc')) \<and>
     prefix_of (pc_out pc) (pc_out pc') \<and> prefix_of (pc_errs pc) (pc_errs pc') \<and>
     length (pc_requesters pc) \<le> length (pc_requesters pc') \<and> length (pc_chans pc) \<le> length (pc_chans pc') \<and>
     pc_misfires pc \<le> pc_misfires pc' \<and> (pc_closed pc \<longrightarrow> pc_closed pc') \<and> (pc_toPeerWeak pc \<longrightarrow> pc_toPeerWeak pc')"

text \<open>
  The blocks whose goroutines wait to run on a connection, the pieces that REQUEST messages sent on it ask for, and a block that
  the connection's peer has reserved.
\<close>

fun task_block :: "task \<Rightarrow> Block" where
  "task_block (RequestTask ptr b) = b"
| "task_block (WaitTask r b ch) = b"

definition requested :: "PeerConn \<Rightarrow> int set" where
  "requested pc = {i. \<exists>payload. RequestPeerMsg payload \<in> set (pc_out pc) \<and> RequestPeerMsg_GetPieceIdx payload = Ok i}"

definition owned :: "string \<Rightarrow> SafePieces \<Rightarrow> int \<Rightarrow> bool" where
  "owned peer sp i \<longleftrightarrow> (\<exists>p. Get sp i = Some p \<and> piece_status p \<noteq> PIECESTATUS_IDLE \<and> piece_downloader p = peer)"

definition owned_block :: "string \<Rightarrow> SafePieces \<Rightarrow> Block \<Rightarrow> bool" where
  "owned_block peer sp b \<longleftrightarrow> owned peer sp (blk_PieceIdx b) \<and> 0 \<le> blk_PieceIdx b \<and> blk_PieceIdx b < 2 ^ 32"

text \<open>Every block of the store carries the index of its piece, and indices fit the field of a message.\<close>

definition blocks_wf :: "SafePieces \<Rightarrow> bool" where
  "blocks_wf sp \<longleftrightarrow> (\<forall>i p. Get sp i = Some p \<longrightarrow> 0 \<le> i \<and> i < 2 ^ 32 \<and> (\<forall>b \<in> set (piece_blocks p). blk_PieceIdx b = i))"

lemma owned_mono:
  assumes "pieces_le sp sp'" "owned peer sp i"
  shows "owned peer sp' i"
proof -
  obtain p where p: "Get sp i = Some p" "piece_status p \<noteq> PIECESTATUS_IDLE" "piece_downloader p = peer"
    using assms(2) by (auto simp: owned_def)
  have "rel_option piece_le (Get sp i) (Get sp' i)" using assms(1) by (simp add: pieces_le_def)
  then obtain q where "Get sp' i = Some q" "piece_le p q" using p(1) by (auto simp: option_rel_Some1)
  then show ?thesis using p(2,3) by (auto simp: owned_def piece_le_def)
qed

lemma owned_block_mono: "pieces_le sp sp' \<Longrightarrow> owned_block peer sp b \<Longrightarrow> owned_block peer sp' b"
  by (auto simp: owned_block_def intro: owned_mono)

lemma shape_PieceIdx: "blk_PieceIdx (shape b) = blk_PieceIdx b"
  by (simp add: shape_def)

lemma blocks_wf_mono:
  assumes "pieces_le sp sp'" "blocks_wf sp"
  shows "blocks_wf sp'"
  unfolding blocks_wf_def
proof (intro allI impI)
  fix i q assume q: "Get sp' i = Some q"
  have "rel_option piece_le (Get sp i) (Get sp' i)" using assms(1) by (simp add: pieces_le_def)
  then obtain p where p: "Get sp i = Some p" "piece_le p q" using q by (auto simp: option_rel_Some2)
  then have "map blk_PieceIdx (map shape (piece_blocks q)) = map blk_PieceIdx (map shape (piece_blocks p))"
    by (simp only: piece_le_def)
  then have "map blk_PieceIdx (piece_blocks q) = map blk_PieceIdx (piece_blocks p)"
    by (simp add: comp_def shape_PieceIdx)
  then have "blk_PieceIdx ` set (piece_blocks q) = blk_PieceIdx ` set (piece_blocks p)"
    by (metis list.set_map)
  then show "0 \<le> i \<and> i < 2 ^ 32 \<and> (\<forall>b \<in> set (piece_blocks q). blk_PieceIdx b = i)"
    using assms(2) p(1) by (auto simp: blocks_wf_def)
qed

definition evolves :: "Client \<times> PeerConn \<Rightarrow> Client \<times> PeerConn \<Rightarrow> bool" where
  "evolves = (\<lambda>(cl, pc) (cl', pc'). pieces_le (cl_pieces cl) (cl_pieces cl') \<and> conn_le pc pc' \<and>
     (fi_IsSeeding (cl_FileInfo cl) \<longrightarrow> fi_IsSeeding (cl_FileInfo cl')) \<and>
     fi_torrentInfo (cl_FileInfo cl') = fi_torrentInfo (cl_FileInfo cl) \<and> requested pc' = requested pc \<and>
     (blocks_wf (cl_pieces cl) \<longrightarrow> (\<forall>b \<in> task_block ` set (pc_tasks pc').
        b \<in> task_block ` set (pc_tasks pc) \<or> owned_block (pc_toPeerId pc) (cl_pieces cl') b)))"

lemma conn_le_refl [simp]: "conn_le pc pc"
  by (simp add: conn_le_def)

lemma conn_le_trans: "conn_le a b \<Longrightarrow> conn_le b c \<Longrightarrow> conn_le a c"
  by (auto simp: conn_le_def elim: prefix_of_trans)

interpretation conn: growing conn_le
  by unfold_locales (auto intro: conn_le_trans)

lemma evolves_trans:
  assumes "evolves s t" "evolves t u"
  shows "evolves s u"
proof -
  obtain cl1 pc1 cl2 pc2 cl3 pc3 where s: "s = (cl1, pc1)" "t = (cl2, pc2)" "u = (cl3, pc3)"
    by (cases s; cases t; cases u)
  have le: "pieces_le (cl_pieces cl1) (cl_pieces cl2)" "pieces_le (cl_pieces cl2) (cl_pieces cl3)"
      "conn_le pc1 pc2" "conn_le pc2 pc3"
    using assms by (auto simp: evolves_def s)
  have "b \<in> task_block ` set (pc_tasks pc1) \<or> owned_block (pc_toPeerId pc1) (cl_pieces cl3) b"
    if "blocks_wf (cl_pieces cl1)" "b \<in> task_block ` set (pc_tasks pc3)" for b
  proof -
    have "pc_toPeerId pc2 = pc_toPeerId pc1" using le(3) by (simp add: conn_le_def)
    moreover have "b \<in> task_block ` set (pc_tasks pc2) \<or> owned_block (pc_toPeerId pc2) (cl_pieces cl3) b"
      using assms(2) that blocks_wf_mono [OF le(1)] unfolding evolves_def s by auto
    moreover have "b \<in> task_block ` set (pc_tasks pc1) \<or> owned_block (pc_toPeerId pc1) (cl_pieces cl2) b"
      if "b \<in> task_block ` set (pc_tasks pc2)"
      using assms(1) that \<open>blocks_wf (cl_pieces cl1)\<close> unfolding evolves_def s by auto
    ultimately show ?thesis using owned_block_mono [OF le(2)] by metis
  qed
  then show ?thesis
    using assms le pieces_le_trans conn_le_trans unfolding evolves_def s by (simp; blast)
qed

lemma evolves_refl: "evolves s s"
  by (cases s) (simp add: evolves_def pieces_le_refl)

interpretation ev: growing evolves
  by unfold_locales (fact evolves_refl, fact evolves_trans)

text \<open>Steps of a connection that start no goroutine and send no REQUEST.\<close>

definition conn_quiet :: "PeerConn \<Rightarrow> PeerConn \<Rightarrow> bool" where
  "conn_quiet pc pc' \<longleftrightarrow> conn_le pc pc' \<and> pc_tasks pc' = pc_tasks pc \<and> requested pc' = requested pc \<and>
     set (pc_out pc') \<subseteq> set (pc_out pc) \<union> Collect wf_msg"

interpretation quiet: growing conn_quiet
  by unfold_locales (auto simp: conn_quiet_def intro: conn_le_trans)

lemma requested_cong: "pc_out pc' = pc_out pc \<Longrightarrow> requested pc' = requested pc"
  by (simp add: requested_def)

section \<open>The operations of a connection\<close>

lemma advances_with_requester:
  assumes "\<And>r rq. advances R (f r rq)" "\<And>pc. R pc pc"
  shows "advances R (with_requester ptr f)"
  using assms by (auto simp: advances_def with_requester_def split: option.splits)

lemma conn_quiet_set_requester [simp]: "conn_quiet pc (set_requester r rq pc)"
  by (simp add: conn_quiet_def conn_le_def set_requester_def requested_def)

lemma advances_install: "advances conn_quiet (install_requester n)"
  by (auto simp: advances_def install_requester_def conn_quiet_def conn_le_def requested_def split: res.splits)

lemma advances_reset: "advances conn_quiet (reset ptr)"
  unfolding reset_def by (rule advances_with_requester) (simp_all add: advances_def quiet.R_refl)

lemma advances_BlocksLeft: "advances conn_quiet (BlocksLeft ptr)"
  unfolding BlocksLeft_def by (rule advances_with_requester) (simp_all add: advances_def quiet.R_refl)

lemma advances_request: "advances conn_le (request ptr b)"
  unfolding request_def
  by (rule advances_with_requester)
     (auto simp: advances_def conn_le_def set_requester_def WritePeerMsg_def send_err_def Let_def split: res.splits)

lemma advances_onBlockReceive: "advances conn_quiet (onBlockReceive ptr b)"
  unfolding onBlockReceive_def
  by (rule advances_with_requester)
     (auto simp: advances_def conn_quiet_def conn_le_def requested_def set_requester_def Let_def split: option.splits prod.splits)

lemma advances_after_wait: "advances conn_le (after_wait r b received)"
proof -
  have "conn_le pc (fst (after_wait r b received pc))" for pc
  proof -
    let ?pc = "pc\<lparr>pc_misfires := pc_misfires pc + 1\<rparr>"
    have "conn_le pc ?pc" by (simp add: conn_le_def)
    moreover have "conn_le ?pc (fst (request (Some r) b ?pc))" by (rule conn.advances_at [OF advances_request])
    ultimately show ?thesis
      by (auto simp: after_wait_def Let_def MakeWeak_def intro: conn_le_trans) (simp add: conn_le_def)
  qed
  then show ?thesis by (simp add: advances_def)
qed

lemma run_task_conn_le: "run_task n timeout pc = Some (pc', r) \<Longrightarrow> conn_le pc pc'"
proof -
  assume run: "run_task n timeout pc = Some (pc', r)"
  let ?pc = "pc\<lparr>pc_tasks := take n (pc_tasks pc) @ drop (Suc n) (pc_tasks pc)\<rparr>"
  have "conn_le pc ?pc" by (simp add: conn_le_def)
  moreover have "conn_le ?pc pc'"
    using run conn.advances_at [OF advances_request, of ?pc] conn.advances_at [OF advances_after_wait, of ?pc]
    by (auto simp: run_task_def Let_def split: if_splits task.splits) (metis fst_conv)+
  ultimately show ?thesis by (rule conn_le_trans)
qed

section \<open>The handlers\<close>

text \<open>The ledger of the pieces: who downloads which piece, and how far it is.\<close>

definition ledger :: "SafePieces \<Rightarrow> int \<rightharpoonup> PieceStatus \<times> string" where
  "ledger sp i = map_option (\<lambda>p. (piece_status p, piece_downloader p)) (Get sp i)"

definition files_le :: "FileInfo \<times> fs \<Rightarrow> FileInfo \<times> fs \<Rightarrow> bool" where
  "files_le = (\<lambda>(fi, fs) (fi', fs'). pieces_le (fi_Pieces fi) (fi_Pieces fi') \<and> ledger (fi_Pieces fi') = ledger (fi_Pieces fi) \<and>
     (fi_IsSeeding fi \<longrightarrow> fi_IsSeeding fi') \<and> fi_torrentInfo fi' = fi_torrentInfo fi)"

interpretation files: growing files_le
  by unfold_locales (auto simp: files_le_def pieces_le_refl intro: pieces_le_trans)

lemma store_buff_sel [simp]:
  "fi_IsSeeding (store_buff i s b fi) = fi_IsSeeding fi" "fi_torrentInfo (store_buff i s b fi) = fi_torrentInfo fi"
  "ledger (fi_Pieces (store_buff i s b fi)) = ledger (fi_Pieces fi)"
  by (auto simp: store_buff_def ledger_def fun_eq_iff split: option.splits)

lemma files_le_store_buff [simp]: "files_le (fi, fs) (store_buff i s b fi, fs')"
  by (simp add: files_le_def pieces_le_store_buff)

lemma advances_GetBlock: "advances files_le (GetBlock flt i begin len seeding)"
proof -
  have "files_le (fi, fs) (fst (GetBlock flt i begin len seeding (fi, fs)))" for fi fs
  proof (cases "Get (fi_Pieces fi) i")
    case None
    then show ?thesis by (simp add: GetBlock_def files.R_refl)
  next
    case (Some p)
    show ?thesis
      unfolding GetBlock_def
      by (simp add: Some, rule files.bind_at)
         (auto simp: advances_def ret_def files.R_refl act_bind_def files_le_def pieces_le_refl pieces_le_store_buff
           split: option.splits res.splits prod.splits)
  qed
  then show ?thesis by (simp add: advances_def)
qed

lemma advances_Finalize: "advances files_le (DefaultFinalizeFunc flt)"
  by (auto simp: advances_def DefaultFinalizeFunc_def files_le_def pieces_le_refl split: option.splits prod.splits res.splits)

lemma advances_SaveBlock: "advances files_le (\<lambda>(fi, fs). case SaveBlock flt fi b fs of (fs', r) \<Rightarrow> ((fi, fs'), r))"
  by (auto simp: advances_def files_le_def pieces_le_refl split: prod.splits)

text \<open>
  What a relation between the states of a client has to admit so that every handler respects it: the operations of the connection that
  start no goroutine, the operations on files, the marks, growing queues, \<open>RequestNextPiece\<close>, and finished pieces.
\<close>

locale handler_steps = growing R for R :: "Client \<times> PeerConn \<Rightarrow> Client \<times> PeerConn \<Rightarrow> bool" +
  assumes quiet_step: "conn_quiet pc pc' \<Longrightarrow> R (cl, pc) (cl, pc')"
    and files_step: "files_le (cl_FileInfo cl, cl_fs cl) (fi', fs') \<Longrightarrow> R (cl, pc) (cl\<lparr>cl_FileInfo := fi', cl_fs := fs'\<rparr>, pc)"
    and mark_step: "R s (mark_downloading d s)"
    and merge_step: "R (cl, pc) (cl, pc\<lparr>pc_queue := IntSliceUniqueMergeSlices (pc_queue pc) is\<rparr>)"
    and append_step: "i \<notin> set (pc_queue pc) \<Longrightarrow> R (cl, pc) (cl, pc\<lparr>pc_queue := pc_queue pc @ [i]\<rparr>)"
    and next_step: "R s (fst (RequestNextPiece s))"
    and done_step: "MarkAsDone (cl_pieces cl) i = Ok sp \<Longrightarrow> R (cl, pc) (set_pieces sp cl, pc)"
begin

lemma advances_on_conn: "advances conn_quiet m \<Longrightarrow> advances R (on_conn m)"
  unfolding advances_def on_conn_def
  by (auto split: prod.splits intro!: quiet_step) (metis fst_conv)

lemma advances_on_files: "advances files_le m \<Longrightarrow> advances R (on_files m)"
  unfolding advances_def on_files_def
  by (auto split: prod.splits intro!: files_step) (metis fst_conv)

lemma advances_write_msg: "(\<And>p. m \<noteq> RequestPeerMsg p) \<Longrightarrow> wf_msg m \<Longrightarrow> advances R (write_msg m)"
  unfolding write_msg_def
  by (rule advances_on_conn) (auto simp: advances_def conn_quiet_def conn_le_def WritePeerMsg_def requested_def)

lemma advances_ignore: "advances R m \<Longrightarrow> advances R (ignore_result m)"
  unfolding ignore_result_def by blast

lemma advances_next: "advances R RequestNextPiece"
  by (simp add: advances_def next_step)

lemma advances_start_requester: "advances R (start_requester i)"
  using advances_at [OF advances_on_conn [OF advances_install]]
  by (auto simp: advances_def start_requester_def R_refl split: option.splits)

lemmas advances_parts = advances_start_requester
  advances_ignore [OF advances_next] advances_on_conn [OF advances_onBlockReceive] advances_on_conn [OF advances_BlocksLeft]
  advances_on_conn [OF advances_reset] advances_on_files [OF advances_GetBlock] advances_on_files [OF advances_Finalize]
  advances_on_files [OF advances_SaveBlock]

lemma advances_handshake: "advances R handlePeerHandshakeMessage"
proof -
  have "BuildPeerBitfieldMsg sp = Ok m \<Longrightarrow> m \<noteq> RequestPeerMsg p \<and> wf_msg m" for sp m p
    by (auto simp: BuildPeerBitfieldMsg_def res_simps split: option.splits if_splits)
  then have "advances R (\<lambda>(cl, pc).
       if length (DownloadedPieceIndices (cl_pieces cl)) = 0 then ((cl, pc), Ok ())
       else (case BuildPeerBitfieldMsg (Some (cl_pieces cl)) of
           Err e \<Rightarrow> ((cl, pc), Ok ())
         | Ok msg \<Rightarrow> write_msg msg (cl, pc)
         | Panic p \<Rightarrow> ((cl, pc), Panic p)
         | Hang \<Rightarrow> ((cl, pc), Hang)))"
    using advances_at [OF advances_write_msg] by (auto simp: advances_def R_refl split: res.splits)
  then show ?thesis
    unfolding handlePeerHandshakeMessage_def
    by (intro advances_bind advances_write_msg) (simp_all add: BuildPeerInterestedMsg_def)
qed

lemma advances_pair: "(\<And>cl pc. R (cl, pc) (fst (m (cl, pc)))) \<Longrightarrow> advances R m"
  by (auto simp: advances_def)

lemma advances_request_msg: "advances R (handlePeerRequestMessage flt payload)"
  unfolding handlePeerRequestMessage_def
proof (intro advances_bind advances_ret advances_pair)
  fix b cl pc
  show "R (cl, pc) (fst (case (cl, pc) of (cl, pc) \<Rightarrow>
       act_bind (on_files (GetBlock flt (blk_PieceIdx b) (blk_Begin b) (blk_Length b) (fi_IsSeeding (cl_FileInfo cl))))
         (\<lambda>fullBlock. case fullBlock of
             None \<Rightarrow> ret (Panic NilDereference)
           | Some fullBlock \<Rightarrow> write_msg (BuildPeerPieceMsg fullBlock)) (cl, pc)))"
    unfolding prod.case
    by (rule bind_at)
       (auto intro: advances_parts advances_write_msg simp: BuildPeerPieceMsg_def split: option.split)
qed

lemma advances_mark_done:
  "advances R (\<lambda>(cl, pc). case MarkAsDone (cl_pieces cl) i of
     Ok sp \<Rightarrow> ((set_pieces sp cl, pc), Ok ())
   | Err e \<Rightarrow> ((cl, pc), Err e)
   | Panic p \<Rightarrow> ((cl, pc), Panic p)
   | Hang \<Rightarrow> ((cl, pc), Hang))"
  by (auto simp: advances_def R_refl done_step split: res.splits)

lemma advances_piece_msg: "advances R (handlePeerPieceMessage flt payload)"
proof -
  have finish: "advances R (\<lambda>(cl, pc).
      let piecesLeft = TotalUndonePiecesLeft (cl_pieces cl) in
      if piecesLeft \<noteq> 0 then ignore_result RequestNextPiece (cl, pc)
      else on_files (DefaultFinalizeFunc flt) (mark_downloading False (cl, pc)))"
    using advances_at [OF advances_parts(2)] R_trans [OF mark_step advances_at [OF advances_parts(7)]]
    by (auto simp: advances_def Let_def)
  have complete: "advances R (finish_piece flt ptr i)" for ptr i
    unfolding finish_piece_def using finish
    by (auto intro!: advances_bind advances_parts advances_mark_done)
  have counted: "advances R (if blocksLeft = 0 then finish_piece flt ptr i else ret (Ok ()))" for blocksLeft :: int and ptr i
    using complete by auto
  show ?thesis
    unfolding handlePeerPieceMessage_def
  proof (intro advances_bind advances_ret advances_pair, unfold prod.case)
    fix b cl pc
    show "R (cl, pc) (fst (act_bind (on_conn (onBlockReceive (pc_blockRequester pc) b)) (\<lambda>_ (cl, pc).
     act_bind (on_files (\<lambda>(fi, fs). case SaveBlock flt fi b fs of (fs', r) \<Rightarrow> ((fi, fs'), r))) (\<lambda>_ (cl, pc).
     act_bind (on_conn (BlocksLeft (pc_blockRequester pc))) (\<lambda>blocksLeft.
       if blocksLeft = 0 then finish_piece flt (pc_blockRequester pc) (blk_PieceIdx b)
       else ret (Ok ())) (cl, pc)) (cl, pc)) (cl, pc)))"
      by (rule bind_at [OF advances_parts(3)], rule advances_pair, unfold prod.case,
          rule bind_at [OF advances_parts(8)], rule advances_pair, unfold prod.case,
          rule bind_at [OF advances_parts(4) counted])
  qed
qed

lemma advances_bitfield_msg: "advances R (handlePeerBitfieldMessage payload)"
proof (rule advances_pair)
  fix cl pc
  have queue: "R (cl, pc) (cl, pc\<lparr>pc_queue := IntSliceUniqueMergeSlices (pc_queue pc) is\<rparr>)" for cl pc "is"
    by (rule merge_step)
  have go: "advances R (act_bind (ret (slice_get q 0)) (\<lambda>i. act_bind (start_requester i)
      (\<lambda>_. ignore_result RequestNextPiece)))" for q
    by (intro advances_bind advances_ret advances_parts)
  show "R (cl, pc) (fst (handlePeerBitfieldMessage payload (cl, pc)))"
    unfolding handlePeerBitfieldMessage_def prod.case Let_def
    by (rule bind_at [OF advances_ret], rule advances_pair)
       (use queue R_trans [OF queue advances_at [OF go]] in \<open>simp add: R_refl\<close>)
qed

lemma advances_have_msg: "advances R (handlePeerHaveMessage payload)"
proof (rule advances_pair)
  fix cl pc
  have queue: "R (cl, pc) (cl, pc\<lparr>pc_queue := pc_queue pc @ [i]\<rparr>)" if "i \<notin> set (pc_queue pc)" for cl pc i
    using that by (rule append_step)
  have go: "advances R (act_bind (start_requester i) (\<lambda>_. ignore_result RequestNextPiece))" for i
    by (intro advances_bind advances_parts)
  show "R (cl, pc) (fst (handlePeerHaveMessage payload (cl, pc)))"
    unfolding handlePeerHaveMessage_def prod.case Let_def
    by (rule bind_at [OF advances_ret], rule advances_pair)
       (use queue R_trans [OF queue advances_at [OF go]] in \<open>simp add: R_refl\<close>)
qed

lemma advances_close: "advances R (on_conn (\<lambda>pc. (pc\<lparr>pc_closed := True\<rparr>, Ok ())))"
  by (rule advances_on_conn) (simp add: advances_def conn_quiet_def conn_le_def requested_def)

lemma advances_handle: "advances R (handle flt m)"
  by (cases m)
     (simp_all add: handle_def advances_handshake advances_request_msg advances_piece_msg advances_bitfield_msg
       advances_have_msg advances_close handlePeerKeepAliveMessage_def handlePeerInterestedMessage_def
       handlePeerUnchokedMessage_def handlePeerChokedMessage_def handlePeerNotInterestedMessage_def
       advances_ret advances_write_msg BuildPeerUnchokedMsg_def)

lemma advances_DefaultPeerMsgFunc: "advances R (DefaultPeerMsgFunc flt m)"
proof -
  have err: "R s (fst (on_conn (\<lambda>pc. (send_err e pc, Ok ())) s))" for s e
    by (rule advances_at [OF advances_on_conn])
       (simp add: advances_def conn_quiet_def conn_le_def requested_def send_err_def)
  have "R s (fst (DefaultPeerMsgFunc flt m s))" for s
  proof -
    obtain s' r where h: "handle flt m s = (s', r)" by (cases "handle flt m s")
    then have "R s s'" using advances_at [OF advances_handle, of s flt m] by simp
    then show ?thesis using h R_trans [OF _ err] by (cases r) (auto simp: DefaultPeerMsgFunc_def)
  qed
  then show ?thesis by (simp add: advances_def)
qed

end

section \<open>The handlers respect how the pieces evolve\<close>

lemma evolves_mark_downloading [simp]: "evolves s (mark_downloading d s)"
  by (cases s) (simp add: evolves_def mark_downloading_def pieces_le_refl conn_le_def requested_def)

lemma evolves_set_pieces: "pieces_le (cl_pieces cl) sp \<Longrightarrow> evolves (cl, pc) (set_pieces sp cl, pc)"
  by (simp add: evolves_def set_pieces_def)

lemma reserve_first_owned:
  "reserve_first TryToReserve d q sp = Ok (sp', Some i, q') \<Longrightarrow> owned d sp' i"
proof (induction q arbitrary: sp)
  case (Cons k q)
  then obtain sp1 ok where step: "TryToReserve sp k d = Ok (sp1, ok)"
    "(if ok then Ok (sp1, Some k, q) else reserve_first TryToReserve d q sp1) = Ok (sp', Some i, q')"
    by (auto simp: res_bind_eq_Ok)
  show ?case
  proof (cases ok)
    case True
    with step show ?thesis
      by (auto simp: owned_def TryToReserve_def on_piece_eq split: option.splits if_splits)
  qed (use step Cons.IH [of sp1] in auto)
qed simp

lemma RequestNextPiece_cases:
  obtains (empty) "pc_queue pc = []" "RequestNextPiece (cl, pc) = (mark_downloading False (cl, pc), Ok 0)"
  | (none) sp queue where "reserve_first TryToReserve (pc_toPeerId pc) (pc_queue pc) (cl_pieces cl) = Ok (sp, None, queue)"
      "RequestNextPiece (cl, pc) = (mark_downloading False (set_pieces sp cl, pc\<lparr>pc_queue := queue\<rparr>), Ok 0)"
  | (piece) sp i queue p where "reserve_first TryToReserve (pc_toPeerId pc) (pc_queue pc) (cl_pieces cl) = Ok (sp, Some i, queue)"
      "Get sp i = Some p"
      "RequestNextPiece (cl, pc) = (mark_downloading True (set_pieces sp cl, pc\<lparr>pc_queue := queue,
         pc_tasks := pc_tasks pc @ map (RequestTask (pc_blockRequester pc)) (piece_blocks p)\<rparr>), Ok (BlockCount p))"
  | (fail) r where "RequestNextPiece (cl, pc) = ((cl, pc), r)"
proof (cases "pc_queue pc = []")
  case True
  then show ?thesis by (intro empty) (simp_all add: RequestNextPiece_def)
next
  case False
  show ?thesis
  proof (cases "reserve_first TryToReserve (pc_toPeerId pc) (pc_queue pc) (cl_pieces cl)")
    case (Ok res)
    obtain sp r queue where res: "res = (sp, r, queue)" by (cases res)
    show ?thesis
    proof (cases r)
      case None
      then show ?thesis using False Ok res by (intro none [of sp queue]) (simp_all add: RequestNextPiece_def)
    next
      case (Some i)
      then obtain p where "Get sp i = Some p"
        using reserve_first_owned [of "pc_toPeerId pc" "pc_queue pc" "cl_pieces cl" sp i queue] Ok res
        by (auto simp: owned_def)
      then show ?thesis
        using False Ok res Some by (intro piece [of sp i queue p]) (simp_all add: RequestNextPiece_def mark_downloading_def)
    qed
  qed (use False in \<open>auto intro!: fail simp: RequestNextPiece_def\<close>)
qed

lemma advances_RequestNextPiece: "advances evolves RequestNextPiece"
proof -
  have "evolves (cl, pc) (fst (RequestNextPiece (cl, pc)))" for cl pc
  proof (cases rule: RequestNextPiece_cases [of pc cl])
    case empty
    then show ?thesis by simp
  next
    case (none sp queue)
    obtain pre where "pc_queue pc = pre @ queue" using reserve_first_suffix [OF none(1)] by blast
    then have "evolves (cl, pc) (set_pieces sp cl, pc\<lparr>pc_queue := queue\<rparr>)"
      using pieces_le_reserve_first [OF none(1)] by (simp add: evolves_def set_pieces_def conn_le_def requested_def)
    from ev.R_trans [OF this evolves_mark_downloading] show ?thesis by (simp add: none(2))
  next
    case (piece sp i queue p)
    note le = pieces_le_reserve_first [OF piece(1)]
    obtain pre where pre: "pc_queue pc = pre @ queue" using reserve_first_suffix [OF piece(1)] by blast
    have "owned_block (pc_toPeerId pc) sp b" if "blocks_wf (cl_pieces cl)" "b \<in> set (piece_blocks p)" for b
      using reserve_first_owned [OF piece(1)] blocks_wf_mono [OF le that(1)] piece(2) that(2)
      by (auto simp: owned_block_def blocks_wf_def)
    then have "evolves (cl, pc) (set_pieces sp cl, pc\<lparr>pc_queue := queue,
         pc_tasks := pc_tasks pc @ map (RequestTask (pc_blockRequester pc)) (piece_blocks p)\<rparr>)"
      using le pre by (auto simp: evolves_def set_pieces_def conn_le_def requested_def image_iff)
    from ev.R_trans [OF this evolves_mark_downloading] show ?thesis by (simp add: piece(3))
  next
    case (fail r)
    then show ?thesis by (simp add: ev.R_refl)
  qed
  then show ?thesis by (simp add: advances_def)
qed

interpretation evh: handler_steps evolves
proof unfold_locales
  show "conn_quiet pc pc' \<Longrightarrow> evolves (cl, pc) (cl, pc')" for pc pc' cl
    by (simp add: evolves_def pieces_le_refl conn_quiet_def)
  show "files_le (cl_FileInfo cl, cl_fs cl) (fi', fs') \<Longrightarrow> evolves (cl, pc) (cl\<lparr>cl_FileInfo := fi', cl_fs := fs'\<rparr>, pc)" for cl fi' fs' pc
    by (simp add: evolves_def files_le_def)
  show "evolves (cl, pc) (cl, pc\<lparr>pc_queue := IntSliceUniqueMergeSlices (pc_queue pc) is\<rparr>)" for cl pc "is"
    by (simp add: evolves_def pieces_le_refl conn_le_def requested_def UniqueMerge_eq first_occurrences_props)
  show "i \<notin> set (pc_queue pc) \<Longrightarrow> evolves (cl, pc) (cl, pc\<lparr>pc_queue := pc_queue pc @ [i]\<rparr>)" for i pc cl
    by (simp add: evolves_def pieces_le_refl conn_le_def requested_def)
  show "evolves s (fst (RequestNextPiece s))" for s by (rule ev.advances_at [OF advances_RequestNextPiece])
  show "MarkAsDone (cl_pieces cl) i = Ok sp \<Longrightarrow> evolves (cl, pc) (set_pieces sp cl, pc)" for cl i sp pc
    by (simp add: evolves_set_pieces pieces_le_MarkAsDone)
qed (fact evolves_mark_downloading)

end
