(* ===== verification/Client_Runs.thy ===== *)
theory Client_Runs
  imports Handlers_Invariants FileInfo_Properties
begin

text \<open>
  A client with any number of connections: messages arriving on them and their goroutines running, in any order. The
  theorems say what holds after every such run.
\<close>

section \<open>Runs\<close>

text \<open>\<open>NewPeerConnection\<close>: an empty queue, no requester, nothing written.\<close>

definition NewPeerConnection :: "string \<Rightarrow> PeerConn" where
  "NewPeerConnection toPeerId =
     \<lparr>pc_toPeerId = toPeerId, pc_toPeerDownloading = False, pc_toPeerWeak = False, pc_queue = [], pc_misfires = 0,
      pc_requesters = [], pc_blockRequester = None, pc_chans = [], pc_out = [], pc_errs = [], pc_closed = False,
      pc_tasks = []\<rparr>"

inductive client_step :: "Client \<times> PeerConn list \<Rightarrow> Client \<times> PeerConn list \<Rightarrow> bool" where
  step_connect: "client_step (cl, pcs) (cl, pcs @ [NewPeerConnection peerId])"
| step_message: "k < length pcs \<Longrightarrow> DefaultPeerMsgFunc flt peerMsg (cl, pcs ! k) = ((cl', pc'), r) \<Longrightarrow>
     client_step (cl, pcs) (cl', pcs[k := pc'])"
| step_task: "k < length pcs \<Longrightarrow> run_task n timeout (pcs ! k) = Some (pc', r) \<Longrightarrow>
     client_step (cl, pcs) (cl, pcs[k := pc'])"

inductive_cases client_stepE: "client_step s t"

abbreviation client_run :: "Client \<times> PeerConn list \<Rightarrow> Client \<times> PeerConn list \<Rightarrow> bool" where
  "client_run \<equiv> client_step\<^sup>*\<^sup>*"

lemma message_evolves:
  assumes "DefaultPeerMsgFunc flt m (cl, pc) = ((cl', pc'), r)"
  shows "evolves (cl, pc) (cl', pc')"
  using ev.advances_at [OF evh.advances_DefaultPeerMsgFunc, of "(cl, pc)" flt m] assms by simp

lemma step_pieces_le: "client_step (cl, pcs) (cl', pcs') \<Longrightarrow> pieces_le (cl_pieces cl) (cl_pieces cl')"
  by (erule client_stepE) (auto simp: pieces_le_refl evolves_def dest: message_evolves)

lemma run_pieces_le: "client_run s t \<Longrightarrow> pieces_le (cl_pieces (fst s)) (cl_pieces (fst t))"
proof (induction rule: rtranclp_induct)
  case (step t u)
  then show ?case
    using step_pieces_le [of "fst t" "snd t" "fst u" "snd u"] pieces_le_trans by auto
qed (simp add: pieces_le_refl)

section \<open>Who asks for which piece\<close>

definition conn_ok :: "SafePieces \<Rightarrow> PeerConn \<Rightarrow> bool" where
  "conn_ok sp pc \<longleftrightarrow> (\<forall>b \<in> task_block ` set (pc_tasks pc). owned_block (pc_toPeerId pc) sp b) \<and>
     (\<forall>i \<in> requested pc. owned (pc_toPeerId pc) sp i)"

definition client_ok :: "Client \<times> PeerConn list \<Rightarrow> bool" where
  "client_ok = (\<lambda>(cl, pcs). blocks_wf (cl_pieces cl) \<and> (\<forall>pc \<in> set pcs. conn_ok (cl_pieces cl) pc))"

lemma conn_ok_mono: "pieces_le sp sp' \<Longrightarrow> conn_ok sp pc \<Longrightarrow> conn_ok sp' pc"
  by (auto simp: conn_ok_def intro: owned_mono owned_block_mono)

text \<open>\<open>evolves\<close> without what only holds of a whole handler, that a queue has no duplicates.\<close>

definition grows :: "Client \<times> PeerConn \<Rightarrow> Client \<times> PeerConn \<Rightarrow> bool" where
  "grows = (\<lambda>(cl, pc) (cl', pc'). pieces_le (cl_pieces cl) (cl_pieces cl') \<and> pc_toPeerId pc' = pc_toPeerId pc \<and>
     requested pc' = requested pc \<and>
     (blocks_wf (cl_pieces cl) \<longrightarrow> (\<forall>b \<in> task_block ` set (pc_tasks pc').
        b \<in> task_block ` set (pc_tasks pc) \<or> owned_block (pc_toPeerId pc) (cl_pieces cl') b)))"

lemma grows_trans:
  assumes "grows s t" "grows t u"
  shows "grows s u"
proof -
  obtain cl1 pc1 cl2 pc2 cl3 pc3 where s: "s = (cl1, pc1)" "t = (cl2, pc2)" "u = (cl3, pc3)"
    by (cases s; cases t; cases u)
  have le: "pieces_le (cl_pieces cl1) (cl_pieces cl2)" "pieces_le (cl_pieces cl2) (cl_pieces cl3)"
    using assms by (auto simp: grows_def s)
  have "b \<in> task_block ` set (pc_tasks pc1) \<or> owned_block (pc_toPeerId pc1) (cl_pieces cl3) b"
    if "blocks_wf (cl_pieces cl1)" "b \<in> task_block ` set (pc_tasks pc3)" for b
    using assms that blocks_wf_mono [OF le(1)] owned_block_mono [OF le(2)] unfolding grows_def s prod.case by metis
  then show ?thesis using assms le pieces_le_trans unfolding grows_def s by auto
qed

lemma evolves_grows: "evolves s t \<Longrightarrow> grows s t"
  by (auto simp: evolves_def grows_def conn_le_def split: prod.splits)

lemma conn_ok_grows:
  assumes "grows (cl, pc) (cl', pc')" "blocks_wf (cl_pieces cl)" "conn_ok (cl_pieces cl) pc"
  shows "conn_ok (cl_pieces cl') pc'"
proof -
  have le: "pieces_le (cl_pieces cl) (cl_pieces cl')" and id: "pc_toPeerId pc' = pc_toPeerId pc"
    and req: "requested pc' = requested pc"
    and tasks: "\<And>b. b \<in> task_block ` set (pc_tasks pc') \<Longrightarrow>
      b \<in> task_block ` set (pc_tasks pc) \<or> owned_block (pc_toPeerId pc) (cl_pieces cl') b"
    using assms(1,2) by (auto simp: grows_def)
  show ?thesis
    using conn_ok_mono [OF le assms(3)] tasks unfolding conn_ok_def id req by blast
qed

lemma client_ok_grows:
  assumes "grows (cl, pcs ! k) (cl', pc')" "k < length pcs" "client_ok (cl, pcs)"
  shows "client_ok (cl', pcs[k := pc'])"
proof -
  have le: "pieces_le (cl_pieces cl) (cl_pieces cl')" using assms(1) by (simp add: grows_def)
  have ok: "blocks_wf (cl_pieces cl)" "\<forall>pc \<in> set pcs. conn_ok (cl_pieces cl) pc"
    using assms(3) by (auto simp: client_ok_def)
  then have "conn_ok (cl_pieces cl') pc'" using conn_ok_grows [OF assms(1)] assms(2) by simp
  moreover have "conn_ok (cl_pieces cl') pc" if "pc \<in> set pcs" for pc
    using conn_ok_mono [OF le] ok(2) that by blast
  ultimately show ?thesis
    using blocks_wf_mono [OF le ok(1)] set_update_subset_insert [of pcs k pc'] by (auto simp: client_ok_def)
qed

lemma request_effect:
  assumes "request ptr b pc = (pc', r)" "0 \<le> blk_PieceIdx b" "blk_PieceIdx b < 2 ^ 32"
  shows "pc_toPeerId pc' = pc_toPeerId pc \<and> task_block ` set (pc_tasks pc') \<subseteq> insert b (task_block ` set (pc_tasks pc)) \<and>
    requested pc' \<subseteq> insert (blk_PieceIdx b) (requested pc)"
proof -
  have "RequestPeerMsg_GetPieceIdx (PutUint32 (word_of_int (blk_PieceIdx b)) @ PutUint32 c @ PutUint32 d) =
      Ok (blk_PieceIdx b)" for c d
    using assms(2,3) by (simp add: request_payload_fields)
  then show ?thesis
    using assms(1)
    by (auto simp: request_def with_requester_def BuildPeerRequestMsg_def WritePeerMsg_def set_requester_def
        requested_def Let_def split: option.splits if_splits)
qed

lemma eff_sets:
  "A' \<subseteq> insert x B \<Longrightarrow> insert x B \<subseteq> A \<Longrightarrow> R' \<subseteq> insert (f x) R \<Longrightarrow> A' \<subseteq> A \<and> R' \<subseteq> R \<union> f ` A"
  by blast

lemma run_task_effect:
  assumes "run_task n timeout pc = Some (pc', r)"
    and "\<forall>b \<in> task_block ` set (pc_tasks pc). 0 \<le> blk_PieceIdx b \<and> blk_PieceIdx b < 2 ^ 32"
  shows "pc_toPeerId pc' = pc_toPeerId pc \<and> task_block ` set (pc_tasks pc') \<subseteq> task_block ` set (pc_tasks pc) \<and>
    requested pc' \<subseteq> requested pc \<union> blk_PieceIdx ` task_block ` set (pc_tasks pc)"
proof -
  let ?t = "pc_tasks pc ! n" and ?pc = "pc\<lparr>pc_tasks := take n (pc_tasks pc) @ drop (Suc n) (pc_tasks pc)\<rparr>"
  have n: "n < length (pc_tasks pc)" using assms(1) by (auto simp: run_task_def split: if_splits)
  then have t: "?t \<in> set (pc_tasks pc)" by simp
  then have b: "0 \<le> blk_PieceIdx (task_block ?t)" "blk_PieceIdx (task_block ?t) < 2 ^ 32" using assms(2) by auto
  have sub: "set (pc_tasks ?pc) \<subseteq> set (pc_tasks pc)" by (auto dest: in_set_takeD in_set_dropD)
  have same: "pc_toPeerId ?pc = pc_toPeerId pc" "requested ?pc = requested pc" by (simp_all add: requested_def)
  have req: "pc_toPeerId pc' = pc_toPeerId pc \<and> task_block ` set (pc_tasks pc') \<subseteq> task_block ` set (pc_tasks pc) \<and>
    requested pc' \<subseteq> requested pc \<union> blk_PieceIdx ` task_block ` set (pc_tasks pc)"
    if "request ptr (task_block ?t) qc = (pc', r)" "pc_tasks qc = pc_tasks ?pc" "pc_toPeerId qc = pc_toPeerId pc"
      "requested qc = requested pc" for ptr qc
  proof -
    note eff = request_effect [OF that(1) b, unfolded that(2-4)]
    have "insert (task_block ?t) (task_block ` set (pc_tasks ?pc)) \<subseteq> task_block ` set (pc_tasks pc)"
      using image_mono [OF sub, of task_block] t by (simp only: insert_subset imageI simp_thms)
    from eff_sets [where f = blk_PieceIdx, OF conjunct1 [OF conjunct2 [OF eff]] this conjunct2 [OF conjunct2 [OF eff]]]
    show ?thesis using conjunct1 [OF eff] by (simp only: simp_thms)
  qed
  show ?thesis
  proof (cases ?t)
    case (RequestTask ptr blk)
    then have "request ptr (task_block ?t) ?pc = (pc', r)"
      using assms(1) n by (auto simp: run_task_def Let_def split: if_splits)
    from req [OF this refl same] show ?thesis .
  next
    case (WaitTask q blk ch)
    then have run: "after_wait q blk (DefaultWasBlockReceived (pc_chans pc ! ch)) ?pc = (pc', r)"
      using assms(1) n by (auto simp: run_task_def Let_def split: if_splits)
    let ?mis = "?pc\<lparr>pc_misfires := pc_misfires ?pc + 1\<rparr>"
    consider "pc' = ?pc" | "pc' = MakeWeak ?mis" | "request (Some q) (task_block ?t) ?mis = (pc', r)"
      using run WaitTask by (auto simp: after_wait_def Let_def split: if_splits)
    then show ?thesis
    proof cases
      case 3
      then show ?thesis by (rule req) (simp_all add: requested_def)
    qed (use sub in \<open>auto simp: MakeWeak_def requested_def\<close>)
  qed
qed

lemma client_ok_step:
  assumes "client_step s t" "client_ok s"
  shows "client_ok t"
  using assms(1)
proof cases
  case (step_connect cl pcs peerId)
  then show ?thesis using assms(2)
    by (auto simp: client_ok_def conn_ok_def NewPeerConnection_def requested_def)
next
  case (step_message k pcs flt m cl cl' pc' r)
  then show ?thesis using client_ok_grows [OF evolves_grows [OF message_evolves [OF step_message(4)]]] assms(2) by simp
next
  case (step_task k pcs n timeout pc' r cl)
  have ok: "blocks_wf (cl_pieces cl)" "\<forall>pc \<in> set pcs. conn_ok (cl_pieces cl) pc"
    using assms(2) step_task(1) by (auto simp: client_ok_def)
  have k: "conn_ok (cl_pieces cl) (pcs ! k)" using ok(2) step_task(3) by simp
  then have eff: "pc_toPeerId pc' = pc_toPeerId (pcs ! k)"
      "task_block ` set (pc_tasks pc') \<subseteq> task_block ` set (pc_tasks (pcs ! k))"
      "requested pc' \<subseteq> requested (pcs ! k) \<union> blk_PieceIdx ` task_block ` set (pc_tasks (pcs ! k))"
    using run_task_effect [OF step_task(4)] by (auto simp: conn_ok_def owned_block_def)
  have "conn_ok (cl_pieces cl) pc'"
    using k eff unfolding conn_ok_def eff(1) owned_block_def by blast
  then show ?thesis
    using ok step_task(2) set_update_subset_insert [of pcs k pc'] by (auto simp: client_ok_def)
qed

lemma client_ok_run: "client_run s t \<Longrightarrow> client_ok s \<Longrightarrow> client_ok t"
  by (induction rule: rtranclp_induct) (auto intro: client_ok_step)

lemma blocks_wf_cut_pieces:
  assumes "0 < bl" "0 < pl" "1 \<le> n" "n \<le> 2 ^ 32" "0 \<le> info_Length info" "cut_pieces n pl bl (Some info) seeding = Ok sp"
  shows "blocks_wf sp"
proof -
  have get: "Get sp i = (if 0 \<le> i \<and> i < n then Some (torrent_piece n pl (info_Length info) bl seeding i) else None)" for i
    using cut_pieces_Ok [OF assms(1-3,5), of seeding] assms(6) by auto
  have "blk_PieceIdx b = i" if b: "b \<in> set (mark_last (cut_blocks i len bl))" and len: "0 < len" for b i len
  proof -
    obtain k where k: "k < length (cut_blocks i len bl)" "b = mark_last (cut_blocks i len bl) ! k"
      using b by (auto simp: in_set_conv_nth)
    then show ?thesis using nth_cut_blocks [OF assms(1) _ k(1)] len by auto
  qed
  then show ?thesis
    using last_length_pos [OF assms(2)] assms(2,4)
    by (auto simp: blocks_wf_def get torrent_piece_def Let_def split: if_splits)
qed

text \<open>What the two invariants say at the end of a run.\<close>

lemma client_ok_requested:
  assumes "client_ok (cl, pcs)" "k < length pcs" "l < length pcs"
  shows "(\<forall>i \<in> requested (pcs ! k). \<exists>p. Get (cl_pieces cl) i = Some p \<and> piece_status p \<noteq> PIECESTATUS_IDLE \<and>
      piece_downloader p = pc_toPeerId (pcs ! k)) \<and>
    (pc_toPeerId (pcs ! k) \<noteq> pc_toPeerId (pcs ! l) \<longrightarrow> requested (pcs ! k) \<inter> requested (pcs ! l) = {})"
proof -
  have "conn_ok (cl_pieces cl) (pcs ! k)" "conn_ok (cl_pieces cl) (pcs ! l)"
    using assms by (auto simp: client_ok_def)
  then have own: "\<And>i. i \<in> requested (pcs ! k) \<Longrightarrow> owned (pc_toPeerId (pcs ! k)) (cl_pieces cl) i"
    "\<And>i. i \<in> requested (pcs ! l) \<Longrightarrow> owned (pc_toPeerId (pcs ! l)) (cl_pieces cl) i"
    by (auto simp: conn_ok_def)
  have "requested (pcs ! k) \<inter> requested (pcs ! l) = {}" if "pc_toPeerId (pcs ! k) \<noteq> pc_toPeerId (pcs ! l)"
    using own that by (fastforce simp: owned_def)
  then show ?thesis using own(1) by (auto simp: owned_def)
qed

lemma pieces_le_never_regress:
  assumes "pieces_le sp sp'" "sp_wf sp"
  shows "sp_wf sp' \<and> Len sp' = Len sp \<and>
    (\<forall>i. case Get sp i of
        None \<Rightarrow> Get sp' i = None
      | Some p \<Rightarrow> \<exists>q. Get sp' i = Some q \<and> piece_status p \<le> piece_status q \<and> piece_length q = piece_length p \<and>
          BlockCount q = BlockCount p \<and>
          (if piece_status p = PIECESTATUS_IDLE then True else piece_downloader q = piece_downloader p))"
proof -
  have keys: "map fst sp' = map fst sp" using assms(1) by (simp add: pieces_le_def)
  have "length sp' = length sp" using arg_cong [OF keys, of length] by simp
  moreover have "case Get sp i of
        None \<Rightarrow> Get sp' i = None
      | Some p \<Rightarrow> \<exists>q. Get sp' i = Some q \<and> piece_status p \<le> piece_status q \<and> piece_length q = piece_length p \<and>
          BlockCount q = BlockCount p \<and>
          (if piece_status p = PIECESTATUS_IDLE then True else piece_downloader q = piece_downloader p)" for i
  proof (cases "Get sp i")
    case None
    then show ?thesis using assms(1) by (auto simp: pieces_le_def option_rel_Some2 dest: spec [of _ i])
  next
    case (Some p)
    have "rel_option piece_le (Get sp i) (Get sp' i)" using assms(1) by (simp add: pieces_le_def)
    then obtain q where q: "Get sp' i = Some q" "piece_le p q" using Some by (auto simp: option_rel_Some1)
    then have "length (piece_blocks q) = length (piece_blocks p)"
      unfolding piece_le_def by (metis length_map)
    then show ?thesis using Some q by (auto simp: piece_le_def BlockCount_def)
  qed
  ultimately show ?thesis using assms by (simp add: pieces_le_def Len_def)
qed

section \<open>Properties\<close>

text \<open>
  Nothing a peer sends undoes progress: after any messages on any connections and any goroutines, every piece is
  still there with its length and its blocks, its status is the same or further on (so a piece that is DONE stays DONE), a piece
  that was reserved keeps the peer it was reserved for, and the store stays well formed.
\<close>

theorem pieces_never_regress:
  assumes "client_run (cl, pcs) (cl', pcs')" "sp_wf (cl_pieces cl)"
  shows "sp_wf (cl_pieces cl') \<and> Len (cl_pieces cl') = Len (cl_pieces cl) \<and>
    (\<forall>i. case Get (cl_pieces cl) i of
        None \<Rightarrow> Get (cl_pieces cl') i = None
      | Some p \<Rightarrow> \<exists>q. Get (cl_pieces cl') i = Some q \<and> piece_status p \<le> piece_status q \<and> piece_length q = piece_length p \<and>
          BlockCount q = BlockCount p \<and>
          (if piece_status p = PIECESTATUS_IDLE then True else piece_downloader q = piece_downloader p))"
  by (rule pieces_le_never_regress) (use run_pieces_le [OF assms(1)] assms(2) in simp_all)

text \<open>
  No piece is asked of two peers: in every run of a client that starts with the pieces of a torrent and no connections, if
  a REQUEST for a piece was sent on a connection, then the piece is recorded as reserved for that connection's peer; so on two connections
  to different peers the pieces asked for are different.
\<close>

theorem no_piece_asked_of_two_peers:
  assumes "0 < bl" "0 < pl" "1 \<le> n" "n \<le> 2 ^ 32" "0 \<le> info_Length info"
    and "cut_pieces n pl bl (Some info) seeding = Ok (cl_pieces cl)" "client_run (cl, []) (cl', pcs)"
    and "k < length pcs" "l < length pcs"
  shows "(\<forall>i \<in> requested (pcs ! k). \<exists>p. Get (cl_pieces cl') i = Some p \<and> piece_status p \<noteq> PIECESTATUS_IDLE \<and>
      piece_downloader p = pc_toPeerId (pcs ! k)) \<and>
    (pc_toPeerId (pcs ! k) \<noteq> pc_toPeerId (pcs ! l) \<longrightarrow> requested (pcs ! k) \<inter> requested (pcs ! l) = {})"
proof -
  have "client_ok (cl, [])" using blocks_wf_cut_pieces [OF assms(1-6)] by (simp add: client_ok_def)
  then have "client_ok (cl', pcs)" by (rule client_ok_run [OF assms(7)])
  then show ?thesis by (rule client_ok_requested [OF _ assms(8,9)])
qed

definition client0 :: "SafePieces \<Rightarrow> Client" where
  "client0 sp = \<lparr>cl_FileInfo = six_fileinfo sp, cl_fs = [(''/tmp/blocks'', []), (''/final'', [])], cl_isDownloading = False\<rparr>"

definition six_pieces_idle :: SafePieces where
  "six_pieces_idle = [(0, torrent_piece 2 4 6 2 False 0), (1, torrent_piece 2 4 6 2 False 1)]"

lemma cut_six: "cut_pieces 2 4 2 (Some six_info) False = Ok six_pieces_idle"
  by code_simp

lemma client0_pieces [simp]: "cl_pieces (client0 sp) = sp"
  by (simp add: client0_def)

text \<open>A client connects to two peers, the first one has piece 0, and the goroutine of its first block runs.\<close>

definition after_have :: "Client \<times> PeerConn" where
  "after_have = fst (DefaultPeerMsgFunc no_faults (HavePeerMsg [0, 0, 0, 0])
     (client0 six_pieces_idle, NewPeerConnection ''first''))"

definition after_request :: PeerConn where
  "after_request = fst (the (run_task 0 False (snd after_have)))"

lemma sample_run:
  "client_run (client0 six_pieces_idle, []) (fst after_have, [after_request, NewPeerConnection ''second''])"
proof -
  let ?a = "NewPeerConnection ''first''" and ?b = "NewPeerConnection ''second''"
  have "client_step (client0 six_pieces_idle, []) (client0 six_pieces_idle, [] @ [?a])" by (rule step_connect)
  moreover have "client_step (client0 six_pieces_idle, [?a]) (client0 six_pieces_idle, [?a] @ [?b])" by (rule step_connect)
  moreover have "client_step (client0 six_pieces_idle, [?a, ?b]) (fst after_have, [?a, ?b][0 := snd after_have])"
    by (rule step_message [where flt = no_faults and peerMsg = "HavePeerMsg [0, 0, 0, 0]"])
       (simp_all add: after_have_def prod_eq_iff)
  moreover have "client_step (fst after_have, [snd after_have, ?b]) (fst after_have, [snd after_have, ?b][0 := after_request])"
  proof (rule step_task [where n = 0 and timeout = False])
    have "run_task 0 False (snd after_have) \<noteq> None" by code_simp
    then show "run_task 0 False ([snd after_have, ?b] ! 0) =
        Some (after_request, snd (the (run_task 0 False (snd after_have))))"
      by (auto simp: after_request_def)
  qed simp
  ultimately show ?thesis
    by (simp add: rtranclp.rtrancl_into_rtrancl [OF rtranclp.rtrancl_into_rtrancl [OF rtranclp.rtrancl_into_rtrancl [OF
          rtranclp.rtrancl_into_rtrancl [OF rtranclp.rtrancl_refl]]]])
qed

theorem no_piece_asked_of_two_peers_witness:
  "0 \<in> requested after_request \<and> requested after_request \<inter> requested (NewPeerConnection ''second'') = {} \<and>
   (\<exists>p. Get (cl_pieces (fst after_have)) 0 = Some p \<and> piece_downloader p = ''first'')"
proof -
  have id: "pc_toPeerId after_request = ''first''" "pc_toPeerId (NewPeerConnection ''second'') = ''second''"
    by (code_simp, simp add: NewPeerConnection_def)
  have "pc_out after_request = [RequestPeerMsg [0, 0, 0, 0, 0, 0, 0, 0, 0, 0, 0, 2]]" by code_simp
  moreover have "RequestPeerMsg_GetPieceIdx [0, 0, 0, 0, 0, 0, 0, 0, 0, 0, 0, 2] = Ok 0" by code_simp
  ultimately have "0 \<in> requested after_request" by (simp add: requested_def)
  then show ?thesis
    using no_piece_asked_of_two_peers [OF _ _ _ _ _ _ sample_run, of 2 4 2 six_info False 0 1] cut_six id by auto
qed

theorem pieces_never_regress_witness:
  "Len (cl_pieces (fst after_have)) = 2 \<and>
   (\<exists>q. Get (cl_pieces (fst after_have)) 1 = Some q \<and> piece_length q = 2 \<and> BlockCount q = 1)"
proof -
  have "sp_wf (cl_pieces (client0 six_pieces_idle))" unfolding client0_pieces by code_simp
  moreover have "Len six_pieces_idle = 2" by code_simp
  moreover have "Get six_pieces_idle 1 = Some (torrent_piece 2 4 6 2 False 1)" by (simp add: Get_def six_pieces_idle_def)
  moreover have "piece_length (torrent_piece 2 4 6 2 False 1) = 2" "BlockCount (torrent_piece 2 4 6 2 False 1) = 1"
    by code_simp+
  ultimately show ?thesis
    using pieces_never_regress [OF sample_run] by (auto split: option.splits dest!: spec [of _ 1])
qed

end
