(* ===== verification/Ledger.thy ===== *)
theory Ledger
  imports Client_Runs
begin

text \<open>
  The abstract specification of a download: a ledger that says for each piece how far it is and who downloads it, with two operations.
  Everything the client does, on any number of connections, is a sequence of these operations.
\<close>

section \<open>The specification\<close>

type_synonym pieces_ledger = "int \<rightharpoonup> PieceStatus \<times> string"

text \<open>Somebody asks for a piece that is idle, and gets it; or is refused. A piece is finished, whoever had it.\<close>

definition reserve_entry :: "pieces_ledger \<Rightarrow> int \<Rightarrow> string \<Rightarrow> (pieces_ledger \<times> bool) res" where
  "reserve_entry L i peer = (case L i of
       None \<Rightarrow> Panic NilDereference
     | Some (st, downloader) \<Rightarrow>
         if st = PIECESTATUS_IDLE then Ok (L(i \<mapsto> (PIECESTATUS_DOWNLOADING, peer)), True) else Ok (L, False))"

definition finish_entry :: "pieces_ledger \<Rightarrow> int \<Rightarrow> pieces_ledger res" where
  "finish_entry L i = (case L i of
       None \<Rightarrow> Panic NilDereference
     | Some (st, downloader) \<Rightarrow> Ok (L(i \<mapsto> (PIECESTATUS_DONE, downloader))))"

interpretation lg: reservations reserve_entry finish_entry "\<lambda>L i. map_option fst (L i)" "\<lambda>L i. map_option snd (L i)"
proof unfold_locales
  fix L :: pieces_ledger and i peer
  show "map_option fst (L i) = Some PIECESTATUS_IDLE \<Longrightarrow> \<exists>L'. reserve_entry L i peer = Ok (L', True) \<and>
      (\<lambda>i. map_option fst (L' i)) = (\<lambda>i. map_option fst (L i))(i \<mapsto> PIECESTATUS_DOWNLOADING) \<and>
      (\<lambda>i. map_option snd (L' i)) = (\<lambda>i. map_option snd (L i))(i \<mapsto> peer)"
    by (intro exI [of _ "L(i \<mapsto> (PIECESTATUS_DOWNLOADING, peer))"]) (auto simp: reserve_entry_def fun_eq_iff)
  show "map_option fst (L i) = Some a \<Longrightarrow> \<exists>L'. finish_entry L i = Ok L' \<and>
      (\<lambda>i. map_option fst (L' i)) = (\<lambda>i. map_option fst (L i))(i \<mapsto> PIECESTATUS_DONE) \<and>
      (\<lambda>i. map_option snd (L' i)) = (\<lambda>i. map_option snd (L i))" for a
    by (intro exI [of _ "L(i \<mapsto> (PIECESTATUS_DONE, snd (the (L i))))"]) (auto simp: finish_entry_def fun_eq_iff)
qed (auto simp: reserve_entry_def finish_entry_def split: option.splits)

section \<open>The store implements it\<close>

lemma ledger_update: "ledger (AList.update i q sp) = (ledger sp)(i \<mapsto> (piece_status q, piece_downloader q))"
  by (simp add: ledger_def fun_eq_iff)

lemma TryToReserve_ledger:
  "TryToReserve sp i peer = Ok (sp', ok) \<Longrightarrow> reserve_entry (ledger sp) i peer = Ok (ledger sp', ok)"
  by (auto simp: TryToReserve_def on_piece_eq reserve_entry_def ledger_update split: option.splits if_splits)
     (auto simp: ledger_def)

lemma MarkAsDone_ledger: "MarkAsDone sp i = Ok sp' \<Longrightarrow> finish_entry (ledger sp) i = Ok (ledger sp')"
  by (auto simp: MarkAsDone_def on_piece_eq finish_entry_def ledger_update split: option.splits) (auto simp: ledger_def)

section \<open>The client implements it\<close>

text \<open>The ledger changed by operations of the specification, all reservations being made for \<open>peers\<close>.\<close>

definition books :: "string set \<Rightarrow> pieces_ledger \<Rightarrow> pieces_ledger \<Rightarrow> bool" where
  "books peers L L' \<longleftrightarrow> (\<exists>es. store_run reserve_entry finish_entry L es L' \<and> (\<forall>i peer. Reserved i peer \<in> set es \<longrightarrow> peer \<in> peers))"

lemma store_run_append:
  "store_run reserve mark s es t \<Longrightarrow> store_run reserve mark t fs u \<Longrightarrow> store_run reserve mark s (es @ fs) u"
  by (induction rule: store_run.induct) (auto intro: store_run.intros)

lemma books_refl [simp]: "books peers L L"
  unfolding books_def by (intro exI [of _ "[]"]) (simp add: run_nil)

lemma books_trans:
  assumes "books peers L L'" "books peers L' L''"
  shows "books peers L L''"
proof -
  obtain es fs where "store_run reserve_entry finish_entry L es L'" "\<forall>i peer. Reserved i peer \<in> set es \<longrightarrow> peer \<in> peers"
    "store_run reserve_entry finish_entry L' fs L''" "\<forall>i peer. Reserved i peer \<in> set fs \<longrightarrow> peer \<in> peers"
    using assms unfolding books_def by blast
  then show ?thesis
    unfolding books_def by (intro exI [of _ "es @ fs"]) (auto intro: store_run_append)
qed

lemma books_mono: "books peers L L' \<Longrightarrow> peers \<subseteq> peers' \<Longrightarrow> books peers' L L'"
  unfolding books_def by blast

lemma books_TryToReserve:
  assumes "TryToReserve sp i peer = Ok (sp', ok)"
  shows "books {peer} (ledger sp) (ledger sp')"
proof -
  note step = TryToReserve_ledger [OF assms]
  show ?thesis
  proof (cases ok)
    case True
    then have "store_run reserve_entry finish_entry (ledger sp) [Reserved i peer] (ledger sp')"
      using step by (intro run_reserved [OF _ run_nil]) simp
    then show ?thesis unfolding books_def by (intro exI [of _ "[Reserved i peer]"]) simp
  next
    case False
    then have "store_run reserve_entry finish_entry (ledger sp) [Refused i peer] (ledger sp')"
      using step by (intro run_refused [OF _ run_nil]) simp
    then show ?thesis unfolding books_def by (intro exI [of _ "[Refused i peer]"]) simp
  qed
qed

lemma books_MarkAsDone:
  assumes "MarkAsDone sp i = Ok sp'"
  shows "books peers (ledger sp) (ledger sp')"
proof -
  have "store_run reserve_entry finish_entry (ledger sp) [Marked i] (ledger sp')"
    by (rule run_marked, rule MarkAsDone_ledger [OF assms], rule run_nil)
  then show ?thesis unfolding books_def by (intro exI [of _ "[Marked i]"]) simp
qed

lemma books_reserve_first:
  "reserve_first TryToReserve peer queue sp = Ok (sp', r, queue') \<Longrightarrow> books {peer} (ledger sp) (ledger sp')"
proof (induction queue arbitrary: sp)
  case (Cons i queue)
  then obtain sp1 ok where "TryToReserve sp i peer = Ok (sp1, ok)"
    "(if ok then Ok (sp1, Some i, queue) else reserve_first TryToReserve peer queue sp1) = Ok (sp', r, queue')"
    by (auto simp: res_bind_eq_Ok)
  then show ?case
    using books_TryToReserve [of sp i peer sp1 ok] Cons.IH [of sp1] books_trans [of "{peer}"] by (auto split: if_splits)
qed auto

definition booked :: "Client \<times> PeerConn \<Rightarrow> Client \<times> PeerConn \<Rightarrow> bool" where
  "booked = (\<lambda>(cl, pc) (cl', pc'). pc_toPeerId pc' = pc_toPeerId pc \<and>
     books {pc_toPeerId pc} (ledger (cl_pieces cl)) (ledger (cl_pieces cl')))"

lemma booked_next: "booked s (fst (RequestNextPiece s))"
proof -
  obtain cl pc where s: "s = (cl, pc)" by (cases s)
  have "booked (cl, pc) (fst (RequestNextPiece (cl, pc)))"
    by (cases rule: RequestNextPiece_cases [of pc cl])
       (auto simp: booked_def mark_downloading_def set_pieces_def books_reserve_first)
  then show ?thesis by (simp add: s)
qed

interpretation bk: handler_steps booked
proof unfold_locales
  show "booked s t \<Longrightarrow> booked t u \<Longrightarrow> booked s u" for s t u
    by (auto simp: booked_def intro: books_trans)
  show "conn_quiet pc pc' \<Longrightarrow> booked (cl, pc) (cl, pc')" for pc pc' cl
    by (simp add: booked_def conn_quiet_def conn_le_def)
  show "booked s (mark_downloading d s)" for d s by (cases s) (simp add: booked_def mark_downloading_def)
  show "booked s (fst (RequestNextPiece s))" for s by (rule booked_next)
qed (auto simp: booked_def files_le_def set_pieces_def books_MarkAsDone)

lemma booked_client:
  assumes "booked (cl, pcs ! k) (cl', pc')" "k < length pcs"
  shows "books (pc_toPeerId ` set pcs) (ledger (cl_pieces cl)) (ledger (cl_pieces cl')) \<and>
    pc_toPeerId ` set (pcs[k := pc']) = pc_toPeerId ` set pcs"
proof -
  have "pc_toPeerId pc' = pc_toPeerId (pcs ! k)" using assms(1) by (simp add: booked_def)
  then have "map pc_toPeerId (pcs[k := pc']) = map pc_toPeerId pcs"
    using assms(2) by (simp add: map_update list_update_same_conv)
  from arg_cong [OF this, of set] have ids: "pc_toPeerId ` set (pcs[k := pc']) = pc_toPeerId ` set pcs" by simp
  have "{pc_toPeerId (pcs ! k)} \<subseteq> pc_toPeerId ` set pcs" using assms(2) by simp
  then show ?thesis using assms(1) ids books_mono by (auto simp: booked_def)
qed

text \<open>A step of the client, and a run.\<close>

lemma client_step_books:
  assumes "client_step (cl, pcs) (cl', pcs')"
  shows "books (pc_toPeerId ` set pcs') (ledger (cl_pieces cl)) (ledger (cl_pieces cl')) \<and>
    pc_toPeerId ` set pcs \<subseteq> pc_toPeerId ` set pcs'"
  using assms
proof cases
  case (step_connect peerId)
  then show ?thesis by auto
next
  case (step_message k flt m pc' r)
  then have "booked (cl, pcs ! k) (cl', pc')"
    using bk.advances_at [OF bk.advances_DefaultPeerMsgFunc, of "(cl, pcs ! k)" flt m] by simp
  from booked_client [OF this step_message(2)] show ?thesis using step_message(1) by simp
next
  case (step_task k n timeout pc' r)
  have "pc_toPeerId pc' = pc_toPeerId (pcs ! k)"
    using run_task_conn_le [OF step_task(4)] by (simp add: conn_le_def)
  then have "map pc_toPeerId pcs' = map pc_toPeerId pcs"
    using step_task(2,3) by (simp add: map_update list_update_same_conv)
  from arg_cong [OF this, of set] have "pc_toPeerId ` set pcs' = pc_toPeerId ` set pcs" by simp
  then show ?thesis using step_task(1) by simp
qed

lemma client_run_books:
  "client_run s t \<Longrightarrow> books (pc_toPeerId ` set (snd t)) (ledger (cl_pieces (fst s))) (ledger (cl_pieces (fst t))) \<and>
    pc_toPeerId ` set (snd s) \<subseteq> pc_toPeerId ` set (snd t)"
proof (induction rule: rtranclp_induct)
  case (step t u)
  have "client_step (fst t, snd t) (fst u, snd u)" using step.hyps(2) by simp
  note one = client_step_books [OF this]
  have "books (pc_toPeerId ` set (snd u)) (ledger (cl_pieces (fst s))) (ledger (cl_pieces (fst t)))"
    by (rule books_mono [OF conjunct1 [OF step.IH] conjunct2 [OF one]])
  from books_trans [OF this conjunct1 [OF one]] show ?case using step.IH one by simp blast
qed simp

section \<open>Properties\<close>

text \<open>
  The client refines the ledger: whatever messages arrive on its connections and however its goroutines run, what happened to the pieces is a
  sequence of the two operations of the specification, in which every reservation was made for the peer of one of its connections and no
  piece was reserved twice.
\<close>

theorem client_refines_ledger:
  assumes "client_run (cl, pcs) (cl', pcs')"
  shows "\<exists>es. store_run reserve_entry finish_entry (ledger (cl_pieces cl)) es (ledger (cl_pieces cl')) \<and>
    (\<forall>i peer. Reserved i peer \<in> set es \<longrightarrow> peer \<in> pc_toPeerId ` set pcs') \<and>
    (\<forall>i. length (filter (\<lambda>e. \<exists>peer. e = Reserved i peer) es) \<le> 1)"
proof -
  obtain es where es: "store_run reserve_entry finish_entry (ledger (cl_pieces cl)) es (ledger (cl_pieces cl'))"
      "\<forall>i peer. Reserved i peer \<in> set es \<longrightarrow> peer \<in> pc_toPeerId ` set pcs'"
    using client_run_books [OF assms] unfolding books_def by auto
  then show ?thesis using lg.run_reserved_once [OF es(1)] by blast
qed

theorem client_refines_ledger_witness:
  "\<exists>es. store_run reserve_entry finish_entry (ledger six_pieces_idle) es (ledger (cl_pieces (fst after_have))) \<and>
    (\<forall>i peer. Reserved i peer \<in> set es \<longrightarrow> peer \<in> {''first'', ''second''})"
proof -
  have "pc_toPeerId after_request = ''first''" "pc_toPeerId (NewPeerConnection ''second'') = ''second''"
    by (code_simp, simp add: NewPeerConnection_def)
  then show ?thesis using client_refines_ledger [OF sample_run] by auto
qed

end
