(* ===== verification/Download.thy ===== *)
theory Download
  imports Client_Runs
begin

text \<open>
  How a piece is downloaded: the PIECE messages of its blocks arrive on a connection, in any order, and the last one finishes the
  piece. \<open>awaiting\<close> is the state of a requester that has asked for some blocks and has not received them.
\<close>

section \<open>Receiving blocks\<close>

definition awaiting :: "PeerConn \<Rightarrow> nat \<Rightarrow> Block list \<Rightarrow> bool" where
  "awaiting pc r bs \<longleftrightarrow> pc_blockRequester pc = Some r \<and> r < length (pc_requesters pc) \<and>
     \<not> rq_locked (pc_requesters pc ! r) \<and> rq_fullPieceDownloadedChan (pc_requesters pc ! r) = None \<and>
     distinct (map (\<lambda>b. rq_data (pc_requesters pc ! r) (blk_Idx b)) bs) \<and>
     (\<forall>b \<in> set bs. \<exists>ch. rq_data (pc_requesters pc ! r) (blk_Idx b) = Some ch \<and> ch < length (pc_chans pc) \<and>
        pc_chans pc ! ch = \<lparr>ch_count = 0, ch_closed = False\<rparr>)"

definition blocks_left :: "PeerConn \<Rightarrow> nat \<Rightarrow> int" where
  "blocks_left pc r = rq_blocksLeft (pc_requesters pc ! r)"

text \<open>Nothing but the channels and the count of the requester changes.\<close>

definition same_conn :: "PeerConn \<Rightarrow> PeerConn \<Rightarrow> bool" where
  "same_conn pc pc' \<longleftrightarrow> pc_queue pc' = pc_queue pc \<and> pc_toPeerId pc' = pc_toPeerId pc \<and> pc_tasks pc' = pc_tasks pc \<and>
     pc_out pc' = pc_out pc \<and> pc_errs pc' = pc_errs pc \<and> pc_misfires pc' = pc_misfires pc \<and> pc_blockRequester pc' = pc_blockRequester pc \<and>
     length (pc_requesters pc') = length (pc_requesters pc) \<and>
     map rq_totalNumOfBlocks (pc_requesters pc') = map rq_totalNumOfBlocks (pc_requesters pc)"

lemma same_conn_refl [simp]: "same_conn pc pc"
  by (simp add: same_conn_def)

lemma same_conn_trans: "same_conn a b \<Longrightarrow> same_conn b c \<Longrightarrow> same_conn a c"
  by (simp add: same_conn_def)

lemma onBlockReceive_awaiting:
  assumes "awaiting pc r (b # bs)"
  shows "\<exists>pc'. onBlockReceive (pc_blockRequester pc) b pc = (pc', Ok ()) \<and> awaiting pc' r bs \<and>
    blocks_left pc' r = blocks_left pc r - 1 \<and> same_conn pc pc'"
proof -
  let ?rq = "pc_requesters pc ! r"
  obtain ch where ch: "rq_data ?rq (blk_Idx b) = Some ch" "ch < length (pc_chans pc)"
    "pc_chans pc ! ch = \<lparr>ch_count = 0, ch_closed = False\<rparr>"
    using assms by (auto simp: awaiting_def)
  let ?rq' = "?rq\<lparr>rq_blocksLeft := rq_blocksLeft ?rq - 1\<rparr>"
  let ?pc = "set_requester r ?rq' (pc\<lparr>pc_chans := (pc_chans pc)[ch := \<lparr>ch_count = 1, ch_closed = True\<rparr>]\<rparr>)"
  have r: "pc_blockRequester pc = Some r" "r < length (pc_requesters pc)" "\<not> rq_locked ?rq"
    "rq_fullPieceDownloadedChan ?rq = None"
    using assms by (auto simp: awaiting_def)
  then have "onBlockReceive (pc_blockRequester pc) b pc = (?pc, Ok ())"
    using ch by (simp add: onBlockReceive_def with_requester_def Let_def)
  moreover have "awaiting ?pc r bs"
  proof -
    have "\<exists>ch'. rq_data ?rq (blk_Idx c) = Some ch' \<and> ch' < length (pc_chans pc) \<and>
        (pc_chans pc)[ch := \<lparr>ch_count = 1, ch_closed = True\<rparr>] ! ch' = \<lparr>ch_count = 0, ch_closed = False\<rparr>"
      if c: "c \<in> set bs" for c
    proof -
      obtain ch' where ch': "rq_data ?rq (blk_Idx c) = Some ch'" "ch' < length (pc_chans pc)"
          "pc_chans pc ! ch' = \<lparr>ch_count = 0, ch_closed = False\<rparr>"
        using assms c by (auto simp: awaiting_def)
      have "rq_data ?rq (blk_Idx b) \<notin> (\<lambda>b. rq_data ?rq (blk_Idx b)) ` set bs" using assms by (simp add: awaiting_def)
      then have "rq_data ?rq (blk_Idx c) \<noteq> rq_data ?rq (blk_Idx b)" using c by (metis imageI)
      then show ?thesis using ch ch' by (intro exI [of _ ch']) simp
    qed
    then show ?thesis using assms r by (simp add: awaiting_def set_requester_def)
  qed
  moreover have "same_conn pc ?pc"
    using r by (simp add: same_conn_def set_requester_def map_update list_update_same_conv)
  ultimately show ?thesis using r by (intro exI [of _ ?pc]) (simp add: blocks_left_def set_requester_def)
qed

lemma BlocksLeft_awaiting:
  "awaiting pc r bs \<Longrightarrow> BlocksLeft (pc_blockRequester pc) pc = (pc, Ok (blocks_left pc r))"
  by (simp add: awaiting_def BlocksLeft_def with_requester_def blocks_left_def)

lemma client_fs_update [simp]: "cl\<lparr>cl_FileInfo := cl_FileInfo cl, cl_fs := fs\<rparr> = cl\<lparr>cl_fs := fs\<rparr>"
  by simp

text \<open>One PIECE message: the block is counted and saved, and when it was the last one the piece is finished.\<close>

lemma piece_message:
  assumes "PiecePeerMsg_GetBlock payload = Ok b" "awaiting pc r (b # bs)"
    and "SaveBlock flt (cl_FileInfo cl) b (cl_fs cl) = (fs', Ok ())"
  shows "\<exists>pc'. handlePeerPieceMessage flt payload (cl, pc) =
      (if blocks_left pc r = 1 then finish_piece flt (Some r) (blk_PieceIdx b) (cl\<lparr>cl_fs := fs'\<rparr>, pc')
       else ((cl\<lparr>cl_fs := fs'\<rparr>, pc'), Ok ())) \<and>
    awaiting pc' r bs \<and> blocks_left pc' r = blocks_left pc r - 1 \<and> same_conn pc pc'"
proof -
  obtain pc' where pc': "onBlockReceive (pc_blockRequester pc) b pc = (pc', Ok ())" "awaiting pc' r bs"
    "blocks_left pc' r = blocks_left pc r - 1" "same_conn pc pc'"
    using onBlockReceive_awaiting [OF assms(2)] by blast
  have ptr: "pc_blockRequester pc = Some r" "pc_blockRequester pc' = Some r"
    using assms(2) pc'(2) by (simp_all add: awaiting_def)
  have "handlePeerPieceMessage flt payload (cl, pc) =
      (if blocks_left pc r = 1 then finish_piece flt (Some r) (blk_PieceIdx b) (cl\<lparr>cl_fs := fs'\<rparr>, pc')
       else ((cl\<lparr>cl_fs := fs'\<rparr>, pc'), Ok ()))"
    using pc'(1) BlocksLeft_awaiting [OF pc'(2)] assms(1,3) pc'(3) ptr
    by (simp add: handlePeerPieceMessage_def act_bind_def ret_def on_conn_def on_files_def)
  with pc' show ?thesis by blast
qed

text \<open>Several of them, when the requester counts more blocks than arrive.\<close>

lemma piece_messages:
  assumes "list_all2 (\<lambda>payload b. PiecePeerMsg_GetBlock payload = Ok b) ps bs" "awaiting pc r (bs @ cs)"
    and "int (length bs) < blocks_left pc r" "for_act (SaveBlock flt (cl_FileInfo cl)) bs (cl_fs cl) = (fs', Ok ())"
  shows "\<exists>pc'. for_act (handlePeerPieceMessage flt) ps (cl, pc) = ((cl\<lparr>cl_fs := fs'\<rparr>, pc'), Ok ()) \<and>
    awaiting pc' r cs \<and> blocks_left pc' r = blocks_left pc r - int (length bs) \<and> same_conn pc pc'"
  using assms
proof (induction ps bs arbitrary: cl pc rule: list_all2_induct)
  case Nil
  then show ?case by auto
next
  case (Cons p ps b bs)
  obtain fs1 where fs1: "SaveBlock flt (cl_FileInfo cl) b (cl_fs cl) = (fs1, Ok ())"
      "for_act (SaveBlock flt (cl_FileInfo cl)) bs fs1 = (fs', Ok ())"
    using Cons.prems(3) by (auto simp: act_bind_eq_Ok)
  have await: "awaiting pc r (b # (bs @ cs))" using Cons.prems(1) by simp
  obtain pc1 where pc1: "handlePeerPieceMessage flt p (cl, pc) = ((cl\<lparr>cl_fs := fs1\<rparr>, pc1), Ok ())"
      "awaiting pc1 r (bs @ cs)" "blocks_left pc1 r = blocks_left pc r - 1" "same_conn pc pc1"
    using piece_message [OF Cons.hyps(1) await fs1(1)] Cons.prems(2) by auto
  obtain pc2 where "for_act (handlePeerPieceMessage flt) ps (cl\<lparr>cl_fs := fs1\<rparr>, pc1) = ((cl\<lparr>cl_fs := fs'\<rparr>, pc2), Ok ())"
      "awaiting pc2 r cs" "blocks_left pc2 r = blocks_left pc1 r - int (length bs)" "same_conn pc1 pc2"
    using Cons.IH [of pc1 "cl\<lparr>cl_fs := fs1\<rparr>"] pc1(2,3) Cons.prems(2) fs1(2) by auto
  then show ?case
    using pc1 same_conn_trans [OF pc1(4)] by (intro exI [of _ pc2]) (simp add: act_bind_Ok)
qed

text \<open>All the blocks the requester counts: the last message finishes the piece, with everything saved.\<close>

lemma all_piece_messages:
  assumes "list_all2 (\<lambda>payload b. PiecePeerMsg_GetBlock payload = Ok b) ps bs" "awaiting pc r bs" "bs \<noteq> []"
    and "blocks_left pc r = int (length bs)" "for_act (SaveBlock flt (cl_FileInfo cl)) bs (cl_fs cl) = (fs', Ok ())"
    and "\<forall>b \<in> set bs. blk_PieceIdx b = i"
  shows "\<exists>pc'. for_act (handlePeerPieceMessage flt) ps (cl, pc) = finish_piece flt (Some r) i (cl\<lparr>cl_fs := fs'\<rparr>, pc') \<and>
    awaiting pc' r [] \<and> blocks_left pc' r = 0 \<and> same_conn pc pc'"
proof -
  obtain bs0 b where bs: "bs = bs0 @ [b]" using assms(3) by (cases bs rule: rev_cases) auto
  then obtain ps0 p where ps: "ps = ps0 @ [p]" "list_all2 (\<lambda>payload b. PiecePeerMsg_GetBlock payload = Ok b) ps0 bs0"
      "PiecePeerMsg_GetBlock p = Ok b"
    using assms(1) by (auto simp: list_all2_append2 list_all2_Cons2)
  obtain fs1 where fs1: "for_act (SaveBlock flt (cl_FileInfo cl)) bs0 (cl_fs cl) = (fs1, Ok ())"
      "SaveBlock flt (cl_FileInfo cl) b fs1 = (fs', Ok ())"
    using assms(5) unfolding bs for_act_append by (auto simp: act_bind_eq_Ok)
  obtain pc1 where pc1: "for_act (handlePeerPieceMessage flt) ps0 (cl, pc) = ((cl\<lparr>cl_fs := fs1\<rparr>, pc1), Ok ())"
      "awaiting pc1 r [b]" "blocks_left pc1 r = blocks_left pc r - int (length bs0)" "same_conn pc pc1"
    using piece_messages [OF ps(2) _ _ fs1(1), of pc r "[b]"] assms(2,4) bs by auto
  obtain pc2 where "handlePeerPieceMessage flt p (cl\<lparr>cl_fs := fs1\<rparr>, pc1) =
        finish_piece flt (Some r) i (cl\<lparr>cl_fs := fs'\<rparr>, pc2)"
      "awaiting pc2 r []" "blocks_left pc2 r = 0" "same_conn pc1 pc2"
    using piece_message [OF ps(3) pc1(2), of flt "cl\<lparr>cl_fs := fs1\<rparr>" fs'] fs1(2) pc1(3) assms(4,6) bs by auto
  moreover have "for_act f [x] s = f x s" for f :: "bytes \<Rightarrow> unit handler" and x s
    by (cases "f x s"; cases "snd (f x s)") (auto simp: act_bind_def)
  ultimately show ?thesis
    using pc1(1) same_conn_trans [OF pc1(4)] unfolding ps(1) by (intro exI [of _ pc2]) (simp add: for_act_append act_bind_Ok)
qed

section \<open>Finishing a piece\<close>

lemma reset_awaiting:
  assumes "awaiting pc r bs"
  shows "\<exists>pc'. reset (Some r) pc = (pc', Ok ()) \<and> blocks_left pc' r = rq_totalNumOfBlocks (pc_requesters pc ! r) \<and>
    same_conn pc pc' \<and> awaiting pc' r bs"
proof -
  let ?rq = "pc_requesters pc ! r"
  let ?pc = "set_requester r (?rq\<lparr>rq_blocksLeft := rq_totalNumOfBlocks ?rq\<rparr>) pc"
  have r: "r < length (pc_requesters pc)" using assms by (simp add: awaiting_def)
  have "same_conn pc ?pc" using r by (simp add: same_conn_def set_requester_def map_update list_update_same_conv)
  moreover have "awaiting ?pc r bs" using assms r by (simp add: awaiting_def set_requester_def)
  ultimately show ?thesis
    using r by (intro exI [of _ ?pc]) (simp add: reset_def with_requester_def blocks_left_def set_requester_def)
qed

lemma finish_piece_eq:
  assumes "awaiting pc r bs" "MarkAsDone (cl_pieces cl) i = Ok sp"
  shows "\<exists>pc'. finish_piece flt (Some r) i (cl, pc) =
      (if TotalUndonePiecesLeft sp \<noteq> 0 then ignore_result RequestNextPiece (set_pieces sp cl, pc')
       else on_files (DefaultFinalizeFunc flt) (mark_downloading False (set_pieces sp cl, pc'))) \<and>
    blocks_left pc' r = rq_totalNumOfBlocks (pc_requesters pc ! r) \<and> same_conn pc pc' \<and> awaiting pc' r bs"
proof -
  obtain pc' where pc': "reset (Some r) pc = (pc', Ok ())" "blocks_left pc' r = rq_totalNumOfBlocks (pc_requesters pc ! r)"
    "same_conn pc pc'" "awaiting pc' r bs"
    using reset_awaiting [OF assms(1)] by blast
  then show ?thesis
    using assms(2)
    by (intro exI [of _ pc']) (simp add: finish_piece_def act_bind_def on_conn_def set_pieces_def Let_def)
qed

text \<open>What \<open>RequestNextPiece\<close> does when every queued index has a piece: it takes the first idle one.\<close>

lemma RequestNextPiece_result:
  assumes "\<forall>i \<in> set (pc_queue pc). Get (cl_pieces cl) i \<noteq> None"
  shows "case dropWhile (\<lambda>i. status_at (cl_pieces cl) i \<noteq> Some PIECESTATUS_IDLE) (pc_queue pc) of
      [] \<Rightarrow> \<exists>pc'. RequestNextPiece (cl, pc) = ((cl\<lparr>cl_isDownloading := False\<rparr>, pc'), Ok 0) \<and> pc_queue pc' = [] \<and>
        pc_tasks pc' = pc_tasks pc
    | i # rest \<Rightarrow> \<exists>sp p pc'. RequestNextPiece (cl, pc) =
          (((set_pieces sp cl)\<lparr>cl_isDownloading := True\<rparr>, pc'), Ok (BlockCount p)) \<and>
        status_at sp = (status_at (cl_pieces cl))(i \<mapsto> PIECESTATUS_DOWNLOADING) \<and> Get sp i = Some p \<and>
        piece_downloader p = pc_toPeerId pc \<and> pc_queue pc' = rest \<and>
        pc_tasks pc' = pc_tasks pc @ map (RequestTask (pc_blockRequester pc)) (piece_blocks p) \<and>
        pc_requesters pc' = pc_requesters pc \<and> pc_chans pc' = pc_chans pc \<and> pc_out pc' = pc_out pc"
proof -
  let ?drop = "dropWhile (\<lambda>i. status_at (cl_pieces cl) i \<noteq> Some PIECESTATUS_IDLE) (pc_queue pc)"
  let ?res = "reserve_first TryToReserve (pc_toPeerId pc) (pc_queue pc) (cl_pieces cl)"
  have "\<forall>i \<in> set (pc_queue pc). status_at (cl_pieces cl) i \<noteq> None"
    using assms by (simp add: status_at_def)
  note res = sp.reserve_first_result [OF this, of "pc_toPeerId pc"]
  show ?thesis
  proof (cases ?drop)
    case Nil
    then have "?res = Ok (cl_pieces cl, None, [])" using res by (simp only: list.case)
    then show ?thesis unfolding Nil list.case
      by (simp add: RequestNextPiece_def mark_downloading_def set_pieces_def)
  next
    case (Cons i rest)
    then obtain sp where sp: "?res = Ok (sp, Some i, rest)" "status_at sp = (status_at (cl_pieces cl))(i \<mapsto> PIECESTATUS_DOWNLOADING)"
      using res by auto
    have ne: "pc_queue pc \<noteq> []" using Cons by auto
    obtain p where p: "Get sp i = Some p" "piece_downloader p = pc_toPeerId pc"
      using reserve_first_owned [OF sp(1)] by (auto simp: owned_def)
    then show ?thesis
      using sp ne unfolding Cons list.case
      by (intro exI [of _ sp] exI [of _ p]) (auto simp: RequestNextPiece_def mark_downloading_def)
  qed
qed

end
