(* ===== verification/Whole_Download.thy ===== *)
theory Whole_Download
  imports Download PeerMsg_Properties
begin

text \<open>
  A whole download on one connection: the remote peer announces its pieces, the client's goroutines request the blocks of one piece
  after the other, the PIECE messages of each piece arrive in any order, and the client assembles the file.
\<close>

section \<open>Schedules\<close>

text \<open>
  What happens next on a connection: a message arrives, the \<open>n\<close>-th of the goroutines that were started runs, or its timeout is reached.
\<close>

datatype event = Receive PeerMsg | Run nat | Timeout nat

text \<open>A schedule that lets a goroutine run that cannot run blocks there.\<close>

fun exec_event :: "faults \<Rightarrow> event \<Rightarrow> unit handler" where
  "exec_event flt (Receive m) s = DefaultPeerMsgFunc flt m s"
| "exec_event flt (Run n) (cl, pc) =
     (case run_task n False pc of None \<Rightarrow> ((cl, pc), Hang) | Some (pc', r) \<Rightarrow> ((cl, pc'), r))"
| "exec_event flt (Timeout n) (cl, pc) =
     (case run_task n True pc of None \<Rightarrow> ((cl, pc), Hang) | Some (pc', r) \<Rightarrow> ((cl, pc'), r))"

abbreviation exec :: "faults \<Rightarrow> event list \<Rightarrow> unit handler" where
  "exec flt \<equiv> for_act (exec_event flt)"

lemma exec_event_step:
  assumes "exec_event flt e (cl, pc) = ((cl', pc'), Ok ())"
  shows "client_step (cl, [pc]) (cl', [pc'])"
proof (cases e)
  case (Receive m)
  then show ?thesis
    using step_message [of 0 "[pc]" flt m cl cl' pc' "Ok ()"] assms by simp
next
  case (Run n)
  then show ?thesis
    using step_task [of 0 "[pc]" n False pc' "Ok ()" cl] assms by (auto split: option.splits)
next
  case (Timeout n)
  then show ?thesis
    using step_task [of 0 "[pc]" n True pc' "Ok ()" cl] assms by (auto split: option.splits)
qed

lemma exec_run:
  "exec flt es (cl, pc) = ((cl', pc'), Ok ()) \<Longrightarrow> client_run (cl, [pc]) (cl', [pc'])"
proof (induction es arbitrary: cl pc)
  case (Cons e es)
  then obtain cl1 pc1 where "exec_event flt e (cl, pc) = ((cl1, pc1), Ok ())" "exec flt es (cl1, pc1) = ((cl', pc'), Ok ())"
    by (auto simp: act_bind_eq_Ok)
  then show ?case using Cons.IH exec_event_step by (meson converse_rtranclp_into_rtranclp)
qed simp

section \<open>Requesting the blocks of a piece\<close>

text \<open>The REQUEST message of a block, and the goroutine that waits for it on the channel \<open>ch\<close>.\<close>

definition request_msg :: "Block \<Rightarrow> PeerMsg" where
  "request_msg b = RequestPeerMsg (PutUint32 (word_of_int (blk_PieceIdx b)) @ PutUint32 (blk_Begin b) @ PutUint32 (blk_Length b))"

lemma request_awaiting:
  assumes "awaiting pc r bs" "blk_Idx b \<notin> blk_Idx ` set bs"
  shows "\<exists>pc'. request (Some r) b pc = (pc', Ok ()) \<and> awaiting pc' r (bs @ [b]) \<and> blocks_left pc' r = blocks_left pc r \<and>
    rq_totalNumOfBlocks (pc_requesters pc' ! r) = rq_totalNumOfBlocks (pc_requesters pc ! r) \<and>
    pc_queue pc' = pc_queue pc \<and> pc_toPeerId pc' = pc_toPeerId pc \<and> pc_misfires pc' = pc_misfires pc \<and>
    pc_errs pc' = pc_errs pc \<and> pc_out pc' = pc_out pc @ [request_msg b] \<and>
    (\<exists>ch. pc_tasks pc' = pc_tasks pc @ [WaitTask r b ch])"
proof -
  let ?rq = "pc_requesters pc ! r" and ?ch = "length (pc_chans pc)"
  let ?rq' = "?rq\<lparr>rq_data := (rq_data ?rq)(blk_Idx b \<mapsto> ?ch)\<rparr>"
  let ?pc = "WritePeerMsg (request_msg b)
     (set_requester r ?rq' (pc\<lparr>pc_chans := pc_chans pc @ [\<lparr>ch_count = 0, ch_closed = False\<rparr>]\<rparr>))"
  let ?pc' = "?pc\<lparr>pc_tasks := pc_tasks ?pc @ [WaitTask r b ?ch]\<rparr>"
  have r: "pc_blockRequester pc = Some r" "r < length (pc_requesters pc)" "\<not> rq_locked ?rq"
    "rq_fullPieceDownloadedChan ?rq = None" "distinct (map (\<lambda>b. rq_data ?rq (blk_Idx b)) bs)"
    and old: "\<forall>b \<in> set bs. \<exists>ch. rq_data ?rq (blk_Idx b) = Some ch \<and> ch < ?ch \<and>
        pc_chans pc ! ch = \<lparr>ch_count = 0, ch_closed = False\<rparr>"
    using assms(1) by (auto simp: awaiting_def)
  have "request (Some r) b pc = (?pc', Ok ())"
    using r by (simp add: request_def with_requester_def BuildPeerRequestMsg_def request_msg_def Let_def)
  moreover have "awaiting ?pc' r (bs @ [b])"
  proof -
    have same: "map (\<lambda>b. rq_data ?rq' (blk_Idx b)) bs = map (\<lambda>b. rq_data ?rq (blk_Idx b)) bs"
      using assms(2) by (auto simp: image_iff)
    have new: "Some ?ch \<notin> (\<lambda>b. rq_data ?rq (blk_Idx b)) ` set bs"
    proof
      assume "Some ?ch \<in> (\<lambda>b. rq_data ?rq (blk_Idx b)) ` set bs"
      then obtain c where "c \<in> set bs" "rq_data ?rq (blk_Idx c) = Some ?ch" by auto
      with old show False by fastforce
    qed
    have "\<exists>ch. rq_data ?rq' (blk_Idx c) = Some ch \<and> ch < Suc ?ch \<and>
        (pc_chans pc @ [\<lparr>ch_count = 0, ch_closed = False\<rparr>]) ! ch = \<lparr>ch_count = 0, ch_closed = False\<rparr>"
      if "c \<in> set (bs @ [b])" for c
    proof (cases "c \<in> set bs")
      case True
      then obtain ch where "rq_data ?rq (blk_Idx c) = Some ch" "ch < ?ch" "pc_chans pc ! ch = \<lparr>ch_count = 0, ch_closed = False\<rparr>"
        using old by blast
      then show ?thesis using assms(2) True by (intro exI [of _ ch]) (auto simp: nth_append image_iff)
    qed (use that in auto)
    moreover have "distinct (map (\<lambda>b. rq_data ?rq' (blk_Idx b)) (bs @ [b]))"
      unfolding map_append same using r(5) new by auto
    ultimately show ?thesis
      using r(1-4) by (simp add: awaiting_def set_requester_def WritePeerMsg_def del: fun_upd_apply)
  qed
  ultimately show ?thesis
    using r by (intro exI [of _ ?pc']) (simp add: blocks_left_def set_requester_def WritePeerMsg_def)
qed

text \<open>The goroutines of all blocks of a piece run: they are asked for in turn, and one goroutine waits for each.\<close>

lemma run_request:
  assumes "pc_tasks pc = ws @ RequestTask (Some r) b # ts" "awaiting pc r bs" "blk_Idx b \<notin> blk_Idx ` set bs"
  shows "\<exists>pc' ch. exec_event flt (Run (length ws)) (cl, pc) = ((cl, pc'), Ok ()) \<and>
    pc_tasks pc' = ws @ ts @ [WaitTask r b ch] \<and> awaiting pc' r (bs @ [b]) \<and> blocks_left pc' r = blocks_left pc r \<and>
    rq_totalNumOfBlocks (pc_requesters pc' ! r) = rq_totalNumOfBlocks (pc_requesters pc ! r) \<and>
    pc_queue pc' = pc_queue pc \<and> pc_toPeerId pc' = pc_toPeerId pc \<and> pc_misfires pc' = pc_misfires pc \<and>
    pc_errs pc' = pc_errs pc \<and> pc_out pc' = pc_out pc @ [request_msg b]"
proof -
  let ?pc = "pc\<lparr>pc_tasks := ws @ ts\<rparr>"
  have "awaiting ?pc r bs" "blocks_left ?pc r = blocks_left pc r" using assms(2) by (simp_all add: awaiting_def blocks_left_def)
  from request_awaiting [OF this(1) assms(3)] this(2) obtain pc' ch where pc': "request (Some r) b ?pc = (pc', Ok ())"
      "awaiting pc' r (bs @ [b])" "blocks_left pc' r = blocks_left pc r"
      "rq_totalNumOfBlocks (pc_requesters pc' ! r) = rq_totalNumOfBlocks (pc_requesters pc ! r)"
      "pc_queue pc' = pc_queue pc" "pc_toPeerId pc' = pc_toPeerId pc" "pc_misfires pc' = pc_misfires pc"
      "pc_errs pc' = pc_errs pc" "pc_out pc' = pc_out pc @ [request_msg b]" "pc_tasks pc' = ws @ ts @ [WaitTask r b ch]"
    by auto
  have "run_task (length ws) False pc = Some (request (Some r) b ?pc)"
    unfolding run_task_def using assms(1) by (simp add: nth_append)
  then show ?thesis using pc' by (intro exI [of _ pc'] exI [of _ ch]) simp
qed

lemma run_requests:
  assumes "pc_tasks pc = ws @ map (RequestTask (Some r)) bs" "awaiting pc r as" "distinct (map blk_Idx (as @ bs))"
  shows "\<exists>pc' ts. exec flt (replicate (length bs) (Run (length ws))) (cl, pc) = ((cl, pc'), Ok ()) \<and>
    pc_tasks pc' = ws @ ts \<and> length ts = length bs \<and> awaiting pc' r (as @ bs) \<and> blocks_left pc' r = blocks_left pc r \<and>
    rq_totalNumOfBlocks (pc_requesters pc' ! r) = rq_totalNumOfBlocks (pc_requesters pc ! r) \<and>
    pc_queue pc' = pc_queue pc \<and> pc_toPeerId pc' = pc_toPeerId pc \<and> pc_misfires pc' = pc_misfires pc \<and>
    pc_errs pc' = pc_errs pc \<and> pc_out pc' = pc_out pc @ map request_msg bs"
proof -
  have "\<exists>pc' us. exec flt (replicate (length bs) (Run (length ws))) (cl, pc) = ((cl, pc'), Ok ()) \<and>
    pc_tasks pc' = ws @ ts @ us \<and> length us = length bs \<and> awaiting pc' r (as @ bs) \<and> blocks_left pc' r = blocks_left pc r \<and>
    rq_totalNumOfBlocks (pc_requesters pc' ! r) = rq_totalNumOfBlocks (pc_requesters pc ! r) \<and>
    pc_queue pc' = pc_queue pc \<and> pc_toPeerId pc' = pc_toPeerId pc \<and> pc_misfires pc' = pc_misfires pc \<and>
    pc_errs pc' = pc_errs pc \<and> pc_out pc' = pc_out pc @ map request_msg bs"
    if "pc_tasks pc = ws @ map (RequestTask (Some r)) bs @ ts" "awaiting pc r as" "distinct (map blk_Idx (as @ bs))"
    for pc ts as bs
    using that
  proof (induction bs arbitrary: pc ts as)
    case (Cons b bs)
    have "blk_Idx b \<notin> blk_Idx ` set as" using Cons.prems(3) by auto
    then obtain pc1 ch where pc1: "exec_event flt (Run (length ws)) (cl, pc) = ((cl, pc1), Ok ())"
      "pc_tasks pc1 = ws @ map (RequestTask (Some r)) bs @ (ts @ [WaitTask r b ch])" "awaiting pc1 r (as @ [b])"
      "blocks_left pc1 r = blocks_left pc r"
      "rq_totalNumOfBlocks (pc_requesters pc1 ! r) = rq_totalNumOfBlocks (pc_requesters pc ! r)"
      "pc_queue pc1 = pc_queue pc" "pc_toPeerId pc1 = pc_toPeerId pc" "pc_misfires pc1 = pc_misfires pc"
      "pc_errs pc1 = pc_errs pc" "pc_out pc1 = pc_out pc @ [request_msg b]"
      using run_request [of pc ws r b "map (RequestTask (Some r)) bs @ ts" as flt cl] Cons.prems by auto
    have "distinct (map blk_Idx ((as @ [b]) @ bs))" using Cons.prems(3) by auto
    from Cons.IH [OF pc1(2,3) this] obtain pc2 us where
      "exec flt (replicate (length bs) (Run (length ws))) (cl, pc1) = ((cl, pc2), Ok ())"
      "pc_tasks pc2 = ws @ (ts @ [WaitTask r b ch]) @ us" "length us = length bs" "awaiting pc2 r ((as @ [b]) @ bs)"
      "blocks_left pc2 r = blocks_left pc1 r"
      "rq_totalNumOfBlocks (pc_requesters pc2 ! r) = rq_totalNumOfBlocks (pc_requesters pc1 ! r)"
      "pc_queue pc2 = pc_queue pc1" "pc_toPeerId pc2 = pc_toPeerId pc1" "pc_misfires pc2 = pc_misfires pc1"
      "pc_errs pc2 = pc_errs pc1" "pc_out pc2 = pc_out pc1 @ map request_msg bs"
      by blast
    then show ?case using pc1
      by (intro exI [of _ pc2] exI [of _ "WaitTask r b ch # us"]) (simp add: act_bind_Ok)
  qed simp
  from this [of pc bs "[]" as] assms show ?thesis by auto
qed

section \<open>Receiving the blocks of a piece\<close>

lemma awaiting_perm:
  assumes "awaiting pc r bs" "mset (map blk_Idx ds) = mset (map blk_Idx bs)"
  shows "awaiting pc r ds"
proof -
  let ?d = "rq_data (pc_requesters pc ! r)"
  have "mset (map ?d (map blk_Idx ds)) = mset (map ?d (map blk_Idx bs))" using assms(2) by (metis mset_map)
  then have "distinct (map ?d (map blk_Idx ds)) \<longleftrightarrow> distinct (map ?d (map blk_Idx bs))" by (rule mset_eq_imp_distinct_iff)
  moreover have "blk_Idx ` set ds = blk_Idx ` set bs" using mset_eq_setD [OF assms(2)] by simp
  then have "\<exists>c \<in> set bs. blk_Idx d = blk_Idx c" if "d \<in> set ds" for d using that by (metis imageE imageI)
  ultimately show ?thesis using assms(1) unfolding awaiting_def by (fastforce simp: comp_def)
qed

lemma same_conn_total:
  "same_conn pc pc' \<Longrightarrow> r < length (pc_requesters pc) \<Longrightarrow>
   rq_totalNumOfBlocks (pc_requesters pc' ! r) = rq_totalNumOfBlocks (pc_requesters pc ! r)"
  unfolding same_conn_def by (metis nth_map)

lemma receive_pieces:
  "for_act (handlePeerPieceMessage flt) ps s = (s', Ok ()) \<Longrightarrow> exec flt (map (\<lambda>p. Receive (PiecePeerMsg p)) ps) s = (s', Ok ())"
proof (induction ps arbitrary: s)
  case (Cons p ps)
  then obtain s1 where "handlePeerPieceMessage flt p s = (s1, Ok ())" "for_act (handlePeerPieceMessage flt) ps s1 = (s', Ok ())"
    by (auto simp: act_bind_eq_Ok)
  then show ?case using Cons.IH by (simp add: act_bind_Ok DefaultPeerMsgFunc_def handle_def)
qed simp

text \<open>
  One round: the goroutines ask for the blocks of the reserved piece, and its blocks arrive, in any order. What is left to do is to
  ask for the next piece, or to finish.
\<close>

lemma piece_round:
  assumes "pc_tasks pc = ws @ map (RequestTask (Some r)) bs" "awaiting pc r []" "blocks_left pc r = int (length bs)"
    and "rq_totalNumOfBlocks (pc_requesters pc ! r) = int (length bs)" "bs \<noteq> []" "distinct (map blk_Idx bs)"
    and "list_all2 (\<lambda>payload b. PiecePeerMsg_GetBlock payload = Ok b) ps ds" "mset (map blk_Idx ds) = mset (map blk_Idx bs)"
    and "\<forall>b \<in> set ds. blk_PieceIdx b = i" "for_act (SaveBlock flt (cl_FileInfo cl)) ds (cl_fs cl) = (fs', Ok ())"
    and "MarkAsDone (cl_pieces cl) i = Ok sp"
  shows "\<exists>pc' ts. pc_tasks pc' = ws @ ts \<and> length ts = length bs \<and> awaiting pc' r [] \<and> blocks_left pc' r = int (length bs) \<and>
    rq_totalNumOfBlocks (pc_requesters pc' ! r) = int (length bs) \<and> pc_queue pc' = pc_queue pc \<and>
    pc_toPeerId pc' = pc_toPeerId pc \<and> pc_misfires pc' = pc_misfires pc \<and> pc_errs pc' = pc_errs pc \<and>
    pc_out pc' = pc_out pc @ map request_msg bs \<and>
    (\<forall>s'. (if TotalUndonePiecesLeft sp \<noteq> 0 then ignore_result RequestNextPiece (set_pieces sp (cl\<lparr>cl_fs := fs'\<rparr>), pc')
         else on_files (DefaultFinalizeFunc flt) (mark_downloading False (set_pieces sp (cl\<lparr>cl_fs := fs'\<rparr>), pc'))) = (s', Ok ()) \<longrightarrow>
       exec flt (replicate (length bs) (Run (length ws)) @ map (\<lambda>p. Receive (PiecePeerMsg p)) ps) (cl, pc) = (s', Ok ()))"
proof -
  have len: "length ds = length bs" using assms(8) by (metis length_map mset_eq_length)
  obtain pc1 ts where pc1: "exec flt (replicate (length bs) (Run (length ws))) (cl, pc) = ((cl, pc1), Ok ())"
    "pc_tasks pc1 = ws @ ts" "length ts = length bs" "awaiting pc1 r bs" "blocks_left pc1 r = int (length bs)"
    "rq_totalNumOfBlocks (pc_requesters pc1 ! r) = int (length bs)" "pc_queue pc1 = pc_queue pc" "pc_toPeerId pc1 = pc_toPeerId pc"
    "pc_misfires pc1 = pc_misfires pc" "pc_errs pc1 = pc_errs pc" "pc_out pc1 = pc_out pc @ map request_msg bs"
    using run_requests [OF assms(1,2), of flt cl] assms(3,4,6) by auto
  have "awaiting pc1 r ds" by (rule awaiting_perm [OF pc1(4) assms(8)])
  moreover have "ds \<noteq> []" using len assms(5) by auto
  ultimately obtain pc2 where pc2: "for_act (handlePeerPieceMessage flt) ps (cl, pc1) =
      finish_piece flt (Some r) i (cl\<lparr>cl_fs := fs'\<rparr>, pc2)" "awaiting pc2 r []" "same_conn pc1 pc2"
    using all_piece_messages [OF assms(7) _ _ _ assms(10,9), of pc1 r] pc1(5) len by auto
  have r: "r < length (pc_requesters pc1)" "r < length (pc_requesters pc2)" using pc1(4) pc2(2) by (simp_all add: awaiting_def)
  have mark: "MarkAsDone (cl_pieces (cl\<lparr>cl_fs := fs'\<rparr>)) i = Ok sp" using assms(11) by simp
  obtain pc3 where pc3: "finish_piece flt (Some r) i (cl\<lparr>cl_fs := fs'\<rparr>, pc2) =
      (if TotalUndonePiecesLeft sp \<noteq> 0 then ignore_result RequestNextPiece (set_pieces sp (cl\<lparr>cl_fs := fs'\<rparr>), pc3)
       else on_files (DefaultFinalizeFunc flt) (mark_downloading False (set_pieces sp (cl\<lparr>cl_fs := fs'\<rparr>), pc3)))"
      "blocks_left pc3 r = rq_totalNumOfBlocks (pc_requesters pc2 ! r)" "same_conn pc2 pc3" "awaiting pc3 r []"
    using finish_piece_eq [OF pc2(2) mark] by blast
  have total: "rq_totalNumOfBlocks (pc_requesters pc2 ! r) = int (length bs)"
      "rq_totalNumOfBlocks (pc_requesters pc3 ! r) = int (length bs)"
    using same_conn_total [OF pc2(3) r(1)] same_conn_total [OF pc3(3) r(2)] pc1(6) by simp_all
  have "exec flt (replicate (length bs) (Run (length ws)) @ map (\<lambda>p. Receive (PiecePeerMsg p)) ps) (cl, pc) = (s', Ok ())"
    if "(if TotalUndonePiecesLeft sp \<noteq> 0 then ignore_result RequestNextPiece (set_pieces sp (cl\<lparr>cl_fs := fs'\<rparr>), pc3)
       else on_files (DefaultFinalizeFunc flt) (mark_downloading False (set_pieces sp (cl\<lparr>cl_fs := fs'\<rparr>), pc3))) = (s', Ok ())" for s'
  proof -
    have "for_act (handlePeerPieceMessage flt) ps (cl, pc1) = (s', Ok ())" unfolding pc2(1) pc3(1) by (rule that)
    then have "exec flt (map (\<lambda>p. Receive (PiecePeerMsg p)) ps) (cl, pc1) = (s', Ok ())" by (rule receive_pieces)
    then show ?thesis unfolding for_act_append using pc1(1) by (simp add: act_bind_Ok)
  qed
  moreover have "pc_tasks pc3 = ws @ ts \<and> pc_queue pc3 = pc_queue pc \<and> pc_toPeerId pc3 = pc_toPeerId pc \<and>
      pc_misfires pc3 = pc_misfires pc \<and> pc_errs pc3 = pc_errs pc \<and> pc_out pc3 = pc_out pc @ map request_msg bs"
    using pc1 pc2(3) pc3(3) by (simp add: same_conn_def)
  moreover have "length ts = length bs \<and> awaiting pc3 r [] \<and> blocks_left pc3 r = int (length bs) \<and>
      rq_totalNumOfBlocks (pc_requesters pc3 ! r) = int (length bs)"
    using pc1(3) pc3(2,4) total by simp
  ultimately show ?thesis by blast
qed

section \<open>The data and its blocks\<close>

text \<open>
  Block \<open>j\<close> of piece \<open>i\<close> of some data, with its bytes, when pieces have \<open>m\<close> blocks of \<open>bl\<close> bytes; and the blocks the client asks for.
\<close>

definition data_block :: "bytes \<Rightarrow> nat \<Rightarrow> nat \<Rightarrow> nat \<Rightarrow> nat \<Rightarrow> Block" where
  "data_block data m bl i j =
     NewBlock (int j) (int i) (word_of_nat (j * bl)) (word_of_nat bl) (take bl (drop ((i * m + j) * bl) data))"

definition wanted :: "nat \<Rightarrow> nat \<Rightarrow> int \<Rightarrow> Block list" where
  "wanted m bl i = mark_last (cut_blocks i (int (m * bl)) (int bl))"

lemma wanted_facts:
  assumes "0 < bl"
  shows "length (wanted m bl i) = m" "map blk_Idx (wanted m bl i) = map int [0..<m]"
proof -
  have cut: "cut_blocks i (int (m * bl)) (int bl) = map (full_block i (int bl)) [0..int m - 1]"
    using assms by (simp add: cut_blocks_def Let_def)
  then show "length (wanted m bl i) = m" by (simp add: wanted_def)
  have "[0..int m - 1] = map int [0..<m]"
    by (induction m) (auto simp: upto_rec2)
  then show "map blk_Idx (wanted m bl i) = map int [0..<m]"
    unfolding wanted_def cut by (subst map_mark_last) (simp_all add: comp_def)
qed

lemma data_block_range:
  assumes "i < n" "j < m" "length data = n * m * bl"
  shows "(i * m + j) * bl + bl \<le> length data"
proof -
  have "Suc i * m \<le> n * m" using assms(1) by (intro mult_right_mono) auto
  then have "Suc (i * m + j) \<le> n * m" using assms(2) by simp
  then have "Suc (i * m + j) * bl \<le> n * m * bl" by (intro mult_right_mono) auto
  then show ?thesis using assms(3) by simp
qed

lemma GetBlock_fields:
  assumes "buff \<noteq> []" "0 \<le> i" "i < 2 ^ 32" "uint off = j * int (length buff)"
  shows "PiecePeerMsg_GetBlock (PutUint32 (word_of_int i) @ PutUint32 off @ buff) =
    Ok (NewBlock j i off (word_of_nat (length buff)) buff)"
  using assms by (simp add: PiecePeerMsg_GetBlock_def piece_payload_fields go_div_def)

lemma GetBlock_data_block:
  assumes "0 < bl" "m * bl < 2 ^ 32" "n \<le> 2 ^ 32" "length data = n * m * bl" "i < n" "j < m"
  shows "PiecePeerMsg_GetBlock (GetPayload (BuildPeerPieceMsg (data_block data m bl i j))) = Ok (data_block data m bl i j)"
proof -
  let ?buff = "take bl (drop ((i * m + j) * bl) data)"
  have len: "length ?buff = bl" using data_block_range [OF assms(5,6,4)] by simp
  have "Suc j * bl \<le> m * bl" using assms(6) by (intro mult_right_mono) auto
  then have jb: "j * bl < 2 ^ 32" using assms(2) by simp
  then have off: "uint (word_of_nat (j * bl) :: uint32) = int (j * bl)"
    using uint_word_of_int32 [of "int (j * bl)"] by (simp flip: of_nat_mult)
  have i: "0 \<le> int i" "int i < 2 ^ 32" using assms(3,5) by simp_all
  have "?buff \<noteq> []" using len assms(1) by auto
  moreover have "uint (word_of_nat (j * bl) :: uint32) = int j * int (length ?buff)" using off unfolding len by simp
  ultimately show ?thesis
    using GetBlock_fields [OF _ i, of ?buff "word_of_nat (j * bl)" "int j"]
    unfolding len data_block_def BuildPeerPieceMsg_def NewBlock_sel GetPayload.simps by simp
qed

section \<open>The store during a download\<close>

text \<open>The pieces of the torrent, with the statuses \<open>st\<close>.\<close>

definition pieces_st :: "nat \<Rightarrow> nat \<Rightarrow> nat \<Rightarrow> (int \<Rightarrow> PieceStatus) \<Rightarrow> SafePieces \<Rightarrow> bool" where
  "pieces_st n m bl st sp \<longleftrightarrow> sp_wf sp \<and> (\<forall>j. case Get sp j of
       None \<Rightarrow> \<not> (0 \<le> j \<and> j < int n)
     | Some p \<Rightarrow> 0 \<le> j \<and> j < int n \<and> piece_status p = st j \<and> piece_blocks p = wanted m bl j)"

definition progress :: "nat \<Rightarrow> int \<Rightarrow> PieceStatus" where
  "progress i j = (if 0 \<le> j \<and> j < int i then PIECESTATUS_DONE else if j = int i then PIECESTATUS_DOWNLOADING else PIECESTATUS_IDLE)"

lemma pieces_st_Get:
  assumes "pieces_st n m bl st sp" "0 \<le> j" "j < int n"
  obtains p where "Get sp j = Some p" "piece_status p = st j" "piece_blocks p = wanted m bl j" "piece_idx p = j"
proof -
  have "case Get sp j of None \<Rightarrow> False | Some p \<Rightarrow> piece_status p = st j \<and> piece_blocks p = wanted m bl j"
    using assms unfolding pieces_st_def by (metis (no_types, lifting) option.case_eq_if)
  then show thesis using that sp_wf_idx [of sp j] assms(1) by (auto simp: pieces_st_def split: option.splits)
qed

lemma pieces_st_update:
  assumes "pieces_st n m bl st sp" "0 \<le> j" "j < int n" "piece_status q = a" "piece_blocks q = wanted m bl j" "piece_idx q = j"
  shows "pieces_st n m bl (st(j := a)) (AList.update j q sp)"
  using assms by (auto simp: pieces_st_def sp_wf_update split: option.splits)

lemma pieces_st_undone:
  assumes "pieces_st n m bl st sp"
  shows "TotalUndonePiecesLeft sp = 0 \<longleftrightarrow> (\<forall>j. 0 \<le> j \<and> j < int n \<longrightarrow> st j = PIECESTATUS_DONE)"
proof -
  have wf: "sp_wf sp" using assms by (simp add: pieces_st_def)
  have "undone sp = {j. 0 \<le> j \<and> j < int n \<and> st j \<noteq> PIECESTATUS_DONE}"
  proof (rule set_eqI)
    fix j
    have "case Get sp j of None \<Rightarrow> \<not> (0 \<le> j \<and> j < int n) | Some p \<Rightarrow> 0 \<le> j \<and> j < int n \<and> piece_status p = st j"
      using assms unfolding pieces_st_def by (auto split: option.splits)
    then show "j \<in> undone sp \<longleftrightarrow> j \<in> {j. 0 \<le> j \<and> j < int n \<and> st j \<noteq> PIECESTATUS_DONE}"
      by (auto simp: undone_def status_at_def split: option.splits)
  qed
  then show ?thesis using TotalUndone_card [OF wf] finite_undone [OF wf] by auto
qed

lemma MarkAsDone_progress:
  assumes "pieces_st n m bl (progress i) sp" "i < n"
  shows "\<exists>sp'. MarkAsDone sp (int i) = Ok sp' \<and> pieces_st n m bl ((progress i)(int i := PIECESTATUS_DONE)) sp' \<and>
    (TotalUndonePiecesLeft sp' = 0 \<longleftrightarrow> Suc i = n)"
proof -
  have i: "0 \<le> int i" "int i < int n" using assms(2) by simp_all
  obtain p where p: "Get sp (int i) = Some p" "piece_blocks p = wanted m bl (int i)" "piece_idx p = int i"
    using pieces_st_Get [OF assms(1) i] by blast
  let ?sp = "AList.update (int i) (SetStatus PIECESTATUS_DONE p) sp"
  have "MarkAsDone sp (int i) = Ok ?sp" using p by (simp add: MarkAsDone_def on_piece_eq)
  moreover have st: "pieces_st n m bl ((progress i)(int i := PIECESTATUS_DONE)) ?sp"
    by (rule pieces_st_update [OF assms(1) i]) (simp_all add: p)
  moreover have "(\<forall>j. 0 \<le> j \<and> j < int n \<longrightarrow> ((progress i)(int i := PIECESTATUS_DONE)) j = PIECESTATUS_DONE) \<longleftrightarrow> Suc i = n"
    using assms(2) by (auto simp: progress_def split: if_splits dest: spec [of _ "int (Suc i)"])
  ultimately show ?thesis using pieces_st_undone [OF st] by blast
qed

text \<open>The first index of the queue is idle: its piece is reserved, and a goroutine is started for each of its blocks.\<close>

lemma RequestNextPiece_next:
  assumes "pieces_st n m bl st (cl_pieces cl)" "pc_queue pc = j # rest" "0 \<le> j" "j < int n" "st j = PIECESTATUS_IDLE"
  shows "\<exists>sp. pieces_st n m bl (st(j := PIECESTATUS_DOWNLOADING)) sp \<and>
    ignore_result RequestNextPiece (cl, pc) = (((set_pieces sp cl)\<lparr>cl_isDownloading := True\<rparr>,
      pc\<lparr>pc_queue := rest, pc_toPeerDownloading := True,
         pc_tasks := pc_tasks pc @ map (RequestTask (pc_blockRequester pc)) (wanted m bl j)\<rparr>), Ok ())"
proof -
  obtain p where p: "Get (cl_pieces cl) j = Some p" "piece_status p = PIECESTATUS_IDLE" "piece_blocks p = wanted m bl j"
      "piece_idx p = j"
    using pieces_st_Get [OF assms(1,3,4)] assms(5) by metis
  let ?q = "SetDownloader (pc_toPeerId pc) (SetStatus PIECESTATUS_DOWNLOADING p)"
  have "reserve_first TryToReserve (pc_toPeerId pc) (pc_queue pc) (cl_pieces cl) =
      Ok (AList.update j ?q (cl_pieces cl), Some j, rest)"
    using p assms(2) by (simp add: TryToReserve_def on_piece_eq)
  moreover have "pieces_st n m bl (st(j := PIECESTATUS_DOWNLOADING)) (AList.update j ?q (cl_pieces cl))"
    by (rule pieces_st_update [OF assms(1,3,4)]) (simp_all add: p)
  ultimately show ?thesis
    using p assms(2)
    by (intro exI [of _ "AList.update j ?q (cl_pieces cl)"])
       (simp add: ignore_result_def act_bind_def ret_def RequestNextPiece_def mark_downloading_def)
qed

section \<open>A whole download\<close>

text \<open>
  The state after the goroutines of piece \<open>i\<close> were started: the pieces before it are done and their blocks \<open>ds\<close> are saved, the
  pieces after it are queued, and everything that was sent after \<open>earlier\<close> are the requests for the blocks of the pieces before it.
\<close>

definition requests :: "nat \<Rightarrow> nat \<Rightarrow> nat \<Rightarrow> PeerMsg list" where
  "requests m bl i = concat (map (\<lambda>i. map request_msg (wanted m bl (int i))) [0..<i])"

definition transferring :: "nat \<Rightarrow> nat \<Rightarrow> nat \<Rightarrow> FileInfo \<Rightarrow> fs \<Rightarrow> PeerMsg list \<Rightarrow> nat \<Rightarrow> Block list \<Rightarrow> Client \<times> PeerConn \<Rightarrow> bool" where
  "transferring n m bl fi fs0 earlier i ds = (\<lambda>(cl, pc).
     (\<exists>sp. cl_FileInfo cl = fi\<lparr>fi_Pieces := sp\<rparr> \<and> pieces_st n m bl (progress i) sp) \<and>
     for_act (SaveBlock no_faults fi) ds fs0 = (cl_fs cl, Ok ()) \<and>
     pc_queue pc = map int [Suc i..<n] \<and>
     (\<exists>r ws. length ws = i * m \<and> pc_tasks pc = ws @ map (RequestTask (Some r)) (wanted m bl (int i)) \<and> awaiting pc r [] \<and>
       blocks_left pc r = int m \<and> rq_totalNumOfBlocks (pc_requesters pc ! r) = int m) \<and>
     pc_out pc = earlier @ requests m bl i \<and> pc_misfires pc = 0 \<and> pc_errs pc = [])"

text \<open>The schedule of a piece: its goroutines run, and its blocks arrive.\<close>

definition piece_events :: "nat \<Rightarrow> (nat \<Rightarrow> Block list) \<Rightarrow> nat \<Rightarrow> event list" where
  "piece_events m qs i = replicate m (Run (i * m)) @ map (\<lambda>b. Receive (BuildPeerPieceMsg b)) (qs i)"

lemma SaveBlock_dir: "fi_DownloadedBlocksDir fi' = fi_DownloadedBlocksDir fi \<Longrightarrow> SaveBlock flt fi' = SaveBlock flt fi"
  by (simp add: SaveBlock_def fun_eq_iff)

lemma transfer_round:
  assumes "transferring n m bl fi fs0 earlier i ds (cl, pc)" "0 < bl" "0 < m" "m * bl < 2 ^ 32" "n \<le> 2 ^ 32" "length data = n * m * bl"
    and "i < n" "mset (qs i) = mset (map (data_block data m bl i) [0..<m])"
    and "for_act (SaveBlock no_faults fi) (ds @ qs i) fs0 = (fs', Ok ())"
  shows "\<exists>sp pc'. pieces_st n m bl ((progress i)(int i := PIECESTATUS_DONE)) sp \<and>
    (\<exists>r ws. length ws = Suc i * m \<and> pc_tasks pc' = ws \<and> awaiting pc' r [] \<and> blocks_left pc' r = int m \<and>
       rq_totalNumOfBlocks (pc_requesters pc' ! r) = int m) \<and>
    pc_queue pc' = map int [Suc i..<n] \<and> pc_out pc' = earlier @ requests m bl (Suc i) \<and> pc_misfires pc' = 0 \<and> pc_errs pc' = [] \<and>
    (\<forall>s'. (if Suc i \<noteq> n then ignore_result RequestNextPiece (cl\<lparr>cl_FileInfo := fi\<lparr>fi_Pieces := sp\<rparr>, cl_fs := fs'\<rparr>, pc')
         else on_files (DefaultFinalizeFunc no_faults)
           (mark_downloading False (cl\<lparr>cl_FileInfo := fi\<lparr>fi_Pieces := sp\<rparr>, cl_fs := fs'\<rparr>, pc'))) = (s', Ok ()) \<longrightarrow>
       exec no_faults (piece_events m qs i) (cl, pc) = (s', Ok ()))"
proof -
  obtain sp0 r ws where st: "cl_FileInfo cl = fi\<lparr>fi_Pieces := sp0\<rparr>" "pieces_st n m bl (progress i) sp0"
      "for_act (SaveBlock no_faults fi) ds fs0 = (cl_fs cl, Ok ())" "pc_queue pc = map int [Suc i..<n]"
      "length ws = i * m" "pc_tasks pc = ws @ map (RequestTask (Some r)) (wanted m bl (int i))" "awaiting pc r []"
      "blocks_left pc r = int m" "rq_totalNumOfBlocks (pc_requesters pc ! r) = int m"
      "pc_out pc = earlier @ requests m bl i" "pc_misfires pc = 0" "pc_errs pc = []"
    using assms(1) by (auto simp: transferring_def)
  let ?bs = "wanted m bl (int i)" and ?ps = "map (GetPayload \<circ> BuildPeerPieceMsg) (qs i)"
  note bs = wanted_facts [OF assms(2), of m "int i"]
  have q: "\<exists>j < m. b = data_block data m bl i j" if "b \<in> set (qs i)" for b
    using that mset_eq_setD [OF assms(8)] by auto
  have decode: "list_all2 (\<lambda>payload b. PiecePeerMsg_GetBlock payload = Ok b) ?ps (qs i)"
    unfolding list_all2_conv_all_nth
    by (auto dest!: nth_mem q simp: GetBlock_data_block [OF assms(2,4,5,6,7)])
  have "mset (map blk_Idx (qs i)) = image_mset blk_Idx (mset (map (data_block data m bl i) [0..<m]))"
    by (simp only: mset_map assms(8))
  also have "\<dots> = mset (map blk_Idx ?bs)"
    unfolding bs(2) mset_map [symmetric] by (simp add: data_block_def comp_def)
  finally have idx: "mset (map blk_Idx (qs i)) = mset (map blk_Idx ?bs)" .
  have piece: "\<forall>b \<in> set (qs i). blk_PieceIdx b = int i" by (auto dest!: q simp: data_block_def)
  obtain sp where sp: "MarkAsDone sp0 (int i) = Ok sp" "pieces_st n m bl ((progress i)(int i := PIECESTATUS_DONE)) sp"
      "TotalUndonePiecesLeft sp = 0 \<longleftrightarrow> Suc i = n"
    using MarkAsDone_progress [OF st(2) assms(7)] by blast
  have dir: "SaveBlock no_faults (cl_FileInfo cl) = SaveBlock no_faults fi" by (rule SaveBlock_dir) (simp add: st(1))
  have save: "for_act (SaveBlock no_faults (cl_FileInfo cl)) (qs i) (cl_fs cl) = (fs', Ok ())"
    unfolding dir using assms(9) st(3) by (simp add: for_act_append act_bind_def)
  have set: "set_pieces sp (cl\<lparr>cl_fs := fs'\<rparr>) = cl\<lparr>cl_FileInfo := fi\<lparr>fi_Pieces := sp\<rparr>, cl_fs := fs'\<rparr>"
    by (simp add: set_pieces_def st(1))
  have ev: "piece_events m qs i =
      replicate (length ?bs) (Run (length ws)) @ map (\<lambda>p. Receive (PiecePeerMsg p)) ?ps"
    by (simp add: piece_events_def bs(1) st(5) BuildPeerPieceMsg_def)
  have "?bs \<noteq> []" "distinct (map blk_Idx ?bs)" using bs assms(3) by (auto simp: distinct_map inj_on_def)
  moreover have "MarkAsDone (cl_pieces cl) (int i) = Ok sp" using sp(1) by (simp add: st(1))
  ultimately obtain pc' ts where "pc_tasks pc' = ws @ ts" "length ts = length ?bs" "awaiting pc' r []"
      "blocks_left pc' r = int (length ?bs)" "rq_totalNumOfBlocks (pc_requesters pc' ! r) = int (length ?bs)"
      "pc_queue pc' = pc_queue pc" "pc_misfires pc' = pc_misfires pc" "pc_errs pc' = pc_errs pc"
      "pc_out pc' = pc_out pc @ map request_msg ?bs"
      "\<forall>s'. (if TotalUndonePiecesLeft sp \<noteq> 0 then ignore_result RequestNextPiece (set_pieces sp (cl\<lparr>cl_fs := fs'\<rparr>), pc')
         else on_files (DefaultFinalizeFunc no_faults) (mark_downloading False (set_pieces sp (cl\<lparr>cl_fs := fs'\<rparr>), pc'))) = (s', Ok ()) \<longrightarrow>
       exec no_faults (replicate (length ?bs) (Run (length ws)) @ map (\<lambda>p. Receive (PiecePeerMsg p)) ?ps) (cl, pc) = (s', Ok ())"
    using piece_round [OF st(6,7) _ _ _ _ decode idx piece save] st(8,9) bs(1) by auto
  then show ?thesis
    unfolding ev set sp(3) using sp(2) st bs(1)
    by (intro exI [of _ sp] exI [of _ pc'] conjI exI [of _ r] exI [of _ "ws @ ts"]) (simp_all add: requests_def)
qed

lemma progress_next: "((progress i)(int i := PIECESTATUS_DONE))(int (Suc i) := PIECESTATUS_DOWNLOADING) = progress (Suc i)"
  by (auto simp: progress_def fun_eq_iff)

lemma transfer_step:
  assumes "transferring n m bl fi fs0 earlier i ds (cl, pc)" "0 < bl" "0 < m" "m * bl < 2 ^ 32" "n \<le> 2 ^ 32" "length data = n * m * bl"
    and "Suc i < n" "mset (qs i) = mset (map (data_block data m bl i) [0..<m])"
    and "for_act (SaveBlock no_faults fi) (ds @ qs i) fs0 = (fs', Ok ())"
  shows "\<exists>s'. exec no_faults (piece_events m qs i) (cl, pc) = (s', Ok ()) \<and> transferring n m bl fi fs0 earlier (Suc i) (ds @ qs i) s'"
proof -
  have i: "i < n" "Suc i \<noteq> n" using assms(7) by simp_all
  obtain sp pc1 r ws where pc1: "pieces_st n m bl ((progress i)(int i := PIECESTATUS_DONE)) sp" "length ws = Suc i * m"
    "pc_tasks pc1 = ws" "awaiting pc1 r []" "blocks_left pc1 r = int m" "rq_totalNumOfBlocks (pc_requesters pc1 ! r) = int m"
    "pc_queue pc1 = map int [Suc i..<n]" "pc_out pc1 = earlier @ requests m bl (Suc i)" "pc_misfires pc1 = 0" "pc_errs pc1 = []"
    and run: "\<And>s'. ignore_result RequestNextPiece (cl\<lparr>cl_FileInfo := fi\<lparr>fi_Pieces := sp\<rparr>, cl_fs := fs'\<rparr>, pc1) = (s', Ok ()) \<Longrightarrow>
       exec no_faults (piece_events m qs i) (cl, pc) = (s', Ok ())"
    using transfer_round [where qs = qs and i = i, OF assms(1-6) i(1) assms(8,9)] i(2) by auto
  let ?cl = "cl\<lparr>cl_FileInfo := fi\<lparr>fi_Pieces := sp\<rparr>, cl_fs := fs'\<rparr>"
  have queue: "pc_queue pc1 = int (Suc i) # map int [Suc (Suc i)..<n]"
    using pc1(7) assms(7) by (simp add: upt_conv_Cons)
  have "pieces_st n m bl ((progress i)(int i := PIECESTATUS_DONE)) (cl_pieces ?cl)" using pc1(1) by simp
  from RequestNextPiece_next [OF this queue] obtain sp' where
    sp': "pieces_st n m bl (progress (Suc i)) sp'"
    "ignore_result RequestNextPiece (?cl, pc1) = (((set_pieces sp' ?cl)\<lparr>cl_isDownloading := True\<rparr>,
      pc1\<lparr>pc_queue := map int [Suc (Suc i)..<n], pc_toPeerDownloading := True,
         pc_tasks := pc_tasks pc1 @ map (RequestTask (pc_blockRequester pc1)) (wanted m bl (int (Suc i)))\<rparr>), Ok ())"
    using assms(7) progress_next [of i] by (auto simp: progress_def)
  have "pc_blockRequester pc1 = Some r" using pc1(4) by (simp add: awaiting_def)
  then have "transferring n m bl fi fs0 earlier (Suc i) (ds @ qs i) ((set_pieces sp' ?cl)\<lparr>cl_isDownloading := True\<rparr>,
      pc1\<lparr>pc_queue := map int [Suc (Suc i)..<n], pc_toPeerDownloading := True,
         pc_tasks := pc_tasks pc1 @ map (RequestTask (pc_blockRequester pc1)) (wanted m bl (int (Suc i)))\<rparr>)"
    unfolding transferring_def prod.case using sp'(1) pc1(2-10) assms(9)
    by (intro conjI exI [of _ sp'] exI [of _ r] exI [of _ ws])
       (simp_all add: set_pieces_def awaiting_def blocks_left_def)
  then show ?thesis using run [OF sp'(2)] by blast
qed

lemma transfer_rounds:
  assumes "transferring n m bl fi fs0 earlier 0 [] s" "0 < bl" "0 < m" "m * bl < 2 ^ 32" "n \<le> 2 ^ 32" "length data = n * m * bl"
    and "\<And>i. i < n \<Longrightarrow> mset (qs i) = mset (map (data_block data m bl i) [0..<m])"
    and "\<And>k. k \<le> n \<Longrightarrow> \<exists>fs'. for_act (SaveBlock no_faults fi) (concat (map qs [0..<k])) fs0 = (fs', Ok ())"
    and "k < n"
  shows "\<exists>s'. exec no_faults (concat (map (piece_events m qs) [0..<k])) s = (s', Ok ()) \<and>
    transferring n m bl fi fs0 earlier k (concat (map qs [0..<k])) s'"
  using assms(9)
proof (induction k)
  case (Suc k)
  then obtain cl pc where s': "exec no_faults (concat (map (piece_events m qs) [0..<k])) s = ((cl, pc), Ok ())"
    "transferring n m bl fi fs0 earlier k (concat (map qs [0..<k])) (cl, pc)"
    by auto
  obtain fs' where fs': "for_act (SaveBlock no_faults fi) (concat (map qs [0..<k]) @ qs k) fs0 = (fs', Ok ())"
    using assms(8) [of "Suc k"] Suc.prems by auto
  have k: "k < n" using Suc.prems by simp
  obtain s'' where "exec no_faults (piece_events m qs k) (cl, pc) = (s'', Ok ())"
      "transferring n m bl fi fs0 earlier (Suc k) (concat (map qs [0..<k]) @ qs k) s''"
    using transfer_step [where qs = qs and data = data, OF s'(2) assms(2-6) Suc.prems assms(7) [OF k] fs'] by blast
  then show ?case using s'(1) by (intro exI [of _ s'']) (simp add: for_act_append act_bind_Ok)
qed (use assms(1) in simp)

text \<open>The last piece: the file is assembled.\<close>

lemma transfer_last:
  assumes "transferring n m bl fi fs0 earlier i ds (cl, pc)" "0 < bl" "0 < m" "m * bl < 2 ^ 32" "n \<le> 2 ^ 32" "length data = n * m * bl"
    and "Suc i = n" "mset (qs i) = mset (map (data_block data m bl i) [0..<m])"
    and "for_act (SaveBlock no_faults fi) (ds @ qs i) fs0 = (fs', Ok ())"
    and "\<And>sp. DefaultFinalizeFunc no_faults (fi\<lparr>fi_Pieces := sp\<rparr>, fs') = ((fi\<lparr>fi_Pieces := sp, fi_IsSeeding := True\<rparr>, fs2), Ok ())"
  shows "\<exists>cl' pc'. exec no_faults (piece_events m qs i) (cl, pc) = ((cl', pc'), Ok ()) \<and> cl_fs cl' = fs2 \<and>
    fi_IsSeeding (cl_FileInfo cl') \<and> TotalUndonePiecesLeft (cl_pieces cl') = 0 \<and> \<not> cl_isDownloading cl' \<and>
    pc_out pc' = earlier @ requests m bl n \<and> pc_misfires pc' = 0 \<and> pc_errs pc' = []"
proof -
  have i: "i < n" using assms(7) by simp
  obtain sp pc1 where pc1: "pieces_st n m bl ((progress i)(int i := PIECESTATUS_DONE)) sp"
    "pc_out pc1 = earlier @ requests m bl (Suc i)" "pc_misfires pc1 = 0" "pc_errs pc1 = []"
    and run: "\<And>s'. on_files (DefaultFinalizeFunc no_faults)
           (mark_downloading False (cl\<lparr>cl_FileInfo := fi\<lparr>fi_Pieces := sp\<rparr>, cl_fs := fs'\<rparr>, pc1)) = (s', Ok ()) \<Longrightarrow>
       exec no_faults (piece_events m qs i) (cl, pc) = (s', Ok ())"
    using transfer_round [where qs = qs and i = i, OF assms(1-6) i assms(8,9)] assms(7) by auto
  have fin: "on_files (DefaultFinalizeFunc no_faults) (mark_downloading False (cl\<lparr>cl_FileInfo := fi\<lparr>fi_Pieces := sp\<rparr>, cl_fs := fs'\<rparr>, pc1)) =
      ((cl\<lparr>cl_FileInfo := fi\<lparr>fi_Pieces := sp, fi_IsSeeding := True\<rparr>, cl_fs := fs2, cl_isDownloading := False\<rparr>,
        pc1\<lparr>pc_toPeerDownloading := False\<rparr>), Ok ())"
    by (simp add: on_files_def mark_downloading_def assms(10))
  have "TotalUndonePiecesLeft sp = 0"
    using pieces_st_undone [OF pc1(1)] assms(7) by (auto simp: progress_def)
  note undone = this
  show ?thesis
    by (intro exI conjI, rule run [OF fin]) (use undone pc1(2-4) assms(7) in simp_all)
qed

text \<open>The first message: the remote peer has every piece.\<close>

lemma pieces_st_new:
  assumes "0 < bl" "0 < m" "0 < n" "info_Length info = int (n * m * bl)"
    and "cut_pieces (int n) (int (m * bl)) (int bl) (Some info) False = Ok sp"
  shows "pieces_st n m bl (\<lambda>_. PIECESTATUS_IDLE) sp"
proof -
  have "last_length (int (m * bl)) (int (n * m * bl)) = int (m * bl)" by (simp add: last_length_def)
  then have "piece_blocks (torrent_piece (int n) (int (m * bl)) (info_Length info) (int bl) False i) = wanted m bl i" for i
    by (simp add: torrent_piece_def wanted_def assms(4) Let_def del: of_nat_mult)
  moreover have "0 < int bl" "0 < int (m * bl)" "1 \<le> int n" "0 \<le> info_Length info" using assms(1-4) by simp_all
  from cut_pieces_Ok [OF this, of False] assms(5)
  have "sp_wf sp \<and> (\<forall>i. Get sp i = (if 0 \<le> i \<and> i < int n
      then Some (torrent_piece (int n) (int (m * bl)) (info_Length info) (int bl) False i) else None))" by auto
  ultimately show ?thesis by (auto simp: pieces_st_def torrent_piece_def Let_def)
qed

lemma pieces_st_max:
  assumes "pieces_st n m bl st sp" "0 < n"
  shows "MaxPieceIdx sp = int n - 1"
proof -
  have inside: "case Get sp j of None \<Rightarrow> \<not> (0 \<le> j \<and> j < int n) | Some p \<Rightarrow> 0 \<le> j \<and> j < int n" for j
    using assms(1) unfolding pieces_st_def by (auto split: option.splits)
  have "j \<in> fst ` set sp \<longleftrightarrow> 0 \<le> j \<and> j < int n" for j
    unfolding Get_Some_iff_key [symmetric] using inside [of j] by (cases "Get sp j") auto
  then have "fst ` set sp = {0..int n - 1}" by (intro set_eqI) simp
  then have "MaxPieceIdx sp = Max {0..int n - 1}" using assms(2) by (simp add: MaxPieceIdx_eq insert_absorb)
  moreover have "Max {0..int n - 1} = int n - 1" using assms(2) by (intro Max_eqI) auto
  ultimately show ?thesis by simp
qed

lemma transfer_start:
  assumes "0 < bl" "0 < m" "0 < n" "cl_FileInfo cl = fi" "pieces_st n m bl (\<lambda>_. PIECESTATUS_IDLE) (fi_Pieces fi)"
    and "BitfieldPeerMsg_GetPieceIndices payload (int n - 1) = Ok [0..int n - 1]"
  shows "\<exists>s'. exec_event no_faults (Receive (BitfieldPeerMsg payload)) (cl, (NewPeerConnection peer)\<lparr>pc_out := earlier\<rparr>) = (s', Ok ()) \<and>
    transferring n m bl fi (cl_fs cl) earlier 0 [] s'"
proof -
  have "[0..int k - 1] = map int [0..<k]" for k by (induction k) (auto simp: upto_rec2)
  then have idxs: "[0..int n - 1] = map int [0..<n]" by simp
  have queue: "IntSliceUniqueMergeSlices [] (map int [0..<n]) = map int [0..<n]"
    by (simp add: UniqueMerge_eq first_occurrences_distinct distinct_map)
  have n: "map int [0..<n] = int 0 # map int [Suc 0..<n]" using assms(3) by (simp add: upt_conv_Cons)
  obtain p where p: "Get (fi_Pieces fi) 0 = Some p" "piece_blocks p = wanted m bl 0"
    using pieces_st_Get [OF assms(5), of 0] assms(3) by auto
  have count: "BlockCount p = int m" using p wanted_facts(1) [OF assms(1)] by (simp add: BlockCount_def)
  let ?rq = "\<lparr>rq_data = Map.empty, rq_fullPieceDownloadedChan = None, rq_locked = False,
      rq_totalNumOfBlocks = int m, rq_blocksLeft = int m\<rparr>"
  let ?pc = "(NewPeerConnection peer)\<lparr>pc_out := earlier, pc_queue := map int [0..<n], pc_requesters := [?rq], pc_blockRequester := Some 0\<rparr>"
  have st: "pieces_st n m bl (\<lambda>_. PIECESTATUS_IDLE) (cl_pieces cl)" using assms(4,5) by simp
  have st0: "(\<lambda>_. PIECESTATUS_IDLE)(int 0 := PIECESTATUS_DOWNLOADING) = progress 0"
    by (simp add: progress_def fun_eq_iff)
  have req: "pc_queue ?pc = int 0 # map int [Suc 0..<n]" "0 \<le> int 0" "int 0 < int n" using n assms(3) by simp_all
  obtain sp where sp: "pieces_st n m bl (progress 0) sp"
    "ignore_result RequestNextPiece (cl, ?pc) = (((set_pieces sp cl)\<lparr>cl_isDownloading := True\<rparr>,
      ?pc\<lparr>pc_queue := map int [Suc 0..<n], pc_toPeerDownloading := True,
         pc_tasks := pc_tasks ?pc @ map (RequestTask (pc_blockRequester ?pc)) (wanted m bl (int 0))\<rparr>), Ok ())"
    using RequestNextPiece_next [OF st req refl] unfolding st0 by blast
  have "start_requester 0 (cl, (NewPeerConnection peer)\<lparr>pc_out := earlier, pc_queue := map int [0..<n]\<rparr>) = ((cl, ?pc), Ok ())"
    using p assms(4) count
    by (simp add: start_requester_def on_conn_def install_requester_def NewBlockRequester_def NewPeerConnection_def)
  moreover have "slice_get (map int [0..<n]) 0 = Ok 0" using assms(3) by (simp add: slice_get_def)
  ultimately have "handlePeerBitfieldMessage payload (cl, (NewPeerConnection peer)\<lparr>pc_out := earlier\<rparr>) = ignore_result RequestNextPiece (cl, ?pc)"
    using assms(3,6) queue pieces_st_max [OF st assms(3)]
    by (simp add: handlePeerBitfieldMessage_def act_simps idxs NewPeerConnection_def)
  note handled = this [unfolded sp(2)]
  have run: "exec_event no_faults (Receive (BitfieldPeerMsg payload)) (cl, (NewPeerConnection peer)\<lparr>pc_out := earlier\<rparr>) =
     (((set_pieces sp cl)\<lparr>cl_isDownloading := True\<rparr>,
      ?pc\<lparr>pc_queue := map int [Suc 0..<n], pc_toPeerDownloading := True,
         pc_tasks := pc_tasks ?pc @ map (RequestTask (pc_blockRequester ?pc)) (wanted m bl (int 0))\<rparr>), Ok ())"
    by (simp only: exec_event.simps DefaultPeerMsgFunc_def handle_def PeerMsg.case handled prod.case res.case)
  have fi: "cl_FileInfo cl = fi" by (rule assms(4))
  show ?thesis
  proof (intro exI conjI, rule run)
    show "transferring n m bl fi (cl_fs cl) earlier 0 [] ((set_pieces sp cl)\<lparr>cl_isDownloading := True\<rparr>,
      ?pc\<lparr>pc_queue := map int [Suc 0..<n], pc_toPeerDownloading := True,
         pc_tasks := pc_tasks ?pc @ map (RequestTask (pc_blockRequester ?pc)) (wanted m bl (int 0))\<rparr>)"
      unfolding transferring_def prod.case
      by (intro conjI exI [of _ sp] exI [of _ 0] exI [of _ "[]"])
         (simp_all add: sp(1) fi set_pieces_def requests_def NewPeerConnection_def awaiting_def blocks_left_def)
  qed
qed

text \<open>The blocks that arrive are the blocks of the data.\<close>

lemma arrived_blocks:
  assumes "0 < bl" "0 < m" "length data = n * m * bl"
    and "\<And>i. i < n \<Longrightarrow> mset (qs i) = mset (map (data_block data m bl i) [0..<m])"
  shows "\<forall>b \<in> set (concat (map qs [0..<n])). block_of data m bl b"
    and "\<forall>j. j * bl < length data \<longrightarrow> grid_key m j \<in> block_key ` set (concat (map qs [0..<n]))"
proof -
  have q: "set (qs i) = data_block data m bl i ` {0..<m}" if "i < n" for i
    using mset_eq_setD [OF assms(4) [OF that]] by simp
  have key: "block_key (data_block data m bl i j) = grid_key m (i * m + j)" if "j < m" for i j
    using that by (simp add: block_key_def grid_key_def data_block_def)
  have "block_of data m bl (data_block data m bl i j)" if ij: "i < n" "j < m" for i j
  proof -
    have le: "(i * m + j) * bl + bl \<le> length data" by (rule data_block_range [OF ij assms(3)])
    have "i * m + j \<le> (i * m + j) * bl" using assms(1) by simp
    then have "i * m + j < length data" using le assms(1) by linarith
    then show ?thesis
      unfolding block_of_def using key [OF ij(2), of i] le assms(1) by (intro exI [of _ "i * m + j"]) (simp add: data_block_def)
  qed
  then show "\<forall>b \<in> set (concat (map qs [0..<n])). block_of data m bl b" using q by auto
  show "\<forall>j. j * bl < length data \<longrightarrow> grid_key m j \<in> block_key ` set (concat (map qs [0..<n]))"
  proof (intro allI impI)
    fix j assume "j * bl < length data"
    then have "j * bl < (n * m) * bl" using assms(3) by simp
    then have "j < n * m" by simp
    then have i: "j div m < n" by (simp add: less_mult_imp_div_less)
    have "grid_key m j = block_key (data_block data m bl (j div m) (j mod m))"
      using assms(2) by (subst key) simp_all
    moreover have "data_block data m bl (j div m) (j mod m) \<in> set (qs (j div m))"
      using q [OF i] assms(2) by simp
    ultimately show "grid_key m j \<in> block_key ` set (concat (map qs [0..<n]))" using i by force
  qed
qed

lemma arrived_keys:
  assumes "m * bl < 2 ^ 32" "0 < bl" "n \<le> 2 ^ 32"
    and "\<And>i. i < n \<Longrightarrow> mset (qs i) = mset (map (data_block data m bl i) [0..<m])" "k \<le> n"
  shows "\<forall>b \<in> set (concat (map qs [0..<k])). valid_key (block_key b)"
proof
  fix b assume "b \<in> set (concat (map qs [0..<k]))"
  then obtain i where "i < k" "b \<in> set (qs i)" by auto
  then have i: "i < n" "b \<in> set (qs i)" using assms(5) by simp_all
  then obtain j where j: "j < m" "b = data_block data m bl i j" using mset_eq_setD [OF assms(4) [OF i(1)]] by auto
  have "m \<le> m * bl" using assms(2) by simp
  then have "j < 2 ^ 32" "i < 2 ^ 32" using j(1) i(1) assms(1,3) by linarith+
  then show "valid_key (block_key b)" by (simp add: j(2) data_block_def block_key_def valid_key_def)
qed

text \<open>The blocks that arrived are saved, whatever their order, and the file that is assembled from them is the data.\<close>

lemma save_arrived:
  assumes "m * bl < 2 ^ 32" "0 < bl" "n \<le> 2 ^ 32"
    and "\<And>i. i < n \<Longrightarrow> mset (qs i) = mset (map (data_block data m bl i) [0..<m])"
    and "map_of fs0 (fi_DownloadedBlocksDir fi) = Some []" "k \<le> n"
  shows "\<exists>fs'. for_act (SaveBlock no_faults fi) (concat (map qs [0..<k])) fs0 = (fs', Ok ())"
  using save_all [of fs0 fi "concat (map qs [0..<k])"] arrived_keys [OF assms(1-4,6)] assms(5) by auto

lemma assemble_arrived:
  assumes "m * bl < 2 ^ 32" "0 < bl" "n \<le> 2 ^ 32"
    and "\<And>i. i < n \<Longrightarrow> mset (qs i) = mset (map (data_block data m bl i) [0..<m])"
    and "map_of fs0 (fi_DownloadedBlocksDir fi) = Some []" "0 < m" "0 < n" "length data = n * m * bl"
    and "fi_torrentInfo fi = Some info" "info_Files info = []" "map_of fs0 (fi_FinalDownloadDir fi) \<noteq> None"
    and "lookup fs0 (fi_FinalDownloadDir fi) (info_Name info) = None" "fi_DownloadedBlocksDir fi \<noteq> fi_FinalDownloadDir fi"
  shows "\<exists>fs1 fs2. for_act (SaveBlock no_faults fi) (concat (map qs [0..<n])) fs0 = (fs1, Ok ()) \<and>
    (\<forall>sp. DefaultFinalizeFunc no_faults (fi\<lparr>fi_Pieces := sp\<rparr>, fs1) = ((fi\<lparr>fi_Pieces := sp, fi_IsSeeding := True\<rparr>, fs2), Ok ())) \<and>
    lookup fs2 (fi_FinalDownloadDir fi) (info_Name info) = Some (File data)"
proof -
  let ?bs = "concat (map qs [0..<n])"
  obtain fs1 fs2 where fin: "for_act (SaveBlock no_faults fi) ?bs fs0 = (fs1, Ok ())"
      "DefaultFinalizeFunc no_faults (fi, fs1) = ((fi\<lparr>fi_IsSeeding := True\<rparr>, fs2), Ok ())"
      "lookup fs2 (fi_FinalDownloadDir fi) (info_Name info) = Some (File (assembled ?bs))"
    using finalize_assembled [of ?bs fi info fs0] arrived_keys [OF assms(1-4) order_refl] assms(5,9-13) by auto
  have "0 < length data" using assms(2,6-8) by simp
  then have "data \<noteq> []" by simp
  then have "assembled ?bs = data"
    using assembled_data [OF assms(2,6) _ arrived_blocks [OF assms(2,6,8,4)]] by blast
  moreover have "DefaultFinalizeFunc no_faults (fi\<lparr>fi_Pieces := sp\<rparr>, fs1) =
      ((fi\<lparr>fi_Pieces := sp, fi_IsSeeding := True\<rparr>, fs2), Ok ())" for sp
    using fin(2) assms(9) by (auto simp: DefaultFinalizeFunc_def split: prod.splits res.splits if_splits)
  ultimately show ?thesis using fin(1,3) by auto
qed


definition eight_info :: Info where
  "eight_info = \<lparr>info_PieceLength = 4, info_Pieces = [], info_Name = ''file'', info_Length = 8, info_Files = []\<rparr>"

definition eight_fileinfo :: FileInfo where
  "eight_fileinfo = \<lparr>fi_DownloadedBlocksDir = ''/tmp/blocks'', fi_FinalDownloadDir = ''/final'', fi_IsSeeding = False,
     fi_Pieces = [(0, torrent_piece 2 4 8 2 False 0), (1, torrent_piece 2 4 8 2 False 1)], fi_torrentInfo = Some eight_info\<rparr>"

lemma NewFileInfo_eight:
  "NewFileInfo no_faults 2 4 2 ''/final'' ''/tmp/blocks'' (Some eight_info) False [(''/tmp/blocks'', []), (''/final'', [])] =
   ([(''/tmp/blocks'', []), (''/final'', [])], Ok eight_fileinfo)"
  by code_simp

definition eight_blocks :: "nat \<Rightarrow> Block list" where
  "eight_blocks i = map (data_block [1, 2, 3, 4, 5, 6, 7, 8] 2 2 i) (if i = 0 then [1, 0] else [0, 1])"


end
