(* ===== verification/Unexpected.thy ===== *)
theory Unexpected
  imports Whole_Download
begin

text \<open>
  What PIECE and HAVE messages do that the client does not expect, and blocks that never arrive: where the requester
  (\<^verbatim>\<open>peer/blockrequester.go\<close>) and the handlers (\<^verbatim>\<open>peer/peermsghandlers.go\<close>) block, panic, or go wrong.
\<close>

section \<open>Blocks that never arrive\<close>

text \<open>A goroutine's timeout: it asks for its block again, or gives the peer up.\<close>

lemma timeout_again:
  assumes "pc_tasks pc = [WaitTask r b ch]" "pc_misfires pc < 3" "\<not> DefaultWasBlockReceived (pc_chans pc ! ch)"
    and "r < length (pc_requesters pc)" "\<not> rq_locked (pc_requesters pc ! r)"
  shows "\<exists>pc' ch'. exec_event flt (Timeout 0) (cl, pc) = ((cl, pc'), Ok ()) \<and> pc_tasks pc' = [WaitTask r b ch'] \<and>
    pc_misfires pc' = Suc (pc_misfires pc) \<and> \<not> DefaultWasBlockReceived (pc_chans pc' ! ch') \<and>
    r < length (pc_requesters pc') \<and> \<not> rq_locked (pc_requesters pc' ! r) \<and>
    pc_out pc' = pc_out pc @ [request_msg b] \<and> pc_errs pc' = pc_errs pc"
  using assms
  by (simp add: run_task_def after_wait_def BlockRequestTotalAllowedMisfires_def request_def with_requester_def Let_def
      BuildPeerRequestMsg_def WritePeerMsg_def set_requester_def request_msg_def DefaultWasBlockReceived_def)

lemma timeout_last:
  assumes "pc_tasks pc = [WaitTask r b ch]" "pc_misfires pc = 3" "\<not> DefaultWasBlockReceived (pc_chans pc ! ch)"
  shows "\<exists>pc'. exec_event flt (Timeout 0) (cl, pc) = ((cl, pc'), Ok ()) \<and> pc_tasks pc' = [] \<and>
    pc_out pc' = pc_out pc \<and> pc_toPeerWeak pc' \<and> pc_errs pc' = pc_errs pc"
  using assms
  by (simp add: run_task_def after_wait_def BlockRequestTotalAllowedMisfires_def Let_def MakeWeak_def)

lemma timeouts:
  assumes "pc_tasks pc = [WaitTask r b ch]" "pc_misfires pc + k = 3" "\<not> DefaultWasBlockReceived (pc_chans pc ! ch)"
    and "r < length (pc_requesters pc)" "\<not> rq_locked (pc_requesters pc ! r)"
  shows "\<exists>pc'. exec flt (replicate (Suc k) (Timeout 0)) (cl, pc) = ((cl, pc'), Ok ()) \<and> pc_tasks pc' = [] \<and>
    pc_out pc' = pc_out pc @ replicate k (request_msg b) \<and> pc_toPeerWeak pc' \<and> pc_errs pc' = pc_errs pc"
  using assms
proof (induction k arbitrary: pc ch)
  case 0
  have "exec_event flt e s = (s', Ok ()) \<Longrightarrow> exec flt [e] s = (s', Ok ())" for e s s' by (simp add: act_bind_Ok)
  then show ?case using timeout_last [OF 0(1) _ 0(3), of flt cl] 0(2) by fastforce
next
  case (Suc k)
  then obtain pc1 ch1 where pc1: "exec_event flt (Timeout 0) (cl, pc) = ((cl, pc1), Ok ())" "pc_tasks pc1 = [WaitTask r b ch1]"
    "pc_misfires pc1 = Suc (pc_misfires pc)" "\<not> DefaultWasBlockReceived (pc_chans pc1 ! ch1)"
    "r < length (pc_requesters pc1)" "\<not> rq_locked (pc_requesters pc1 ! r)" "pc_out pc1 = pc_out pc @ [request_msg b]"
    "pc_errs pc1 = pc_errs pc"
    using timeout_again [of pc r b ch flt cl] by auto
  then obtain pc2 where "exec flt (replicate (Suc k) (Timeout 0)) (cl, pc1) = ((cl, pc2), Ok ())" "pc_tasks pc2 = []"
    "pc_out pc2 = pc_out pc1 @ replicate k (request_msg b)" "pc_toPeerWeak pc2" "pc_errs pc2 = pc_errs pc1"
    using Suc.IH [of pc1 ch1] Suc.prems(2) by auto
  then show ?case
    using pc1 unfolding replicate_Suc [of "Suc k" "Timeout 0"] for_act.simps(2) [of _ "Timeout 0"]
    by (intro exI [of _ pc2]) (simp add: act_bind_Ok)
qed


section \<open>Blocks nobody asked for\<close>

text \<open>
  (C31) An unexpected PIECE message ends or blocks the client: before any piece was asked for it panics on the nil requester, a block that
  is not asked for blocks its goroutine on a nil channel with the requester's mutex held, every PIECE message after that blocks on the mutex,
  and a block that was received already panics on the closed channel. Nothing is saved in these cases.
\<close>

theorem unexpected_piece:
  fixes flt cl pc payload
  assumes "PiecePeerMsg_GetBlock payload = Ok b"
  defines "outcome \<equiv> DefaultPeerMsgFunc flt (PiecePeerMsg payload) (cl, pc)"
  shows "case pc_blockRequester pc of
      None \<Rightarrow> outcome = ((cl, pc), Panic NilDereference)
    | Some r \<Rightarrow>
        if r \<ge> length (pc_requesters pc) then outcome = ((cl, pc), Panic NilDereference)
        else if rq_locked (pc_requesters pc ! r) then outcome = ((cl, pc), Hang)
        else (case rq_data (pc_requesters pc ! r) (blk_Idx b) of
            None \<Rightarrow> outcome = ((cl, pc\<lparr>pc_requesters := (pc_requesters pc)[r := (pc_requesters pc ! r)\<lparr>rq_locked := True\<rparr>]\<rparr>), Hang)
          | Some ch \<Rightarrow> if ch_closed (pc_chans pc ! ch) then outcome = ((cl, pc), Panic SendOnClosedChannel) else True)"
  using assms(1)
  by (auto simp: outcome_def DefaultPeerMsgFunc_def handle_def handlePeerPieceMessage_def act_bind_def ret_def on_conn_def
      onBlockReceive_def with_requester_def set_requester_def Let_def split: option.split)

text \<open>
  (C32) The client takes the word of the peer for which piece is complete: when one block is left of the piece it asked for, a PIECE message with
  that block's index but of any other piece of the torrent is counted for it, and the piece that becomes DONE is the one the message names,
  though no block of it was asked for; the other pieces keep their statuses.
\<close>

theorem wrong_piece_completed:
  assumes "PiecePeerMsg_GetBlock payload = Ok b" "awaiting pc r [asked]" "blk_Idx b = blk_Idx asked" "blocks_left pc r = 1"
    and "SaveBlock flt (cl_FileInfo cl) b (cl_fs cl) = (fs', Ok ())" "pc_queue pc = []"
    and "Get (cl_pieces cl) (blk_PieceIdx b) = Some p" "j \<noteq> blk_PieceIdx b" "status_at (cl_pieces cl) j = Some a" "a \<noteq> PIECESTATUS_DONE"
    and "sp_wf (cl_pieces cl)"
  shows "\<exists>cl' pc'. DefaultPeerMsgFunc flt (PiecePeerMsg payload) (cl, pc) = ((cl', pc'), Ok ()) \<and>
    status_at (cl_pieces cl') = (status_at (cl_pieces cl))(blk_PieceIdx b \<mapsto> PIECESTATUS_DONE) \<and> pc_tasks pc' = pc_tasks pc"
proof -
  let ?i = "blk_PieceIdx b" and ?cl = "cl\<lparr>cl_fs := fs'\<rparr>"
  have await: "awaiting pc r (b # [])" by (rule awaiting_perm [OF assms(2)]) (simp add: assms(3))
  obtain pc1 where pc1: "handlePeerPieceMessage flt payload (cl, pc) = finish_piece flt (Some r) ?i (?cl, pc1)"
      "awaiting pc1 r []" "same_conn pc pc1"
    using piece_message [OF assms(1) await assms(5)] assms(4) by auto
  obtain sp where sp: "MarkAsDone (cl_pieces ?cl) ?i = Ok sp" using assms(7) by (simp add: MarkAsDone_def on_piece_eq)
  obtain pc2 where pc2: "finish_piece flt (Some r) ?i (?cl, pc1) =
      (if TotalUndonePiecesLeft sp \<noteq> 0 then ignore_result RequestNextPiece (set_pieces sp ?cl, pc2)
       else on_files (DefaultFinalizeFunc flt) (mark_downloading False (set_pieces sp ?cl, pc2)))" "same_conn pc1 pc2"
    using finish_piece_eq [OF pc1(2) sp] by blast
  have wf: "sp_wf sp" using MarkAsDone_wf [OF sp] assms(11) by simp
  have st: "status_at sp = (status_at (cl_pieces cl))(?i \<mapsto> PIECESTATUS_DONE)" using sp.mark_Ok(2) [OF sp] by simp
  then have "j \<in> undone sp" using assms(8-10) by (simp add: undone_def)
  then have "TotalUndonePiecesLeft sp \<noteq> 0" using TotalUndone_card [OF wf] finite_undone [OF wf] by auto
  moreover have "pc_queue pc2 = []" "pc_tasks pc2 = pc_tasks pc" using assms(6) pc1(3) pc2(2) by (simp_all add: same_conn_def)
  ultimately show ?thesis
    using pc1(1) pc2(1) st
    by (simp add: DefaultPeerMsgFunc_def handle_def ignore_result_def act_bind_def ret_def RequestNextPiece_def
        mark_downloading_def set_pieces_def)
qed

section \<open>Pieces that are never completed\<close>


section \<open>A second HAVE\<close>

text \<open>The goroutines of a piece whose requester is no longer the connection's: the connection's own requester is left alone.\<close>

lemma run_old_requests:
  assumes "pc_tasks pc = map (RequestTask (Some r)) bs @ ts" "r < length (pc_requesters pc)" "\<not> rq_locked (pc_requesters pc ! r)"
  shows "\<exists>pc'. exec flt (replicate (length bs) (Run 0)) (cl, pc) = ((cl, pc'), Ok ()) \<and> pc_blockRequester pc' = pc_blockRequester pc \<and>
    length (pc_requesters pc') = length (pc_requesters pc) \<and> (\<forall>k. k \<noteq> r \<longrightarrow> pc_requesters pc' ! k = pc_requesters pc ! k) \<and>
    pc_out pc' = pc_out pc @ map request_msg bs"
  using assms
proof (induction bs arbitrary: pc ts)
  case (Cons b bs)
  let ?ch = "length (pc_chans pc)"
  obtain pc1 where pc1: "exec_event flt (Run 0) (cl, pc) = ((cl, pc1), Ok ())"
      "pc_tasks pc1 = map (RequestTask (Some r)) bs @ (ts @ [WaitTask r b ?ch])" "r < length (pc_requesters pc1)"
      "\<not> rq_locked (pc_requesters pc1 ! r)" "pc_blockRequester pc1 = pc_blockRequester pc"
      "length (pc_requesters pc1) = length (pc_requesters pc)" "\<forall>k. k \<noteq> r \<longrightarrow> pc_requesters pc1 ! k = pc_requesters pc ! k"
      "pc_out pc1 = pc_out pc @ [request_msg b]"
    using Cons.prems
    by (simp add: run_task_def request_def with_requester_def Let_def BuildPeerRequestMsg_def WritePeerMsg_def
        set_requester_def request_msg_def)
  then show ?case using Cons.IH [OF pc1(2-4)] by (auto simp: act_bind_Ok)
qed simp

lemma have_message:
  assumes "HavePeerMsg_GetPieceIdx payload = Ok i" "pc_queue pc = []" "Get (cl_pieces cl) i = Some p" "piece_status p = PIECESTATUS_IDLE"
  shows "\<exists>sp. DefaultPeerMsgFunc flt (HavePeerMsg payload) (cl, pc) =
      (((set_pieces sp cl)\<lparr>cl_isDownloading := True\<rparr>,
        pc\<lparr>pc_toPeerDownloading := True, pc_blockRequester := Some (length (pc_requesters pc)),
           pc_requesters := pc_requesters pc @ [\<lparr>rq_data = Map.empty, rq_fullPieceDownloadedChan = None, rq_locked = False,
             rq_totalNumOfBlocks = BlockCount p, rq_blocksLeft = BlockCount p\<rparr>],
           pc_tasks := pc_tasks pc @ map (RequestTask (Some (length (pc_requesters pc)))) (piece_blocks p)\<rparr>), Ok ()) \<and>
    sp = AList.update i (SetDownloader (pc_toPeerId pc) (SetStatus PIECESTATUS_DOWNLOADING p)) (cl_pieces cl)"
  using assms
  by (simp add: DefaultPeerMsgFunc_def handle_def handlePeerHaveMessage_def start_requester_def act_bind_def ret_def
      on_conn_def install_requester_def NewBlockRequester_def ignore_result_def RequestNextPiece_def TryToReserve_def on_piece_eq
      mark_downloading_def Let_def)


section \<open>The properties on small torrents\<close>

lemma awaiting_Nil:
  "awaiting pc r [] \<longleftrightarrow> pc_blockRequester pc = Some r \<and> r < length (pc_requesters pc) \<and>
     \<not> rq_locked (pc_requesters pc ! r) \<and> rq_fullPieceDownloadedChan (pc_requesters pc ! r) = None"
  by (auto simp: awaiting_def)

lemma awaiting_single:
  "awaiting pc r [b] \<longleftrightarrow> awaiting pc r [] \<and> (case rq_data (pc_requesters pc ! r) (blk_Idx b) of
     None \<Rightarrow> False | Some ch \<Rightarrow> ch < length (pc_chans pc) \<and> pc_chans pc ! ch = \<lparr>ch_count = 0, ch_closed = False\<rparr>)"
  by (auto simp: awaiting_def split: option.splits)

text \<open>The remote peer has piece 1, which has one block; the block is asked for.\<close>

definition have_one :: "Client \<times> PeerConn" where
  "have_one = fst (DefaultPeerMsgFunc no_faults (HavePeerMsg [0, 0, 0, 1]) (client0 six_pieces_idle, NewPeerConnection ''first''))"

definition asked_one :: "Client \<times> PeerConn" where
  "asked_one = fst (exec_event no_faults (Run 0) have_one)"

definition block_one :: Block where
  "block_one = (NewBlock 0 1 0 2 [])\<lparr>blk_IsLastBlock := True\<rparr>"

lemma have_one_awaiting: "awaiting (snd have_one) 0 []"
  unfolding awaiting_Nil by code_simp


theorem unexpected_piece_witness:
  "DefaultPeerMsgFunc no_faults (PiecePeerMsg [0, 0, 0, 0, 0, 0, 0, 0, 7, 7]) (client0 six_pieces_idle, NewPeerConnection ''first'') =
     ((client0 six_pieces_idle, NewPeerConnection ''first''), Panic NilDereference)"
proof -
  have "PiecePeerMsg_GetBlock [0, 0, 0, 0, 0, 0, 0, 0, 7, 7] = Ok (NewBlock 0 0 0 2 [7, 7])" by code_simp
  from unexpected_piece [OF this, where pc = "NewPeerConnection ''first''" and flt = no_faults and cl = "client0 six_pieces_idle"] show ?thesis
    by (simp add: NewPeerConnection_def)
qed

theorem wrong_piece_completed_witness:
  "\<exists>cl' pc'. DefaultPeerMsgFunc no_faults (PiecePeerMsg [0, 0, 0, 0, 0, 0, 0, 0, 7, 7]) asked_one = ((cl', pc'), Ok ()) \<and>
    status_at (cl_pieces cl') 0 = Some PIECESTATUS_DONE \<and> status_at (cl_pieces cl') 1 = Some PIECESTATUS_DOWNLOADING"
proof -
  let ?cl = "fst asked_one" and ?pc = "snd asked_one" and ?b = "NewBlock 0 0 0 2 [7, 7]"
  have decode: "PiecePeerMsg_GetBlock [0, 0, 0, 0, 0, 0, 0, 0, 7, 7] = Ok ?b" by code_simp
  have await: "awaiting ?pc 0 [block_one]" unfolding awaiting_single awaiting_Nil by code_simp
  have save: "SaveBlock no_faults (cl_FileInfo ?cl) ?b (cl_fs ?cl) = (fst (SaveBlock no_faults (cl_FileInfo ?cl) ?b (cl_fs ?cl)), Ok ())"
    by code_simp
  have "blocks_left ?pc 0 = 1" "pc_queue ?pc = []" "sp_wf (cl_pieces ?cl)" "Get (cl_pieces ?cl) 0 \<noteq> None"
      "status_at (cl_pieces ?cl) 1 = Some PIECESTATUS_DOWNLOADING" "blk_Idx ?b = blk_Idx block_one"
    by code_simp+
  then show ?thesis
    using wrong_piece_completed [OF decode await _ _ save, of _ 1 PIECESTATUS_DOWNLOADING] by (auto simp: fun_upd_def)
qed


text \<open>A torrent of six bytes in pieces of four and blocks of two: the first piece was downloaded, the second has one block.\<close>

definition first_done :: "Client \<times> PeerConn" where
  "first_done = fst (exec no_faults [Receive (BitfieldPeerMsg [3]), Run 0, Run 0,
     Receive (PiecePeerMsg [0, 0, 0, 0, 0, 0, 0, 0, 1, 2]), Receive (PiecePeerMsg [0, 0, 0, 0, 0, 0, 0, 2, 3, 4])]
     (client0 six_pieces_idle, NewPeerConnection ''first''))"


end
