(* ===== verification/MsgReader.thy ===== *)
theory MsgReader
  imports PeerMsg
begin

text \<open>
  \<open>ReadPeerMsg\<close> and \<open>StartPeerMsgReaderLoop\<close> of \<^verbatim>\<open>peer/peerconn.go\<close>: how one message is read from a
  connection, and the loop that reads all of them. The connection is the list of what the \<open>Read\<close> calls
  meet, one after the other: \<open>Data bs\<close> are bytes that have arrived (a call takes at most 1024 of
  them, the rest stays for the next call), the other events are the errors that the code tells
  apart. A finite list is a prefix of the life of a connection; \<open>None\<close> means the reader wants more
  than the prefix holds.
\<close>

section \<open>The connection\<close>

text \<open>
  \<open>ReadTimeout d\<close>: the read deadline passed, and \<open>d\<close> is what the test \<open>self.FromPeer != nil &&
  self.FromPeer.IsDownloading()\<close> gave at that time.
\<close>

datatype read_event =
    Data bytes
  | DeadlineError
  | ReadEOF
  | ReadTimeout bool
  | ReadReset
  | ReadOther

text \<open>\<open>self.Conn.Read(msgBuf)\<close> with a buffer of 1024 bytes.\<close>

fun conn_read :: "read_event list \<Rightarrow> (read_event \<times> read_event list) option" where
  "conn_read [] = None"
| "conn_read (Data bs # es) =
     (if length bs \<le> 1024 then Some (Data bs, es)
      else Some (Data (take 1024 bs), Data (drop 1024 bs) # es))"
| "conn_read (e # es) = Some (e, es)"

fun conn_size :: "read_event list \<Rightarrow> nat" where
  "conn_size [] = 0"
| "conn_size (Data bs # es) = Suc (length bs + conn_size es)"
| "conn_size (e # es) = Suc (conn_size es)"

lemma conn_read_size: "conn_read es = Some (e, es') \<Longrightarrow> conn_size es' < conn_size es"
  by (cases es rule: conn_read.cases) (auto split: if_splits)

section \<open>ReadPeerMsg\<close>

text \<open>
  The loop from the label \<open>reader\<close>: \<open>totalBuff\<close>, the buffer \<open>msgBuf\<close> that every \<open>Read\<close> overwrites from its
  start, and \<open>remainingMsgLen\<close>. The parser is a parameter, for the lemmas about wire formats.
\<close>

function read_loop ::
    "(bytes option \<Rightarrow> int res) \<Rightarrow> (bytes option \<Rightarrow> 'm res) \<Rightarrow>
     bytes \<Rightarrow> bytes \<Rightarrow> int \<Rightarrow> read_event list \<Rightarrow> (read_event list \<times> 'm res) option" where
  "read_loop parse_len parse totalBuff msgBuf remainingMsgLen es =
     (case conn_read es of
       None \<Rightarrow> None
     | Some (DeadlineError, es) \<Rightarrow> Some (es, Err ERR_PEER_LISTEN)
     | Some (ReadEOF, es) \<Rightarrow> Some (es, Err ERR_PEER_LISTEN_EOF)
     | Some (ReadTimeout downloading, es) \<Rightarrow>
         if downloading then read_loop parse_len parse totalBuff msgBuf remainingMsgLen es
         else Some (es, Err ERR_PEER_LISTEN_TIMEOUT)
     | Some (ReadReset, es) \<Rightarrow> Some (es, Err ERR_PEER_LISTEN_RESET)
     | Some (ReadOther, es) \<Rightarrow> Some (es, Err ERR_PEER_LISTEN)
     | Some (Data bs, es) \<Rightarrow>
         if length bs = 0 then Some (es, Err ERR_PEER_LISTEN)
         else
           let msgBuf = bs @ drop (length bs) msgBuf in
           case (if remainingMsgLen = 0 then parse_len (Some msgBuf) else Ok remainingMsgLen) of
             Err e \<Rightarrow> Some (es, Err e)
           | Panic p \<Rightarrow> Some (es, Panic p)
           | Hang \<Rightarrow> Some (es, Hang)
           | Ok remainingMsgLen \<Rightarrow>
               let readLength = Min_int (int (length msgBuf)) remainingMsgLen;
                   remainingMsgLen = remainingMsgLen - readLength;
                   totalBuff = totalBuff @ take (nat readLength) msgBuf in
               if remainingMsgLen > 0
               then read_loop parse_len parse totalBuff msgBuf remainingMsgLen es
               else Some (es, parse (Some totalBuff)))"
  by pat_completeness auto
termination
  by (relation "measure (\<lambda>(_, _, _, _, _, es). conn_size es)") (auto dest: conn_read_size)

declare read_loop.simps [simp del]

text \<open>
  \<open>track\<close> is \<open>self.FromPeer != nil && self.FromPeer.doTrackMsgs\<close>, \<open>inbound\<close> is \<open>self.FromPeer.inboundPeerMsgs\<close>.
\<close>

definition ReadPeerMsg ::
    "bool \<Rightarrow> read_event list \<Rightarrow> PeerMsg list \<Rightarrow> (read_event list \<times> PeerMsg list \<times> PeerMsg res) option" where
  "ReadPeerMsg track es inbound =
     (case read_loop ParseRawPeerMsgLength NewPeerMsgFromBuffer [] (replicate 1024 0) 0 es of
       None \<Rightarrow> None
     | Some (es, Ok peerMsg) \<Rightarrow>
         Some (es, if track then inbound @ [peerMsg] else inbound, Ok peerMsg)
     | Some (es, r) \<Rightarrow> Some (es, inbound, r))"

text \<open>One pass over the loop when bytes arrive.\<close>

lemma read_loop_Data:
  assumes "conn_read es = Some (Data bs, rest)"
  shows "read_loop parse_len parse totalBuff msgBuf remaining es =
    (if length bs = 0 then Some (rest, Err ERR_PEER_LISTEN)
     else case (if remaining = 0 then parse_len (Some (bs @ drop (length bs) msgBuf)) else Ok remaining) of
         Err e \<Rightarrow> Some (rest, Err e)
       | Panic p \<Rightarrow> Some (rest, Panic p)
       | Hang \<Rightarrow> Some (rest, Hang)
       | Ok n \<Rightarrow>
           (if n - Min_int (int (length (bs @ drop (length bs) msgBuf))) n > 0
            then read_loop parse_len parse
              (totalBuff @ take (nat (Min_int (int (length (bs @ drop (length bs) msgBuf))) n))
                (bs @ drop (length bs) msgBuf))
              (bs @ drop (length bs) msgBuf)
              (n - Min_int (int (length (bs @ drop (length bs) msgBuf))) n) rest
            else Some (rest, parse (Some (totalBuff @
              take (nat (Min_int (int (length (bs @ drop (length bs) msgBuf))) n))
                (bs @ drop (length bs) msgBuf))))))"
  by (subst read_loop.simps) (simp only: assms option.case prod.case read_event.case Let_def)

lemma read_loop_size:
  "read_loop parse_len parse totalBuff msgBuf remaining es = Some (es', r) \<Longrightarrow> conn_size es' < conn_size es"
proof (induction parse_len parse totalBuff msgBuf remaining es rule: read_loop.induct)
  case (1 parse_len parse totalBuff msgBuf remaining es)
  obtain e rest where read: "conn_read es = Some (e, rest)"
    using 1(3) by (cases "conn_read es") (auto simp: read_loop.simps)
  then have less: "conn_size rest < conn_size es" by (rule conn_read_size)
  show ?case
  proof (cases e)
    case (ReadTimeout d)
    then show ?thesis
      using 1(2) [OF read refl ReadTimeout] 1(3) read less
      by (cases d) (auto simp: read_loop.simps [of _ _ _ _ _ es])
  next
    case (Data bs)
    let ?buf = "bs @ drop (length bs) msgBuf"
    let ?len = "if remaining = 0 then parse_len (Some ?buf) else Ok remaining"
    note step = read_loop_Data [OF read [unfolded Data], of parse_len parse totalBuff msgBuf remaining]
    show ?thesis
    proof (cases "bs = [] \<or> (\<forall>n. ?len \<noteq> Ok n)")
      case True
      then have "es' = rest" using 1(3) step by (auto split: res.splits if_splits)
      with less show ?thesis by simp
    next
      case False
      then obtain n where ne: "length bs \<noteq> 0" and n: "?len = Ok n" by auto
      from 1(3) step ne n have
        "(if n - Min_int (int (length ?buf)) n > 0
          then read_loop parse_len parse (totalBuff @ take (nat (Min_int (int (length ?buf)) n)) ?buf) ?buf
            (n - Min_int (int (length ?buf)) n) rest
          else Some (rest, parse (Some (totalBuff @ take (nat (Min_int (int (length ?buf)) n)) ?buf)))) =
         Some (es', r)" by (simp only: if_False res.case)
      with 1(1) [OF read refl Data ne refl n refl refl refl] less show ?thesis
        by (auto simp only: simp_thms option.inject prod.inject intro: less_trans split: if_splits)
    qed
  qed (use 1(3) read less in \<open>auto simp: read_loop.simps [of _ _ _ _ _ es]\<close>)
qed

lemma ReadPeerMsg_size: "ReadPeerMsg track es inbound = Some (es', inbound', r) \<Longrightarrow> conn_size es' < conn_size es"
  by (auto simp: ReadPeerMsg_def dest!: read_loop_size split: option.splits prod.splits res.splits)

text \<open>
  \<open>StartPeerMsgReaderLoop\<close>: the messages sent to \<open>peerMsgChan\<close>, in order, and how the loop ended:
  \<open>Some (Err e)\<close> is \<open>errChan <- e\<close> and the return, \<open>None\<close> that it is still waiting for data.
\<close>

function StartPeerMsgReaderLoop ::
    "bool \<Rightarrow> read_event list \<Rightarrow> PeerMsg list \<Rightarrow> PeerMsg list \<times> PeerMsg list \<times> PeerMsg res option" where
  "StartPeerMsgReaderLoop track es inbound =
     (case ReadPeerMsg track es inbound of
       None \<Rightarrow> ([], inbound, None)
     | Some (es, inbound, Ok peerMsg) \<Rightarrow>
         let (sent, inbound, end) = StartPeerMsgReaderLoop track es inbound in (peerMsg # sent, inbound, end)
     | Some (es, inbound, r) \<Rightarrow> ([], inbound, Some r))"
  by pat_completeness auto
termination
  by (relation "measure (\<lambda>(_, es, _). conn_size es)") (auto dest: ReadPeerMsg_size)

declare StartPeerMsgReaderLoop.simps [simp del]

section \<open>Messages that arrive in whole buffers\<close>

text \<open>
  \<open>arrives b es\<close>: the bytes \<open>b\<close> of one message arrive in the events \<open>es\<close>, in pieces whose lengths are multiples of
  the size of the buffer (but for the last one), with ignored read timeouts between them.
\<close>

fun arrives :: "bytes \<Rightarrow> read_event list \<Rightarrow> bool" where
  "arrives b (ReadTimeout downloading # es) \<longleftrightarrow> downloading \<and> arrives b es"
| "arrives b [Data c] \<longleftrightarrow> c = b \<and> b \<noteq> []"
| "arrives b (Data c # es) \<longleftrightarrow> c \<noteq> [] \<and> 1024 dvd length c \<and> length c < length b \<and> take (length c) b = c \<and>
     arrives (drop (length c) b) es"
| "arrives b es \<longleftrightarrow> False"

lemma arrives_not_Nil: "arrives b es \<Longrightarrow> b \<noteq> []"
  by (induction b es rule: arrives.induct) auto

lemma arrives_read:
  assumes "arrives b es"
  obtains
    (timeout) es' where "conn_read (es @ tail) = Some (ReadTimeout True, es' @ tail)" "arrives b es'"
      "conn_size es' < conn_size es"
  | (last) "length b \<le> 1024" "conn_read (es @ tail) = Some (Data b, tail)"
  | (more) es' where "1024 < length b" "conn_read (es @ tail) = Some (Data (take 1024 b), es' @ tail)"
      "arrives (drop 1024 b) es'" "conn_size es' < conn_size es"
proof (cases "(b, es)" rule: arrives.cases)
  case (1 b downloading es')
  with assms show ?thesis by (intro timeout [of es']) auto
next
  case (2 b c)
  show ?thesis
  proof (cases "length b \<le> 1024")
    case True
    with 2 assms show ?thesis by (intro last) auto
  next
    case False
    with 2 assms show ?thesis by (intro more [of "[Data (drop 1024 b)]"]) auto
  qed
next
  case (3 b c e es')
  with assms have c: "c \<noteq> []" "1024 dvd length c" "length c < length b" "take (length c) b = c"
    and rest: "arrives (drop (length c) b) (e # es')" by auto
  then have ge: "1024 \<le> length c" by (auto intro: dvd_imp_le)
  then have bs: "take 1024 b = take 1024 c" using c(4) by (metis min.absorb1 take_take)
  show ?thesis
  proof (cases "length c = 1024")
    case True
    with 3 c rest bs show ?thesis by (intro more [of "e # es'"]) auto
  next
    case False
    with ge c have "1024 dvd length c - 1024" "1024 < length c" by (auto intro: dvd_diff_nat)
    moreover have "take (length c - 1024) (drop 1024 b) = drop 1024 c"
      using c(4) by (simp add: drop_take [symmetric])
    ultimately have "arrives (drop 1024 b) (Data (drop 1024 c) # e # es')"
      using c rest by (simp add: add.commute)
    with 3 c ge False bs show ?thesis by (intro more [of "Data (drop 1024 c) # e # es'"]) auto
  qed
qed (use assms in auto)

lemma read_loop_arrives:
  assumes "arrives b es" "length msgBuf = 1024"
    and "remaining = int (length b) \<or> remaining = 0 \<and> (\<forall>pre suf rest.
      b = pre @ suf \<longrightarrow> suf = [] \<or> length pre = 1024 \<longrightarrow> parse_len (Some (pre @ rest)) = Ok (int (length b)))"
  shows "read_loop parse_len parse totalBuff msgBuf remaining (es @ tail) =
    Some (tail, parse (Some (totalBuff @ b)))"
  using assms
proof (induction "conn_size es" arbitrary: b es msgBuf remaining totalBuff rule: less_induct)
  case less
  have ne: "b \<noteq> []" using arrives_not_Nil less.prems(1) by blast
  from less.prems(1) show ?case
  proof (cases rule: arrives_read [where tail = tail])
    case (timeout es')
    have "read_loop parse_len parse totalBuff msgBuf remaining (es @ tail) =
        read_loop parse_len parse totalBuff msgBuf remaining (es' @ tail)"
      by (subst read_loop.simps) (simp add: timeout(1))
    then show ?thesis using less.hyps timeout less.prems(2,3) by metis
  next
    case last
    have "(if remaining = 0 then parse_len (Some (b @ drop (length b) msgBuf)) else Ok remaining) = Ok (int (length b))"
      using less.prems(3) ne by auto
    moreover have "Min_int (int (length (b @ drop (length b) msgBuf))) (int (length b)) = int (length b)"
      by (simp add: Min_int_def)
    ultimately show ?thesis
      unfolding read_loop_Data [OF last(2)] using ne by simp
  next
    case (more es')
    let ?bs = "take 1024 b"
    have buf: "?bs @ drop (length ?bs) msgBuf = ?bs" "length ?bs = 1024" using more(1) less.prems(2) by auto
    have n: "(if remaining = 0 then parse_len (Some (?bs @ drop (length ?bs) msgBuf)) else Ok remaining) =
        Ok (int (length b))"
    proof (cases "remaining = 0")
      case True
      then have "\<And>pre suf rest. b = pre @ suf \<Longrightarrow> length pre = 1024 \<Longrightarrow>
          parse_len (Some (pre @ rest)) = Ok (int (length b))"
        using less.prems(3) ne by auto
      from this [of ?bs "drop 1024 b" "[]"] have "parse_len (Some ?bs) = Ok (int (length b))"
        using buf(2) by simp
      then show ?thesis unfolding buf(1) using True by simp
    qed (use less.prems(3) in auto)
    have "read_loop parse_len parse totalBuff msgBuf remaining (es @ tail) =
        read_loop parse_len parse (totalBuff @ ?bs) ?bs (int (length (drop 1024 b))) (es' @ tail)"
      unfolding read_loop_Data [OF more(2)] n unfolding buf(1)
      using more(1) buf(2) by (simp add: Min_int_def)
    also have "\<dots> = Some (tail, parse (Some ((totalBuff @ ?bs) @ drop 1024 b)))"
      by (rule less.hyps [OF more(4,3) buf(2)]) simp
    finally show ?thesis by simp
  qed
qed

context wire_format
begin

lemma read_message:
  assumes "wf m" "enc m = Ok b" "int (length b) \<le> limit" "header \<le> 1024" "arrives b es"
  shows "read_loop frame_len parse [] (replicate 1024 0) 0 (es @ tail) = Some (tail, Ok m)"
proof -
  have "read_loop frame_len parse [] (replicate 1024 0) 0 (es @ tail) = Some (tail, parse (Some ([] @ b)))"
    using assms frame_len_prefix by (intro read_loop_arrives) auto
  then show ?thesis using parse_enc assms by simp
qed

text \<open>
  What happens otherwise. Bytes that follow a message in the same buffer are dropped; and when only a
  part of a message has arrived, the buffer's zero bytes are taken for the rest of it.
\<close>

lemma read_message_drops_rest:
  assumes "wf m" "enc m = Ok b" "int (length b) \<le> limit" "length (b @ rest) \<le> 1024"
  shows "read_loop frame_len parse [] (replicate 1024 0) 0 (Data (b @ rest) # tail) = Some (tail, Ok m)"
proof -
  have "b \<noteq> []" using enc_total [OF assms(1)] assms(2) by auto
  moreover have read: "conn_read (Data (b @ rest) # tail) = Some (Data (b @ rest), tail)" using assms(4) by simp
  moreover have "frame_len (Some ((b @ rest) @ drop (length (b @ rest)) (replicate 1024 0))) = Ok (int (length b))"
    using frame_len_whole [OF assms(1-3)] by simp
  moreover have "Min_int (int (length ((b @ rest) @ drop (length (b @ rest)) (replicate 1024 (0::byte))))) (int (length b)) =
      int (length b)"
    using assms(4) by (simp add: Min_int_def)
  ultimately show ?thesis
    unfolding read_loop_Data [OF read] using parse_enc [OF assms(1-3)] by simp
qed

lemma read_message_short:
  assumes "wf m" "enc m = Ok (c @ d)" "int (length (c @ d)) \<le> limit" "length (c @ d) \<le> 1024" "header \<le> length c"
    and "c \<noteq> []"
  shows "read_loop frame_len parse [] (replicate 1024 0) 0 (Data c # tail) =
    Some (tail, parse (Some (c @ replicate (length d) 0)))"
proof -
  have read: "conn_read (Data c # tail) = Some (Data c, tail)" using assms(4) by simp
  have buf: "c @ drop (length c) (replicate 1024 0) = c @ replicate (1024 - length c) (0 :: byte)" by simp
  have "frame_len (Some (c @ replicate (1024 - length c) 0)) = Ok (int (length (c @ d)))"
    using assms by (intro frame_len_prefix) auto
  moreover have "Min_int (int (length (c @ replicate (1024 - length c) (0 :: byte)))) (int (length (c @ d))) =
      int (length (c @ d))"
    using assms(4) by (simp add: Min_int_def)
  moreover have "length d \<le> 1024 - length c" using assms(4) by simp
  ultimately show ?thesis
    unfolding read_loop_Data [OF read] buf using assms(4,6) \<open>length d \<le> 1024 - length c\<close>
    by (simp add: min_def nat_add_distrib)
qed

end

section \<open>No input makes the reader panic\<close>

lemma read_loop_returns:
  assumes "\<And>buf. returns (parse_len buf)" "\<And>buf. returns (parse buf)"
    and "read_loop parse_len parse totalBuff msgBuf remaining es = Some (es', r)"
  shows "returns r"
  using assms
proof (induction parse_len parse totalBuff msgBuf remaining es rule: read_loop.induct)
  case (1 parse_len parse totalBuff msgBuf remaining es)
  obtain e rest where read: "conn_read es = Some (e, rest)"
    using 1(5) by (cases "conn_read es") (auto simp: read_loop.simps)
  show ?case
  proof (cases e)
    case (ReadTimeout d)
    then show ?thesis
      using 1(2) [OF read refl ReadTimeout] 1(3-5) read
      by (cases d) (auto simp: read_loop.simps [of _ _ _ _ _ es])
  next
    case (Data bs)
    let ?buf = "bs @ drop (length bs) msgBuf"
    let ?len = "if remaining = 0 then parse_len (Some ?buf) else Ok remaining"
    note step = read_loop_Data [OF read [unfolded Data], of parse_len parse totalBuff msgBuf remaining]
    show ?thesis
    proof (cases "length bs = 0")
      case True
      then show ?thesis using 1(5) step by auto
    next
      case ne: False
      show ?thesis
      proof (cases ?len)
        case (Ok n)
        then show ?thesis
          using 1(5) step ne Ok 1(4) 1(1) [OF read refl Data ne refl Ok refl refl refl _ 1(3,4)]
          by (simp only: if_False res.case option.inject prod.inject split: if_splits) (fast | metis)+
      qed (use 1(5) step ne 1(3) [of "Some ?buf"] in \<open>auto split: if_splits\<close>)
    qed
  qed (use 1(5) read in \<open>auto simp: read_loop.simps [of _ _ _ _ _ es]\<close>)
qed

lemma ReadPeerMsg_returns: "ReadPeerMsg track es inbound = Some (es', inbound', r) \<Longrightarrow> returns r"
  by (auto simp: ReadPeerMsg_def split: option.splits prod.splits res.splits
      dest!: read_loop_returns [OF ParseRawPeerMsgLength_returns NewPeerMsgFromBuffer_returns])

lemma reader_loop_None: "ReadPeerMsg track es inbound = None \<Longrightarrow> StartPeerMsgReaderLoop track es inbound = ([], inbound, None)"
  by (subst StartPeerMsgReaderLoop.simps) simp

lemma reader_loop_Ok:
  "ReadPeerMsg track es inbound = Some (es', inbound', Ok m) \<Longrightarrow>
   StartPeerMsgReaderLoop track es inbound =
     (let (sent, inbound, end) = StartPeerMsgReaderLoop track es' inbound' in (m # sent, inbound, end))"
  by (subst StartPeerMsgReaderLoop.simps) simp

lemma reader_loop_stop:
  "ReadPeerMsg track es inbound = Some (es', inbound', r) \<Longrightarrow> \<not> is_Ok r \<Longrightarrow>
   StartPeerMsgReaderLoop track es inbound = ([], inbound', Some r)"
  by (subst StartPeerMsgReaderLoop.simps) (cases r; simp)

lemma ReadPeerMsg_arrives:
  assumes "wf_msg m" "PeerMsg_Bytes m = Ok b" "length b \<le> 16640" "arrives b es"
  shows "ReadPeerMsg track (es @ tail) inbound = Some (tail, if track then inbound @ [m] else inbound, Ok m)"
  using wire.read_message [OF assms(1,2) _ _ assms(4), of tail] assms(3) by (simp add: ReadPeerMsg_def)

section \<open>Properties\<close>

text \<open>
  The reader delivers every message, in order: when each message of a list arrives in whole buffers (as it
  does when the sender writes one message at a time and the network keeps it together), with any number of read timeouts
  ignored while a download is on, the reader loop sends exactly these messages to its channel, records them when
  messages are tracked, and ends with \<open>ERR_PEER_LISTEN_EOF\<close> when the connection is closed.
\<close>

lemma reader_delivers:
  assumes "list_all2 (\<lambda>m es. wf_msg m \<and> (\<exists>b. PeerMsg_Bytes m = Ok b \<and> length b \<le> 16640 \<and> arrives b es)) ms ess"
  shows "StartPeerMsgReaderLoop track (concat ess @ [ReadEOF]) inbound =
    (ms, if track then inbound @ ms else inbound, Some (Err ERR_PEER_LISTEN_EOF))"
  using assms
proof (induction ms ess arbitrary: inbound rule: list_all2_induct)
  case Nil
  have "ReadPeerMsg track [ReadEOF] inbound = Some ([], inbound, Err ERR_PEER_LISTEN_EOF)"
    by (simp add: ReadPeerMsg_def read_loop.simps)
  then show ?case using reader_loop_stop by simp
next
  case (Cons m ms es ess)
  then obtain b where "wf_msg m" "PeerMsg_Bytes m = Ok b" "length b \<le> 16640" "arrives b es" by blast
  note read = ReadPeerMsg_arrives [OF this, of track "concat ess @ [ReadEOF]" inbound]
  show ?case using reader_loop_Ok [of track "concat (es # ess) @ [ReadEOF]" inbound] read Cons.IH by simp
qed

lemma reader_delivers_sample:
  "StartPeerMsgReaderLoop True
     [ReadTimeout True, Data [0, 0, 0, 5, 4, 0, 0, 0, 7], Data [0, 0, 0, 0], ReadEOF] [] =
   ([HavePeerMsg [0, 0, 0, 7], KeepAlivePeerMsg []], [HavePeerMsg [0, 0, 0, 7], KeepAlivePeerMsg []],
    Some (Err ERR_PEER_LISTEN_EOF))"
  using reader_delivers [of "[HavePeerMsg [0, 0, 0, 7], KeepAlivePeerMsg []]"
      "[[ReadTimeout True, Data [0, 0, 0, 5, 4, 0, 0, 0, 7]], [Data [0, 0, 0, 0]]]" True "[]"]
  by (simp add: HavePeerMsg_Bytes_def KeepAlivePeerMsg_Bytes_def byte_simps)


text \<open>
  (C20) Two messages in one buffer: when the bytes of a message are followed by others in the same \<open>Read\<close>, as TCP is
  free to deliver them, the first message is returned and everything after it is thrown away: the next
  call reads on at the bytes after the buffer. The comment in \<open>ReadPeerMsg\<close> names this case and cuts the first message out of it; the rest is not kept.
\<close>

theorem coalesced_bytes_lost:
  assumes "wf_msg m" "PeerMsg_Bytes m = Ok b" "length (b @ rest) \<le> 1024"
  shows "ReadPeerMsg False (Data (b @ rest) # tail) inbound = Some (tail, inbound, Ok m)"
  using wire.read_message_drops_rest [OF assms(1,2) _ assms(3), of tail] assms(3)
  by (simp add: ReadPeerMsg_def)

theorem coalesced_bytes_lost_witness:
  "StartPeerMsgReaderLoop False [Data ([0, 0, 0, 1, 2] @ [0, 0, 0, 1, 1]), ReadEOF] [] =
     ([InterestedPeerMsg []], [], Some (Err ERR_PEER_LISTEN_EOF))"
proof -
  have "ReadPeerMsg False [Data ([0, 0, 0, 1, 2] @ [0, 0, 0, 1, 1]), ReadEOF] [] =
      Some ([ReadEOF], [], Ok (InterestedPeerMsg []))"
    by (rule coalesced_bytes_lost) (simp_all add: InterestedPeerMsg_Bytes_def byte_simps)
  moreover have "ReadPeerMsg False [ReadEOF] [] = Some ([], [], Err ERR_PEER_LISTEN_EOF)"
    by (simp add: ReadPeerMsg_def read_loop.simps)
  ultimately show ?thesis using reader_loop_Ok reader_loop_stop by simp
qed

text \<open>
  (C21) A message in two packets: when only the first \<open>length c\<close> bytes (twenty at least) of a message of up to 1024 bytes have
  arrived, the reader does not wait for the others: it takes the zero bytes of its buffer for them and parses
  the result; the bytes that arrive later are read as the start of a new message.
\<close>

theorem short_read_zero_filled:
  assumes "wf_msg m" "PeerMsg_Bytes m = Ok (c @ d)" "length (c @ d) \<le> 1024" "20 \<le> length c"
  shows "ReadPeerMsg False (Data c # tail) inbound =
    Some (tail, inbound, NewPeerMsgFromBuffer (Some (c @ replicate (length d) 0)))"
proof -
  have "c \<noteq> []" using assms(4) by auto
  then show ?thesis
    using wire.read_message_short [OF assms(1,2) _ assms(3,4), of tail] assms(3)
    by (auto simp: ReadPeerMsg_def split: res.splits)
qed

theorem short_read_zero_filled_witness:
  "ReadPeerMsg False [Data ([0, 0, 0, 20, 7, 0, 0, 0, 1, 0, 0, 0, 0] @ replicate 7 9), Data (replicate 4 9)] [] =
     Some ([Data (replicate 4 9)], [],
       Ok (PiecePeerMsg ([0, 0, 0, 1, 0, 0, 0, 0] @ replicate 7 9 @ replicate 4 0)))"
proof -
  let ?c = "[0, 0, 0, 20, 7, 0, 0, 0, 1, 0, 0, 0, 0] @ replicate 7 (9 :: byte)"
  let ?p = "[0, 0, 0, 1, 0, 0, 0, 0] @ replicate 7 (9 :: byte) @ replicate 4 9"
  have enc: "PeerMsg_Bytes (PiecePeerMsg ?p) = Ok (?c @ replicate 4 9)"
    by (simp add: PiecePeerMsg_Bytes_def PutUint32_def byte_simps)
  have "NewPeerMsgFromBuffer (Some (?c @ replicate 4 0)) =
      Ok (PiecePeerMsg ([0, 0, 0, 1, 0, 0, 0, 0] @ replicate 7 9 @ replicate 4 0))"
    by (simp add: NewPeerMsgFromBuffer_def IsPeerHandshakeMsg_def read_at_def slice_bytes_def msg_of_id_def byte_simps)
  then show ?thesis using short_read_zero_filled [OF _ enc, of "[Data (replicate 4 9)]" "[]"] by simp
qed

end
