(* ===== verification/Conn_Writer.thy ===== *)
theory Conn_Writer
  imports MsgReader
begin

text \<open>
  The goroutine that \<open>NewPeerConnection\<close> of \<^verbatim>\<open>peer/peerconn.go\<close> starts: it takes the messages of \<open>connWriterChan\<close> one by one and
  writes them to the connection; and what it gives together with the reader at the other end.
\<close>

section \<open>The writer\<close>

text \<open>What \<open>Conn.Write(b)\<close> returns: the number of bytes, an error whose text holds \<^verbatim>\<open>broken pipe\<close>, another error.\<close>

datatype write_result = Wrote nat | BrokenPipe | WriteError

text \<open>
  \<open>conn_writer track queue results outbound\<close>: \<open>queue\<close> holds the messages sent to \<open>connWriterChan\<close>, \<open>results\<close> what the calls of \<open>Write\<close>
  return, one after the other; \<open>track\<close> is \<open>FromPeer != nil && FromPeer.doTrackMsgs\<close>, \<open>outbound\<close> is \<open>FromPeer.outboundPeerMsgs\<close>. The
  result: the byte strings that were written in full, \<open>outbound\<close>, and how the goroutine ended: \<open>Err e\<close> is
  \<open>errChan <- PeerAndError{FromPeer, e}\<close> and the return, \<open>None\<close> that it waits, for a message or for \<open>Write\<close>.
\<close>

fun conn_writer :: "bool \<Rightarrow> PeerMsg list \<Rightarrow> write_result list \<Rightarrow> PeerMsg list \<Rightarrow>
    bytes list \<times> PeerMsg list \<times> unit res option" where
  "conn_writer track [] results outbound = ([], outbound, None)"
| "conn_writer track (peerMsg # queue) results outbound =
     (case PeerMsg_Bytes peerMsg of
       Err e \<Rightarrow> ([], outbound, Some (Err ERR_PEERCONN_WRITE))
     | Panic p \<Rightarrow> ([], outbound, Some (Panic p))
     | Hang \<Rightarrow> ([], outbound, Some Hang)
     | Ok b \<Rightarrow>
         (case results of
           [] \<Rightarrow> ([], outbound, None)
         | BrokenPipe # results \<Rightarrow> ([], outbound, Some (Err ERR_PEERCONN_WRITE__CLOSED_CONN))
         | WriteError # results \<Rightarrow> ([], outbound, Some (Err ERR_PEERCONN_WRITE))
         | Wrote n # results \<Rightarrow>
             if n \<noteq> length b then ([], outbound, Some (Panic ExplicitPanic))
             else let (written, outbound, end) =
                 conn_writer track queue results (if track then outbound @ [peerMsg] else outbound) in
               (b # written, outbound, end)))"

text \<open>\<open>Write\<close> of a \<open>net.Conn\<close> returns fewer bytes than it was given only together with an error.\<close>

definition writes_ok :: "PeerMsg list \<Rightarrow> write_result list \<Rightarrow> bool" where
  "writes_ok ms results \<longleftrightarrow> list_all2 (\<lambda>m r. case r of Wrote n \<Rightarrow> \<forall>b. PeerMsg_Bytes m = Ok b \<longrightarrow> n = length b | _ \<Rightarrow> True)
     (take (length results) ms) (take (length ms) results)"

lemma writes_ok_Cons:
  "writes_ok (m # ms) (r # rs) \<longleftrightarrow> (case r of Wrote n \<Rightarrow> \<forall>b. PeerMsg_Bytes m = Ok b \<longrightarrow> n = length b | _ \<Rightarrow> True) \<and> writes_ok ms rs"
  by (simp add: writes_ok_def)

lemma writes_ok_Nil [simp]: "writes_ok ms []"
  by (simp add: writes_ok_def)

text \<open>What was written is the encoding of the first messages; the others are not touched.\<close>

lemma conn_writer_prefix:
  assumes "conn_writer track ms rs out = (written, out', end)"
  shows "length written \<le> length ms \<and> list_all2 (\<lambda>m b. PeerMsg_Bytes m = Ok b) (take (length written) ms) written \<and>
    out' = (if track then out @ take (length written) ms else out)"
  using assms
proof (induction track ms rs out arbitrary: written out' rule: conn_writer.induct)
  case (2 track m ms rs out)
  from "2.prems" consider (stop) "written = []" "out' = out"
    | (step) b rs' written' where "PeerMsg_Bytes m = Ok b" "rs = Wrote (length b) # rs'" "written = b # written'"
        "conn_writer track ms rs' (if track then out @ [m] else out) = (written', out', end)"
    by (auto simp: Let_def split: res.splits list.splits write_result.splits if_splits prod.splits)
  then show ?case
  proof cases
    case (step b rs' written')
    from "2.IH" [OF step(1,2) refl _ step(4)] step show ?thesis by simp
  qed simp
qed simp

text \<open>It ends for an error, never by a panic, as long as the messages can be encoded.\<close>

lemma conn_writer_end:
  assumes "conn_writer track ms rs out = (written, out', end)" "\<forall>m \<in> set ms. \<exists>b. PeerMsg_Bytes m = Ok b" "writes_ok ms rs"
  shows "case end of
      None \<Rightarrow> length written = min (length ms) (length rs)
    | Some r \<Rightarrow> length written < length ms \<and> length written < length rs \<and>
        r = Err (if rs ! length written = BrokenPipe then ERR_PEERCONN_WRITE__CLOSED_CONN else ERR_PEERCONN_WRITE)"
  using assms
proof (induction track ms rs out arbitrary: written out' rule: conn_writer.induct)
  case (2 track m ms rs out)
  then obtain b where b: "PeerMsg_Bytes m = Ok b" by auto
  show ?case
  proof (cases rs)
    case (Cons r rs')
    show ?thesis
    proof (cases r)
      case (Wrote n)
      then have n: "n = length b" and ok: "writes_ok ms rs'"
        using "2.prems"(3) b Cons by (auto simp: writes_ok_Cons)
      from "2.prems"(1) obtain written' where w: "written = b # written'"
          "conn_writer track ms rs' (if track then out @ [m] else out) = (written', out', end)"
        using b Cons Wrote n by (auto split: prod.splits)
      have "case end of None \<Rightarrow> length written' = min (length ms) (length rs')
        | Some r \<Rightarrow> length written' < length ms \<and> length written' < length rs' \<and>
            r = Err (if rs' ! length written' = BrokenPipe then ERR_PEERCONN_WRITE__CLOSED_CONN else ERR_PEERCONN_WRITE)"
        using "2.IH" [OF b Cons Wrote _ w(2)] n "2.prems"(2) ok by simp
      then show ?thesis using w(1) Cons by (auto split: option.splits)
    qed (use "2.prems"(1) b Cons in \<open>auto\<close>)
  qed (use "2.prems"(1) b in \<open>auto\<close>)
qed auto

section \<open>Writer and reader\<close>



end
