(* ===== verification/Peers.thy ===== *)
theory Peers
  imports PeerMsg
begin

text \<open>
  \<^verbatim>\<open>peer/peer.go\<close>: what a client knows of the peers a tracker names, how the tracker's answer is decoded, and peer ids. The
  bencode decoder, \<open>net.ParseIP\<close>, the MD5 sum and the random source are arguments. Of the fields of \<open>Peer\<close>, the
  connection and the client keep the others (\<open>PeerConn\<close>, \<open>Client\<close>).
\<close>

section \<open>Peers\<close>

record Peer =
  peer_Name :: string
  peer_IP :: bytes
  peer_Port :: int
  peer_ID :: bytes

definition zero_peer :: Peer where
  "zero_peer = \<lparr>peer_Name = '''', peer_IP = [], peer_Port = 0, peer_ID = replicate 20 0\<rparr>"

text \<open>\<open>copy(id[:], s)\<close> into a fresh array of 20 bytes.\<close>

definition copy_20 :: "bytes \<Rightarrow> bytes" where
  "copy_20 s = take 20 s @ replicate (20 - length s) 0"

lemma length_copy_20 [simp]: "length (copy_20 s) = 20"
  by (simp add: copy_20_def)

definition FromNodeAddr :: "bytes \<Rightarrow> int \<Rightarrow> Peer \<Rightarrow> Peer" where
  "FromNodeAddr ip port p = p\<lparr>peer_IP := ip, peer_Port := port\<rparr>"

text \<open>\<open>rand.Read\<close> of twelve bytes fails (\<open>None\<close>) or gives them.\<close>

definition MakePeerId :: "bytes option \<Rightarrow> bytes res" where
  "MakePeerId rnd = (case rnd of None \<Rightarrow> Panic ExplicitPanic | Some b \<Rightarrow> Ok (copy_20 (bytes_of_string ''-BN0001-'' @ b)))"

definition hex_digit :: "nat \<Rightarrow> byte" where
  "hex_digit n = (if n < 10 then word_of_nat (48 + n) else word_of_nat (87 + n))"

definition hex_encode :: "bytes \<Rightarrow> bytes" where
  "hex_encode s = concat (map (\<lambda>b. [hex_digit (unat b div 16), hex_digit (unat b mod 16)]) s)"

definition StringifyID :: "(bytes \<Rightarrow> bytes) \<Rightarrow> Peer \<Rightarrow> bytes" where
  "StringifyID md5_Sum self = take 8 (peer_ID self) @ hex_encode (md5_Sum (drop 8 (peer_ID self)))"

section \<open>The peers in a tracker's answer\<close>

text \<open>What \<open>bencode.Unmarshal\<close> stores in an \<open>interface{}\<close>.\<close>

datatype bvalue =
    BString bytes
  | BInt int
  | BList "bvalue list"
  | BDict "(string \<times> bvalue) list"

text \<open>
  The non-compact form: \<open>d["ip"].(string)\<close> panics on a missing key or another type. A dictionary that holds no peer id keeps
  the zero id.
\<close>

fun as_string :: "bvalue option \<Rightarrow> bytes res" where
  "as_string (Some (BString s)) = Ok s"
| "as_string _ = Panic TypeAssertion"

fun as_int :: "bvalue option \<Rightarrow> int res" where
  "as_int (Some (BInt i)) = Ok i"
| "as_int _ = Panic TypeAssertion"

fun as_dict :: "bvalue \<Rightarrow> (string \<times> bvalue) list res" where
  "as_dict (BDict d) = Ok d"
| "as_dict _ = Panic TypeAssertion"

definition FromDictInterface :: "(bytes \<Rightarrow> bytes) \<Rightarrow> (string \<times> bvalue) list \<Rightarrow> Peer \<Rightarrow> Peer res" where
  "FromDictInterface ParseIP d p =
     res_bind (as_string (map_of d ''ip'')) (\<lambda>ip.
     let p = p\<lparr>peer_IP := ParseIP ip\<rparr> in
     res_bind (if map_of d ''peer id'' \<noteq> None
         then res_bind (as_string (map_of d ''peer id'')) (\<lambda>idAsSlice. Ok (p\<lparr>peer_ID := copy_20 idAsSlice\<rparr>))
         else Ok p) (\<lambda>p.
     res_bind (as_int (map_of d ''port'')) (\<lambda>port.
       Ok (p\<lparr>peer_Port := port\<rparr>))))"

text \<open>
  The compact form, \<open>UnmarshalBinary\<close> of \<^verbatim>\<open>vendor/github.com/anacrolix/dht/krpc\<close>: six bytes for each peer, the port in big-endian order;
  an error when bytes are left over.
\<close>

definition Uint16 :: "byte \<Rightarrow> byte \<Rightarrow> int" where
  "Uint16 a b = uint a * 256 + uint b"

fun compact_addrs :: "bytes \<Rightarrow> (bytes \<times> int) list option" where
  "compact_addrs [] = Some []"
| "compact_addrs (a # b # c # d # e # f # rest) =
     (case compact_addrs rest of None \<Rightarrow> None | Some cnas \<Rightarrow> Some (([a, b, c, d], Uint16 e f) # cnas))"
| "compact_addrs _ = None"

text \<open>\<open>Unmarshal\<close> is the call of \<open>bencode.Unmarshal\<close>; the state is the slice of peers, \<open>*self\<close>.\<close>

definition UnmarshalBencode :: "(bytes \<Rightarrow> bvalue option) \<Rightarrow> (bytes \<Rightarrow> bytes) \<Rightarrow> bytes \<Rightarrow> (Peer list, unit) act" where
  "UnmarshalBencode Unmarshal ParseIP b self =
     (case Unmarshal b of
       None \<Rightarrow> (self, Err LibError)
     | Some (BString v) \<Rightarrow>
         (case compact_addrs v of
           None \<Rightarrow> (self, Err LibError)
         | Some cnas \<Rightarrow> (self @ map (\<lambda>(ip, port). zero_peer\<lparr>peer_IP := ip, peer_Port := port\<rparr>) cnas, Ok ()))
     | Some (BList v) \<Rightarrow>
         for_act (\<lambda>i self. act_bind (ret (res_bind (as_dict i) (\<lambda>d. FromDictInterface ParseIP d zero_peer)))
           (\<lambda>p self. (self @ [p], Ok ())) self) v self
     | Some _ \<Rightarrow> (self, Err LibError))"

section \<open>Properties\<close>

text \<open>The compact form of a peer.\<close>

definition compact :: "Peer \<Rightarrow> bytes" where
  "compact p = peer_IP p @ [word_of_int (peer_Port p div 256), word_of_int (peer_Port p)]"

definition compact_ok :: "Peer \<Rightarrow> bool" where
  "compact_ok p \<longleftrightarrow> length (peer_IP p) = 4 \<and> 0 \<le> peer_Port p \<and> peer_Port p < 65536"

lemma Uint16_compact: "0 \<le> port \<Longrightarrow> port < 65536 \<Longrightarrow> Uint16 (word_of_int (port div 256)) (word_of_int port) = port"
  by (simp add: Uint16_def uint_word_of_int take_bit_eq_mod)

lemma compact_addrs_append:
  assumes "compact_ok p"
  shows "compact_addrs (compact p @ rest) = map_option (\<lambda>cnas. (peer_IP p, peer_Port p) # cnas) (compact_addrs rest)"
proof -
  obtain a b c d where "peer_IP p = [a, b, c, d]"
    using assms by (auto simp: compact_ok_def length_Suc_conv eval_nat_numeral)
  then show ?thesis
    using assms Uint16_compact [of "peer_Port p"] by (auto simp: compact_def compact_ok_def split: option.split)
qed

lemma compact_addrs_peers:
  "\<forall>p \<in> set ps. compact_ok p \<Longrightarrow> compact_addrs (concat (map compact ps)) = Some (map (\<lambda>p. (peer_IP p, peer_Port p)) ps)"
  by (induction ps) (auto simp: compact_addrs_append)

lemma compact_addrs_length: "compact_addrs s = Some cnas \<Longrightarrow> length s = 6 * length cnas"
  by (induction s arbitrary: cnas rule: compact_addrs.induct) (auto split: option.splits)

text \<open>
  (C28) The compact answer of a tracker is decoded exactly: the peers it lists are appended in order, with their addresses and ports and the zero id; a
  string whose length is not a multiple of six is an error and appends nothing.
\<close>

theorem compact_peers_roundtrip:
  assumes "\<forall>p \<in> set ps. compact_ok p" "Unmarshal b = Some (BString (concat (map compact ps) @ rest))" "length rest < 6"
  shows "UnmarshalBencode Unmarshal ParseIP b self =
    (if rest = [] then (self @ map (\<lambda>p. zero_peer\<lparr>peer_IP := peer_IP p, peer_Port := peer_Port p\<rparr>) ps, Ok ())
     else (self, Err LibError))"
proof (cases "rest = []")
  case True
  then show ?thesis using compact_addrs_peers [OF assms(1)] assms(2) by (simp add: UnmarshalBencode_def comp_def)
next
  case False
  have "compact_addrs (concat (map compact ps) @ rest) = None"
  proof (rule ccontr)
    assume "compact_addrs (concat (map compact ps) @ rest) \<noteq> None"
    then obtain cnas where "compact_addrs (concat (map compact ps) @ rest) = Some cnas" by auto
    from compact_addrs_length [OF this] have "length (concat (map compact ps)) + length rest = 6 * length cnas" by simp
    moreover have "length (concat (map compact ps)) = 6 * length ps"
      using assms(1) by (induction ps) (auto simp: compact_ok_def compact_def)
    ultimately have "length rest = 6 * (length cnas - length ps)" by (simp add: diff_mult_distrib2)
    then show False using assms(3) False by (cases "length cnas - length ps") auto
  qed
  then show ?thesis using assms(2) False by (simp add: UnmarshalBencode_def)
qed

theorem compact_peers_roundtrip_witness:
  "UnmarshalBencode (\<lambda>b. Some (BString (drop 3 b))) id ([49, 50, 58] @ [10, 0, 0, 1, 0x1A, 0xE1] @ [10, 0, 0, 2, 0, 80]) [] =
     ([zero_peer\<lparr>peer_IP := [10, 0, 0, 1], peer_Port := 6881\<rparr>, zero_peer\<lparr>peer_IP := [10, 0, 0, 2], peer_Port := 80\<rparr>], Ok ())"
  using compact_peers_roundtrip [of "[zero_peer\<lparr>peer_IP := [10, 0, 0, 1], peer_Port := 6881\<rparr>, zero_peer\<lparr>peer_IP := [10, 0, 0, 2], peer_Port := 80\<rparr>]"
      "\<lambda>b. Some (BString (drop 3 b))" "[49, 50, 58] @ [10, 0, 0, 1, 0x1A, 0xE1] @ [10, 0, 0, 2, 0, 80]" "[]" id "[]"]
  by (simp add: compact_def compact_ok_def)

text \<open>The dictionary form is taken on trust: a peer without an address, or an element that is no dictionary, panics.\<close>

lemma dict_peer_panics:
  assumes "Unmarshal b = Some (BList (BDict d # v))" "map_of d ''ip'' = None"
  shows "UnmarshalBencode Unmarshal ParseIP b self = (self, Panic TypeAssertion)"
  using assms by (simp add: UnmarshalBencode_def FromDictInterface_def act_bind_def ret_def)

lemma dict_peer_decoded:
  assumes "Unmarshal b = Some (BList [BDict d])" "map_of d ''ip'' = Some (BString ip)" "map_of d ''port'' = Some (BInt port)"
    and "map_of d ''peer id'' = Some (BString peerId)"
  shows "UnmarshalBencode Unmarshal ParseIP b self =
    (self @ [zero_peer\<lparr>peer_IP := ParseIP ip, peer_ID := copy_20 peerId, peer_Port := port\<rparr>], Ok ())"
  using assms by (simp add: UnmarshalBencode_def FromDictInterface_def act_bind_def ret_def)

lemma MakePeerId_length: "length b = 12 \<Longrightarrow> MakePeerId (Some b) = Ok (bytes_of_string ''-BN0001-'' @ b)"
  by (simp add: MakePeerId_def copy_20_def bytes_of_string_def)

lemma length_StringifyID: "length (peer_ID p) = 20 \<Longrightarrow> (\<And>s. length (md5 s) = 16) \<Longrightarrow> length (StringifyID md5 p) = 40"
  by (simp add: StringifyID_def hex_encode_def length_concat comp_def sum_list_triv)

end
