(* ===== verification/Announce.thy ===== *)
theory Announce
  imports Peers FileInfo
begin

text \<open>
  \<^verbatim>\<open>announce/announce.go\<close>: asking the trackers of a torrent for peers. The HTTP client, the bencode decoder and SHA-1 are
  arguments; the state is the list of requests that were sent.
\<close>

section \<open>Announce URLs\<close>

definition HasPrefix :: "string \<Rightarrow> string \<Rightarrow> bool" where
  "HasPrefix s p \<longleftrightarrow> take (length p) s = p"

datatype announce_kind = ANNOUNCEURLKIND_DHT | ANNOUNCEURLKIND_UDP | ANNOUNCEURLKIND_HTTP

record AnnounceUrl =
  au_url :: string
  au_kind :: announce_kind

definition NewAnnounceUrl :: "string \<Rightarrow> AnnounceUrl res" where
  "NewAnnounceUrl url =
     (if HasPrefix url ''dht'' then Ok \<lparr>au_url = url, au_kind = ANNOUNCEURLKIND_DHT\<rparr>
      else if HasPrefix url ''udp'' then Ok \<lparr>au_url = url, au_kind = ANNOUNCEURLKIND_UDP\<rparr>
      else if HasPrefix url ''http'' then Ok \<lparr>au_url = url, au_kind = ANNOUNCEURLKIND_HTTP\<rparr>
      else Err ERR_ANNOUNCEURL)"

section \<open>Querying trackers\<close>

record AnnounceHandshakeParams =
  ap_InfoHash :: bytes
  ap_PeerId :: bytes
  ap_Port :: string
  ap_Uploaded :: string
  ap_Downloaded :: string
  ap_Left :: string
  ap_Event :: string

record AnnounceUrlResponse =
  ar_FailureReason :: string
  ar_Interval :: "32 word"
  ar_TrackerId :: string
  ar_Complete :: "32 word"
  ar_Incomplete :: "32 word"
  ar_Peers :: "Peer list"

definition empty_response :: AnnounceUrlResponse where
  "empty_response = \<lparr>ar_FailureReason = '''', ar_Interval = 0, ar_TrackerId = '''', ar_Complete = 0, ar_Incomplete = 0, ar_Peers = []\<rparr>"

text \<open>
  What the code gets from its libraries: whether \<open>http.NewRequest\<close> accepts a URL; what \<open>client.Do\<close> returns for a URL and the
  parameters added to its query (\<open>None\<close> for an error, else the status code and the body); and \<open>bencode.Unmarshal\<close>
  into a response that may hold values already (what it has stored there, and its outcome: it calls back
  \<^verbatim>\<open>UnmarshalBencode\<close> of \<^verbatim>\<open>peer/peer.go\<close>, which can panic).
\<close>

record trackers =
  tr_NewRequest :: "string \<Rightarrow> bool"
  tr_Do :: "string \<Rightarrow> AnnounceHandshakeParams \<Rightarrow> (int \<times> bytes) option"
  tr_Unmarshal :: "bytes \<Rightarrow> (AnnounceUrlResponse, unit) act"

type_synonym sent_requests = "(string \<times> AnnounceHandshakeParams) list"

text \<open>The loop over the usable URLs: \<open>decodedRespBody\<close> is one variable for all of them.\<close>

fun query_loop :: "trackers \<Rightarrow> AnnounceHandshakeParams \<Rightarrow> string list \<Rightarrow> AnnounceUrlResponse \<Rightarrow>
    (sent_requests, AnnounceUrlResponse \<times> bool) act" where
  "query_loop tr params [] decodedRespBody sent = (sent, Ok (decodedRespBody, False))"
| "query_loop tr params (announceUrl # urls) decodedRespBody sent =
     (if \<not> tr_NewRequest tr announceUrl then (sent, Err ERR_QUERY_ANNOUNCE)
      else
        let sent = sent @ [(announceUrl, params)] in
        case tr_Do tr announceUrl params of
          None \<Rightarrow> query_loop tr params urls decodedRespBody sent
        | Some (status, body) \<Rightarrow>
            if \<not> (status \<ge> 100 \<and> status \<le> 299) then query_loop tr params urls decodedRespBody sent
            else (case tr_Unmarshal tr body decodedRespBody of
                (decodedRespBody, Ok u) \<Rightarrow> (sent, Ok (decodedRespBody, True))
              | (decodedRespBody, Err e) \<Rightarrow> query_loop tr params urls decodedRespBody sent
              | (decodedRespBody, Panic p) \<Rightarrow> (sent, Panic p)
              | (decodedRespBody, Hang) \<Rightarrow> (sent, Hang)))"

text \<open>
  The two results of the function are a response that may be nil and an error that may be nil. The function returns a response
  with an error when a tracker reports a failure.
\<close>

definition QueryAnnounceUrls :: "trackers \<Rightarrow> string list \<Rightarrow> AnnounceHandshakeParams \<Rightarrow> sent_requests \<Rightarrow>
    sent_requests \<times> (AnnounceUrlResponse option \<times> go_error option) res" where
  "QueryAnnounceUrls tr announceUrls params sent =
     (let usableAnnounceUrls = filter (\<lambda>u. HasPrefix u ''http'') announceUrls in
      if length usableAnnounceUrls = 0 then (sent, Ok (None, Some ERR_QUERY_ANNOUNCE))
      else (case query_loop tr params usableAnnounceUrls empty_response sent of
          (sent, Ok (decodedRespBody, foundValidResp)) \<Rightarrow>
            if length (ar_FailureReason decodedRespBody) \<noteq> 0 then (sent, Ok (Some decodedRespBody, Some ERR_QUERY_ANNOUNCE))
            else if \<not> foundValidResp then (sent, Ok (None, Some ERR_QUERY_ANNOUNCE))
            else (sent, Ok (Some decodedRespBody, None))
        | (sent, Err e) \<Rightarrow> (sent, Ok (None, Some e))
        | (sent, Panic p) \<Rightarrow> (sent, Panic p)
        | (sent, Hang) \<Rightarrow> (sent, Hang)))"

section \<open>The parameters, and GetPeers\<close>

record MetaInfo =
  mi_InfoBytes :: bytes
  mi_Announce :: string
  mi_AnnounceList :: "string list list"
  mi_UrlList :: "string list"

text \<open>The length of the torrent, added up in a \<open>uint64\<close>.\<close>

definition total_length :: "Info \<Rightarrow> 64 word" where
  "total_length myInfo =
     (if info_Length myInfo \<noteq> 0 then word_of_int (info_Length myInfo)
      else fold (\<lambda>len total. total + word_of_int len) (info_Files myInfo) 0)"

definition GetAnnounceHandshakeParams ::
    "(bytes \<Rightarrow> bytes) \<Rightarrow> (bytes \<Rightarrow> Info option) \<Rightarrow> MetaInfo \<Rightarrow> bytes \<Rightarrow> AnnounceHandshakeParams res" where
  "GetAnnounceHandshakeParams sha1_Sum UnmarshalInfo myMetainfo myPeerId =
     (case UnmarshalInfo (mi_InfoBytes myMetainfo) of
       None \<Rightarrow> Err LibError
     | Some myInfo \<Rightarrow> Ok \<lparr>ap_InfoHash = sha1_Sum (mi_InfoBytes myMetainfo), ap_PeerId = myPeerId, ap_Port = ''6881'',
         ap_Uploaded = ''0'', ap_Downloaded = ''0'', ap_Left = dec_digits (unat (total_length myInfo)), ap_Event = ''started''\<rparr>)"

definition GetPeers ::
    "(bytes \<Rightarrow> bytes) \<Rightarrow> (bytes \<Rightarrow> Info option) \<Rightarrow> trackers \<Rightarrow> MetaInfo \<Rightarrow> bytes \<Rightarrow> (sent_requests, AnnounceUrlResponse option) act" where
  "GetPeers sha1_Sum UnmarshalInfo tr myMetainfo myPeerId =
     act_bind (ret (GetAnnounceHandshakeParams sha1_Sum UnmarshalInfo myMetainfo myPeerId)) (\<lambda>handshakeParams.
     act_bind (ret (for_each (\<lambda>l announceUrls. res_bind (slice_get l 0) (\<lambda>u. Ok (announceUrls @ [u])))
       (mi_AnnounceList myMetainfo) [mi_Announce myMetainfo])) (\<lambda>announceUrls sent.
     act_bind (QueryAnnounceUrls tr (announceUrls @ mi_UrlList myMetainfo) handshakeParams) (\<lambda>(announceResponse, err).
       ret (case err of Some e \<Rightarrow> Err e | None \<Rightarrow> Ok announceResponse)) sent))"

section \<open>Properties\<close>

text \<open>A tracker that gives no usable answer, and leaves nothing in the response.\<close>

definition no_answer :: "trackers \<Rightarrow> AnnounceHandshakeParams \<Rightarrow> string \<Rightarrow> bool" where
  "no_answer tr params u \<longleftrightarrow> tr_NewRequest tr u \<and> (case tr_Do tr u params of
       None \<Rightarrow> True
     | Some (status, body) \<Rightarrow> status < 100 \<or> 299 < status \<or> tr_Unmarshal tr body empty_response = (empty_response, Err LibError))"

lemma query_loop_skips:
  "\<forall>u \<in> set bad. no_answer tr params u \<Longrightarrow>
   query_loop tr params (bad @ urls) empty_response sent =
     query_loop tr params urls empty_response (sent @ map (\<lambda>u. (u, params)) bad)"
  by (induction bad arbitrary: sent) (auto simp: no_answer_def Let_def split: option.splits)

lemma slice_get_heads:
  "for_each (\<lambda>l urls. res_bind (slice_get l 0) (\<lambda>u. Ok (urls @ [u]))) tiers urls =
     (if [] \<in> set tiers then Panic IndexOutOfRange else Ok (urls @ map hd tiers))"
proof (induction tiers arbitrary: urls)
  case (Cons l tiers)
  then show ?case by (cases l) (auto simp: slice_get_def)
qed simp

text \<open>
  (C27) \<open>GetPeers\<close> asks the trackers one after the other until one answers: it takes the announce URL, the first URL of each tier and the
  URL list, drops what does not start with \<open>http\<close>, sends the torrent's parameters (with its total length as \<open>left\<close>) to each in
  turn, and returns the first answer that decodes and reports no failure; later trackers are not asked. A tier
  without URLs makes it panic.
\<close>

theorem GetPeers_first_answer:
  assumes "UnmarshalInfo (mi_InfoBytes mi) = Some info"
    and "params = \<lparr>ap_InfoHash = sha (mi_InfoBytes mi), ap_PeerId = peerId, ap_Port = ''6881'', ap_Uploaded = ''0'',
      ap_Downloaded = ''0'', ap_Left = dec_digits (unat (total_length info)), ap_Event = ''started''\<rparr>"
    and "filter (\<lambda>u. HasPrefix u ''http'') (mi_Announce mi # map hd (mi_AnnounceList mi) @ mi_UrlList mi) = bad @ good # later"
    and "\<forall>u \<in> set bad. no_answer tr params u" "tr_NewRequest tr good" "tr_Do tr good params = Some (200, body)"
    and "tr_Unmarshal tr body empty_response = (resp, Ok ())" "ar_FailureReason resp = ''''"
  shows "GetPeers sha UnmarshalInfo tr mi peerId [] =
    (if [] \<in> set (mi_AnnounceList mi) then ([], Panic IndexOutOfRange)
     else (map (\<lambda>u. (u, params)) (bad @ [good]), Ok (Some resp)))"
proof -
  have params: "GetAnnounceHandshakeParams sha UnmarshalInfo mi peerId = Ok params"
    using assms(1,2) by (simp add: GetAnnounceHandshakeParams_def)
  have "query_loop tr params (bad @ good # later) empty_response [] = (map (\<lambda>u. (u, params)) (bad @ [good]), Ok (resp, True))"
    using assms(5-7) by (simp add: query_loop_skips [OF assms(4)])
  then have "QueryAnnounceUrls tr (mi_Announce mi # map hd (mi_AnnounceList mi) @ mi_UrlList mi) params [] =
      (map (\<lambda>u. (u, params)) (bad @ [good]), Ok (Some resp, None))"
    using assms(8) unfolding QueryAnnounceUrls_def assms(3) by simp
  then show ?thesis by (simp add: GetPeers_def act_simps params slice_get_heads)
qed

text \<open>
  A failure reason that a tracker's malformed answer left behind is taken for the failure of the tracker that answered well.
\<close>

lemma stale_failure_reason:
  assumes "HasPrefix bad ''http''" "HasPrefix good ''http''" "tr_NewRequest tr bad" "tr_NewRequest tr good"
    and "tr_Do tr bad params = Some (200, body1)" "tr_Unmarshal tr body1 empty_response = (stale, Err LibError)"
    and "tr_Do tr good params = Some (200, body2)" "tr_Unmarshal tr body2 stale = (resp, Ok ())" "ar_FailureReason resp \<noteq> ''''"
  shows "QueryAnnounceUrls tr [bad, good] params [] = ([(bad, params), (good, params)], Ok (Some resp, Some ERR_QUERY_ANNOUNCE))"
  using assms by (simp add: QueryAnnounceUrls_def)

definition sample_trackers :: trackers where
  "sample_trackers = \<lparr>tr_NewRequest = (\<lambda>u. True), tr_Do = (\<lambda>u params. if u = ''http://b'' then Some (200, []) else None),
     tr_Unmarshal = (\<lambda>body r. (r\<lparr>ar_Peers := [zero_peer]\<rparr>, Ok ()))\<rparr>"

definition sample_metainfo :: MetaInfo where
  "sample_metainfo = \<lparr>mi_InfoBytes = [], mi_Announce = ''udp://a'', mi_AnnounceList = [[''http://a''], [''http://b'', ''http://c'']],
     mi_UrlList = [''http://d'']\<rparr>"

theorem GetPeers_first_answer_witness:
  "\<exists>params. GetPeers id (\<lambda>b. Some \<lparr>info_PieceLength = 4, info_Pieces = [], info_Name = ''f'', info_Length = 120, info_Files = []\<rparr>)
      sample_trackers sample_metainfo (replicate 20 7) [] =
    ([(''http://a'', params), (''http://b'', params)], Ok (Some (empty_response\<lparr>ar_Peers := [zero_peer]\<rparr>))) \<and> ap_Left params = ''120''"
proof -
  let ?info = "\<lparr>info_PieceLength = 4, info_Pieces = [], info_Name = ''f'', info_Length = 120, info_Files = []\<rparr>"
  let ?params = "\<lparr>ap_InfoHash = id (mi_InfoBytes sample_metainfo), ap_PeerId = replicate 20 7, ap_Port = ''6881'', ap_Uploaded = ''0'',
      ap_Downloaded = ''0'', ap_Left = dec_digits (unat (total_length ?info)), ap_Event = ''started''\<rparr>"
  have left: "dec_digits (unat (total_length ?info)) = ''120''" by code_simp
  have "filter (\<lambda>u. HasPrefix u ''http'') (mi_Announce sample_metainfo # map hd (mi_AnnounceList sample_metainfo) @ mi_UrlList sample_metainfo) =
      [''http://a''] @ ''http://b'' # [''http://d'']"
    by code_simp
  from GetPeers_first_answer [where mi = sample_metainfo and sha = id and peerId = "replicate 20 7" and UnmarshalInfo = "\<lambda>b. Some ?info"
      and tr = sample_trackers and body = "[]" and resp = "empty_response\<lparr>ar_Peers := [zero_peer]\<rparr>", OF refl refl this]
  have "GetPeers id (\<lambda>b. Some ?info) sample_trackers sample_metainfo (replicate 20 7) [] =
      ([(''http://a'', ?params), (''http://b'', ?params)], Ok (Some (empty_response\<lparr>ar_Peers := [zero_peer]\<rparr>)))"
    by (simp add: sample_trackers_def sample_metainfo_def no_answer_def empty_response_def)
  moreover have "ap_Left ?params = ''120''" using left by simp
  ultimately show ?thesis by blast
qed

end
