(* ===== verification/Connections.thy ===== *)
theory Connections
  imports Announce Handlers MsgReader
begin

text \<open>
  The connections of a peer: dialling, accepting, listening and closing (\<^verbatim>\<open>peer/peerconn.go\<close>, \<^verbatim>\<open>peer/peer.go\<close>, \<^verbatim>\<open>peer/clientpeer.go\<close>), and the
  client's coordinator \<open>ConnectWithAllPeers\<close> with the goroutines it starts, as steps on their shared state. What the
  network answers is an argument. Appending to \<open>PeerConnections\<close> is one step: the code does it without a lock.
\<close>

section \<open>Addresses and dialling\<close>

definition To4 :: "bytes \<Rightarrow> bytes option" where
  "To4 ip = (if length ip = 4 then Some ip
     else if length ip = 16 \<and> take 12 ip = replicate 10 0 @ [0xff, 0xff] then Some (drop 12 ip)
     else None)"

datatype net_addr = UDPAddr bytes int | TCPAddr bytes int | OtherAddr

fun GetIpAndPortFromNetAddr :: "net_addr \<Rightarrow> bytes \<times> int" where
  "GetIpAndPortFromNetAddr (UDPAddr ip port) = (ip, port)"
| "GetIpAndPortFromNetAddr (TCPAddr ip port) = (ip, port)"
| "GetIpAndPortFromNetAddr OtherAddr = ([], 0)"

text \<open>\<open>Dial ip port\<close>: whether \<open>dialer.Dial\<close> establishes a connection.\<close>

definition DialPeer :: "(bytes \<Rightarrow> int \<Rightarrow> bool) \<Rightarrow> Peer \<Rightarrow> unit res" where
  "DialPeer Dial targetPeer =
     (if To4 (peer_IP targetPeer) = None then Err ERR_DIAL_PEER
      else if \<not> Dial (peer_IP targetPeer) (peer_Port targetPeer) then Err ERR_DIAL_PEER
      else Ok ())"

text \<open>The identity that is put into the handshake is the one of the peer at the other end.\<close>

definition DefaultSendHandshakeFunc :: "(bytes \<Rightarrow> bytes) \<Rightarrow> Peer \<Rightarrow> MetaInfo \<Rightarrow> (PeerConn, unit) act" where
  "DefaultSendHandshakeFunc sha1_Sum toPeer myMetainfo pc =
     (WritePeerMsg (BuildPeerHandshakeMsg (peer_ID toPeer) (sha1_Sum (mi_InfoBytes myMetainfo))) pc, Ok ())"

text \<open>The messages of the type of a sample message, by which the tests look at tracked messages.\<close>

definition same_type :: "PeerMsg \<Rightarrow> PeerMsg \<Rightarrow> bool" where
  "same_type m m' \<longleftrightarrow> SetPayload [] m = SetPayload [] m'"

definition filterPeerMsgsOfType :: "PeerMsg list \<Rightarrow> PeerMsg option \<Rightarrow> PeerMsg list option" where
  "filterPeerMsgsOfType peerMsgs peerMsgToFilter =
     (case peerMsgToFilter of
       None \<Rightarrow> None
     | Some m \<Rightarrow> if length peerMsgs = 0 then None else Some (filter (\<lambda>msg. same_type msg m) peerMsgs))"

section \<open>Closing\<close>

text \<open>A connection: the peer at its other end, and whether this end is open. \<open>Conn.Close()\<close> fails when it has been closed before.\<close>

record 'p conn =
  cn_ToPeer :: 'p
  cn_open :: bool

record 'p Endpoint =
  ep_PeerConnections :: "'p conn list"
  ep_listener :: "bool option"

fun close_conns :: "('p conn list, unit) act" where
  "close_conns [] = ([], Ok ())"
| "close_conns (c # cs) =
     (if cn_open c then (case close_conns cs of (cs, r) \<Rightarrow> (c\<lparr>cn_open := False\<rparr> # cs, r))
      else (c # cs, Err OsError))"

definition Close :: "('p Endpoint, unit) act" where
  "Close self = (case close_conns (ep_PeerConnections self) of
       (cs, Ok _) \<Rightarrow> (self\<lparr>ep_PeerConnections := cs, ep_listener := map_option (\<lambda>_. False) (ep_listener self)\<rparr>, Ok ())
     | (cs, r) \<Rightarrow> (self\<lparr>ep_PeerConnections := cs\<rparr>, r))"

lemma close_conns_all:
  "\<forall>c \<in> set cs. cn_open c \<Longrightarrow> close_conns cs = (map (\<lambda>c. c\<lparr>cn_open := False\<rparr>) cs, Ok ())"
  by (induction cs) auto

lemma close_conns_stops:
  "\<forall>c \<in> set as. cn_open c \<Longrightarrow> \<not> cn_open b \<Longrightarrow>
   close_conns (as @ b # cs) = (map (\<lambda>c. c\<lparr>cn_open := False\<rparr>) as @ b # cs, Err OsError)"
  by (induction as) auto

text \<open>
  \<open>Close\<close> closes everything when nothing has been closed before; else it gives up at the first connection that is closed already
  and leaves the later ones, and the listener, open.
\<close>

lemma Close_all:
  assumes "\<forall>c \<in> set (ep_PeerConnections self). cn_open c"
  shows "Close self = (self\<lparr>ep_PeerConnections := map (\<lambda>c. c\<lparr>cn_open := False\<rparr>) (ep_PeerConnections self),
    ep_listener := map_option (\<lambda>_. False) (ep_listener self)\<rparr>, Ok ())"
  by (simp add: Close_def close_conns_all [OF assms])

lemma Close_stops:
  assumes "ep_PeerConnections self = as @ b # cs" "\<forall>c \<in> set as. cn_open c" "\<not> cn_open b"
  shows "Close self = (self\<lparr>ep_PeerConnections := map (\<lambda>c. c\<lparr>cn_open := False\<rparr>) as @ b # cs\<rparr>, Err OsError)"
  by (simp add: Close_def assms(1) close_conns_stops [OF assms(2,3)])

lemma Close_length: "length (ep_PeerConnections (fst (Close self))) = length (ep_PeerConnections self)"
proof -
  have "length (fst (close_conns cs)) = length cs" for cs :: "'p conn list"
    by (induction cs) (auto split: prod.splits)
  from this [of "ep_PeerConnections self"] show ?thesis by (auto simp: Close_def split: prod.splits res.splits)
qed

section \<open>Listening for messages\<close>

text \<open>
  What \<open>listenForMessages\<close> reports to \<open>parentErrChan\<close>, with the peer of this side: \<open>closed\<close> tells that the error's text holds
  \<^verbatim>\<open>use of closed network connection\<close>.
\<close>

definition listen_report :: "go_error \<Rightarrow> bool \<Rightarrow> go_error option" where
  "listen_report err closed =
     (if err = ERR_PEER_LISTEN_EOF then None
      else if err = ERR_PEER_LISTEN_RESET then None
      else if err = ERR_PEER_LISTEN_TIMEOUT then None
      else if closed then None
      else Some err)"

text \<open>
  \<open>PeerMsgFunc\<close> tells whether the peer has a message function; one goroutine is started for each message, and without the function the
  reader blocks when the hundred places of \<open>peerMsgChan\<close> are taken. \<open>handlerErr\<close> is the error that a handler sends to \<open>errChan\<close> before the
  reader does, if any. The result: the messages for which a handler was started, and, when the call returns, what it reported.
\<close>

definition listenForMessages :: "bool \<Rightarrow> bool \<Rightarrow> read_event list \<Rightarrow> (go_error \<times> bool) option \<Rightarrow> bool \<Rightarrow>
    PeerMsg list \<times> go_error option option" where
  "listenForMessages PeerMsgFunc track es handlerErr closed =
     (case StartPeerMsgReaderLoop track es [] of
       (sent, inbound, end) \<Rightarrow>
         (if PeerMsgFunc then sent else [],
          case handlerErr of
            Some (err, closed) \<Rightarrow> Some (listen_report err closed)
          | None \<Rightarrow> if \<not> PeerMsgFunc \<and> length sent > 100 then None
              else (case end of Some (Err err) \<Rightarrow> Some (listen_report err closed) | _ \<Rightarrow> None)))"

section \<open>Accepting connections\<close>

text \<open>What \<open>listener.Accept()\<close> meets: a connection, the listener closed (by its error text), another error.\<close>

datatype accept_event = Accepted net_addr | AcceptClosed | AcceptError

definition acceptConn :: "accept_event \<Rightarrow> Peer res" where
  "acceptConn ev = (case ev of
       AcceptClosed \<Rightarrow> Err ERR_ACCEPT_CONN__CLOSED_CONN
     | AcceptError \<Rightarrow> Panic NilDereference
     | Accepted addr \<Rightarrow> (case GetIpAndPortFromNetAddr addr of (toIp, toPort) \<Rightarrow>
         Ok (zero_peer\<lparr>peer_IP := toIp, peer_Port := toPort\<rparr>)))"

text \<open>The goroutines started for the connection with the given number.\<close>

datatype accept_task = OnConnect nat | SendHandshake nat | Listen nat

definition accept_tasks :: "bool \<Rightarrow> bool \<Rightarrow> nat \<Rightarrow> accept_task list" where
  "accept_tasks onConnect sendHandshake n =
     (if onConnect then [OnConnect n] else []) @ (if sendHandshake then [SendHandshake n] else []) @ [Listen n]"

text \<open>
  The accept loop of \<open>ListenForPeers\<close>: the first two arguments tell whether \<open>OnConnectFunc\<close> and \<open>SendHandshakeFunc\<close> are set. \<open>Some (Err e)\<close> is
  the report of \<open>e\<close> and the return, \<open>None\<close> that \<open>Accept\<close> blocks.
\<close>

fun accept_loop :: "bool \<Rightarrow> bool \<Rightarrow> accept_event list \<Rightarrow> Peer Endpoint \<Rightarrow> Peer Endpoint \<times> accept_task list \<times> unit res option" where
  "accept_loop onConnect sendHandshake [] self = (self, [], None)"
| "accept_loop onConnect sendHandshake (ev # evs) self =
     (case acceptConn ev of
       Err e \<Rightarrow> (self, [], Some (Err e))
     | Panic p \<Rightarrow> (self, [], Some (Panic p))
     | Hang \<Rightarrow> (self, [], Some Hang)
     | Ok toPeer \<Rightarrow>
         let n = length (ep_PeerConnections self);
             self = self\<lparr>ep_PeerConnections := ep_PeerConnections self @ [\<lparr>cn_ToPeer = toPeer, cn_open = True\<rparr>]\<rparr>;
             (self, tasks, end) = accept_loop onConnect sendHandshake evs self in
         (self, accept_tasks onConnect sendHandshake n @ tasks, end))"

text \<open>\<open>listens\<close> tells whether \<open>net.Listen\<close> succeeds; its error is returned by \<open>ListenForPeers\<close> itself.\<close>

definition ListenForPeers :: "bool \<Rightarrow> bool \<Rightarrow> bool \<Rightarrow> accept_event list \<Rightarrow> Peer Endpoint \<Rightarrow>
    Peer Endpoint \<times> accept_task list \<times> unit res option" where
  "ListenForPeers listens onConnect sendHandshake evs self =
     (if \<not> listens then (self\<lparr>ep_listener := None\<rparr>, [], Some (Err ERR_LISTEN_FOR_PEERS))
      else accept_loop onConnect sendHandshake evs (self\<lparr>ep_listener := Some True\<rparr>))"

text \<open>Every connection is kept and gets its goroutines, until the listener is closed or \<open>Accept\<close> fails in another way.\<close>

lemma accept_loop_accepts:
  "accept_loop onConnect sendHandshake (map Accepted addrs @ evs) self =
     (let n = length (ep_PeerConnections self);
          conns = map (\<lambda>a. \<lparr>cn_ToPeer = zero_peer\<lparr>peer_IP := fst (GetIpAndPortFromNetAddr a),
            peer_Port := snd (GetIpAndPortFromNetAddr a)\<rparr>, cn_open = True\<rparr>) addrs;
          (self, tasks, end) = accept_loop onConnect sendHandshake evs
            (self\<lparr>ep_PeerConnections := ep_PeerConnections self @ conns\<rparr>) in
      (self, concat (map (accept_tasks onConnect sendHandshake) [n..<n + length addrs]) @ tasks, end))"
proof (induction addrs arbitrary: self)
  case (Cons a addrs)
  have "[n..<Suc (n + k)] = n # [Suc n..<Suc (n + k)]" for n k :: nat by (simp add: upt_rec)
  then show ?case
    by (simp add: acceptConn_def Let_def Cons.IH case_prod_beta del: upt_Suc)
qed (simp split: prod.split)

lemma accept_loop_ends:
  "accept_loop onConnect sendHandshake (AcceptClosed # evs) self = (self, [], Some (Err ERR_ACCEPT_CONN__CLOSED_CONN))"
  "accept_loop onConnect sendHandshake (AcceptError # evs) self = (self, [], Some (Panic NilDereference))"
  by (simp_all add: acceptConn_def)

end
