(* ===== verification/Swarm.thy ===== *)
theory Swarm
  imports Connections
begin

text \<open>
  \<open>ConnectWithAllPeers\<close> of \<^verbatim>\<open>peer/peer.go\<close> and \<open>connectWithPeer\<close> of \<^verbatim>\<open>peer/peerconn.go\<close>: the client starts a goroutine for each target, these
  start others, all report through two channels, and a coordinator counts the reports. A run is a sequence of events;
  every event is one step of one goroutine on the shared state. The targets are fresh: \<open>Close\<close> on one of them has nothing to close.
\<close>

section \<open>Starting\<close>

text \<open>The loop that starts the goroutines: how many.\<close>

fun start_loop :: "int \<Rightarrow> Peer list \<Rightarrow> int \<Rightarrow> int" where
  "start_loop maxPeerLimit [] peersTried = peersTried"
| "start_loop maxPeerLimit (targetPeer # targetPeers) peersTried =
     (if maxPeerLimit \<noteq> 0 \<and> peersTried > maxPeerLimit then peersTried
      else start_loop maxPeerLimit targetPeers (peersTried + 1))"

lemma start_loop_limit:
  "0 < limit \<Longrightarrow> tried \<le> limit + 1 \<Longrightarrow> start_loop limit ps tried = min (tried + int (length ps)) (limit + 1)"
  by (induction limit ps tried rule: start_loop.induct) auto

lemma start_loop_no_limit: "start_loop 0 ps tried = tried + int (length ps)"
  by (induction ps arbitrary: tried) auto

lemma start_loop_bounds: "tried \<le> start_loop limit ps tried \<and> start_loop limit ps tried \<le> tried + int (length ps)"
  by (induction limit ps tried rule: start_loop.induct) auto

section \<open>State\<close>

text \<open>Which peer a report names: the client itself, or the target with a number.\<close>

datatype who = Self | Target nat

text \<open>Where \<open>connectWithPeer\<close> is: in \<open>DialPeer\<close>, in \<open>listenForMessages\<close>, before the send to \<open>parentDoneChan\<close>, returned.\<close>

datatype phase = Dialing | Listening | Leaving | Ended

text \<open>
  \<open>sw_self\<close> is the client; \<open>sw_handshakes\<close> and \<open>sw_writers\<close> are the connections whose goroutine for \<open>SendHandshakeFunc\<close> and whose
  writer are running; \<open>sw_callbacks\<close> lists the calls of \<open>onPeerErrorFunc\<close>.
\<close>

record Swarm =
  sw_self :: "nat Endpoint"
  sw_phases :: "phase list"
  sw_handshakes :: "nat list"
  sw_writers :: "nat list"
  sw_errs :: "(who \<times> go_error) list"
  sw_done :: "nat list"
  sw_remaining :: nat
  sw_callbacks :: "(who \<times> go_error) list"

text \<open>What is fixed for a run: the targets, the network, and \<open>SendHandshakeFunc\<close> with its outcome for each target.\<close>

record swarm_env =
  se_targets :: "Peer list"
  se_Dial :: "bytes \<Rightarrow> int \<Rightarrow> bool"
  se_SendHandshake :: "(nat \<Rightarrow> go_error option) option"

text \<open>The part before the coordinator's loop; the channels hold ten reports each.\<close>

definition ConnectWithAllPeers :: "Peer list \<Rightarrow> int \<Rightarrow> nat Endpoint \<Rightarrow> Swarm res" where
  "ConnectWithAllPeers targetPeers maxPeerLimit self =
     (if length targetPeers = 0 then Err ERR_CONNECT_PEERS
      else let peersTried = nat (start_loop maxPeerLimit targetPeers 0) in
        Ok \<lparr>sw_self = self, sw_phases = replicate peersTried Dialing, sw_handshakes = [], sw_writers = [],
            sw_errs = [], sw_done = [], sw_remaining = peersTried, sw_callbacks = []\<rparr>)"

definition report_capacity :: nat where
  "report_capacity = 10"

section \<open>Steps\<close>

text \<open>Sends to \<open>parentErrChan\<close> and \<open>parentDoneChan\<close>: the goroutine waits while the channel is full.\<close>

definition send_report :: "who \<times> go_error \<Rightarrow> Swarm \<Rightarrow> Swarm option" where
  "send_report r sw = (if length (sw_errs sw) < report_capacity then Some (sw\<lparr>sw_errs := sw_errs sw @ [r]\<rparr>) else None)"

definition send_done :: "nat \<Rightarrow> Swarm \<Rightarrow> Swarm option" where
  "send_done i sw = (if length (sw_done sw) < report_capacity then Some (sw\<lparr>sw_done := sw_done sw @ [i]\<rparr>) else None)"

definition set_phase :: "nat \<Rightarrow> phase \<Rightarrow> Swarm \<Rightarrow> Swarm" where
  "set_phase i ph sw = sw\<lparr>sw_phases := (sw_phases sw)[i := ph]\<rparr>"

text \<open>
  \<open>connectWithPeer\<close> in its three parts: dialling, after which it reports and returns, or adds the connection (with its writer) and starts
  \<open>SendHandshakeFunc\<close>; the return of \<open>listenForMessages\<close>, which has met \<open>err\<close>; the send to \<open>parentDoneChan\<close>.
\<close>

definition dial_part :: "swarm_env \<Rightarrow> nat \<Rightarrow> Swarm \<Rightarrow> Swarm option" where
  "dial_part env i sw =
     (case DialPeer (se_Dial env) (se_targets env ! i) of
       Ok _ \<Rightarrow>
         let self = sw_self sw in
         Some (set_phase i Listening
           (sw\<lparr>sw_self := self\<lparr>ep_PeerConnections := ep_PeerConnections self @ [\<lparr>cn_ToPeer = i, cn_open = True\<rparr>]\<rparr>,
               sw_writers := i # sw_writers sw,
               sw_handshakes := (if se_SendHandshake env \<noteq> None then i # sw_handshakes sw else sw_handshakes sw)\<rparr>))
     | Err err \<Rightarrow> map_option (set_phase i Ended) (send_report (Target i, err) sw)
     | _ \<Rightarrow> None)"

definition listen_part :: "nat \<Rightarrow> go_error \<Rightarrow> bool \<Rightarrow> Swarm \<Rightarrow> Swarm option" where
  "listen_part i err closed sw =
     (case listen_report err closed of
       None \<Rightarrow> Some (set_phase i Leaving sw)
     | Some err \<Rightarrow> map_option (set_phase i Leaving) (send_report (Self, err) sw))"

definition done_part :: "nat \<Rightarrow> Swarm \<Rightarrow> Swarm option" where
  "done_part i sw = map_option (set_phase i Ended) (send_done i sw)"

text \<open>The goroutine of \<open>SendHandshakeFunc\<close>: for an error it closes the connection and reports.\<close>

definition close_conn :: "nat \<Rightarrow> nat Endpoint \<Rightarrow> nat Endpoint" where
  "close_conn i self = self\<lparr>ep_PeerConnections :=
     map (\<lambda>c. if cn_ToPeer c = i then c\<lparr>cn_open := False\<rparr> else c) (ep_PeerConnections self)\<rparr>"

definition handshake_part :: "swarm_env \<Rightarrow> nat \<Rightarrow> Swarm \<Rightarrow> Swarm option" where
  "handshake_part env i sw =
     (let sw = sw\<lparr>sw_handshakes := remove1 i (sw_handshakes sw)\<rparr> in
      case Option.bind (se_SendHandshake env) (\<lambda>f. f i) of
        None \<Rightarrow> Some sw
      | Some err \<Rightarrow> map_option (\<lambda>sw. sw\<lparr>sw_self := close_conn i (sw_self sw)\<rparr>) (send_report (Target i, err) sw))"

text \<open>The coordinator's two receives. A target has no connections of its own, so that closing it changes nothing.\<close>

definition on_error_report :: "who \<times> go_error \<Rightarrow> Swarm \<Rightarrow> Swarm" where
  "on_error_report r sw =
     (let sw = sw\<lparr>sw_callbacks := sw_callbacks sw @ [r]\<rparr>;
          sw = (case fst r of Self \<Rightarrow> sw\<lparr>sw_self := fst (Close (sw_self sw))\<rparr> | Target i \<Rightarrow> sw) in
      sw\<lparr>sw_remaining := sw_remaining sw - 1\<rparr>)"

definition on_done_report :: "nat \<Rightarrow> Swarm \<Rightarrow> Swarm" where
  "on_done_report i sw = sw\<lparr>sw_remaining := sw_remaining sw - 1\<rparr>"

text \<open>
  \<open>WriterFails i e\<close>: the writer of connection \<open>i\<close> ends with the report of \<open>e\<close>. The coordinator receives only while \<open>sw_remaining\<close> is not
  zero; after that \<open>ConnectWithAllPeers\<close> has returned.
\<close>

datatype swarm_event =
    DialReturns nat
  | ListenReturns nat go_error bool
  | SendsDone nat
  | HandshakeReturns nat
  | WriterFails nat go_error
  | ReceivesError
  | ReceivesDone

definition swarm_step :: "swarm_env \<Rightarrow> swarm_event \<Rightarrow> Swarm \<Rightarrow> Swarm option" where
  "swarm_step env ev sw =
     (let at = (\<lambda>i ph. i < length (sw_phases sw) \<and> sw_phases sw ! i = ph) in
      case ev of
        DialReturns i \<Rightarrow> if at i Dialing then dial_part env i sw else None
      | ListenReturns i err closed \<Rightarrow> if at i Listening then listen_part i err closed sw else None
      | SendsDone i \<Rightarrow> if at i Leaving then done_part i sw else None
      | HandshakeReturns i \<Rightarrow> if i \<in> set (sw_handshakes sw) then handshake_part env i sw else None
      | WriterFails i e \<Rightarrow>
          if i \<in> set (sw_writers sw) then send_report (Self, e) (sw\<lparr>sw_writers := remove1 i (sw_writers sw)\<rparr>) else None
      | ReceivesError \<Rightarrow>
          (case sw_errs sw of
            r # errs \<Rightarrow> if sw_remaining sw = 0 then None else Some (on_error_report r (sw\<lparr>sw_errs := errs\<rparr>))
          | [] \<Rightarrow> None)
      | ReceivesDone \<Rightarrow>
          (case sw_done sw of
            i # rest \<Rightarrow> if sw_remaining sw = 0 then None else Some (on_done_report i (sw\<lparr>sw_done := rest\<rparr>))
          | [] \<Rightarrow> None))"

text \<open>A sequence of events that can happen one after the other.\<close>

fun run_events :: "('e \<Rightarrow> 's \<Rightarrow> 's option) \<Rightarrow> 'e list \<Rightarrow> 's \<Rightarrow> 's option" where
  "run_events step [] s = Some s"
| "run_events step (ev # evs) s = (case step ev s of None \<Rightarrow> None | Some s \<Rightarrow> run_events step evs s)"

abbreviation swarm_run :: "swarm_env \<Rightarrow> swarm_event list \<Rightarrow> Swarm \<Rightarrow> Swarm option" where
  "swarm_run env \<equiv> run_events (swarm_step env)"

section \<open>Runs of bounded length\<close>

text \<open>Steps that keep an invariant and use up a potential: every run keeps the invariant and is short.\<close>

locale finite_runs =
  fixes step :: "'e \<Rightarrow> 's \<Rightarrow> 's option" and inv :: "'s \<Rightarrow> bool" and potential :: "'s \<Rightarrow> nat"
  assumes step_inv: "inv s \<Longrightarrow> step ev s = Some t \<Longrightarrow> inv t"
    and step_less: "inv s \<Longrightarrow> step ev s = Some t \<Longrightarrow> potential t < potential s"
begin

lemma run_inv: "inv s \<Longrightarrow> run_events step evs s = Some t \<Longrightarrow> inv t"
  by (induction evs arbitrary: s) (auto split: option.splits dest: step_inv)

lemma run_length: "inv s \<Longrightarrow> run_events step evs s = Some t \<Longrightarrow> length evs + potential t \<le> potential s"
proof (induction evs arbitrary: s)
  case (Cons ev evs)
  then obtain u where u: "step ev s = Some u" "run_events step evs u = Some t" by (auto split: option.splits)
  with Cons show ?case using step_inv [of s ev u] step_less [of s ev u] by fastforce
qed simp

end

end
