(* ===== verification/Swarm_Properties.thy ===== *)
theory Swarm_Properties
  imports Swarm
begin

text \<open>
  What the coordinator's count of reports gives: it always returns, and how many connections are still running when it does. The invariant
  balances the reports that were sent against the goroutines that have ended.
\<close>

section \<open>The balance of reports\<close>

text \<open>A report that does not come with the end of a \<open>connectWithPeer\<close>: one that names the client, or one of a failed handshake.\<close>

definition extra_report :: "swarm_env \<Rightarrow> who \<times> go_error \<Rightarrow> bool" where
  "extra_report env r \<longleftrightarrow> (case fst r of Self \<Rightarrow> True | Target i \<Rightarrow> DialPeer (se_Dial env) (se_targets env ! i) = Ok ())"

definition extra_reports :: "swarm_env \<Rightarrow> Swarm \<Rightarrow> nat" where
  "extra_reports env sw = length (filter (extra_report env) (sw_callbacks sw @ sw_errs sw))"

abbreviation ended :: "Swarm \<Rightarrow> nat" where
  "ended sw \<equiv> count_list (sw_phases sw) Ended"

definition balanced :: "swarm_env \<Rightarrow> nat \<Rightarrow> Swarm \<Rightarrow> bool" where
  "balanced env n sw \<longleftrightarrow> length (sw_phases sw) = n \<and> sw_remaining sw \<le> n \<and>
     (\<forall>i \<in> set (sw_handshakes sw). DialPeer (se_Dial env) (se_targets env ! i) = Ok ()) \<and>
     sw_remaining sw + ended sw + extra_reports env sw = n + length (sw_errs sw) + length (sw_done sw)"

fun weight :: "phase \<Rightarrow> nat" where
  "weight Dialing = 9"
| "weight Listening = 4"
| "weight Leaving = 2"
| "weight Ended = 0"

definition potential :: "Swarm \<Rightarrow> nat" where
  "potential sw = sum_list (map weight (sw_phases sw)) + 2 * length (sw_handshakes sw) + 2 * length (sw_writers sw) +
     length (sw_errs sw) + length (sw_done sw)"

lemma count_list_update:
  "i < length xs \<Longrightarrow> count_list (xs[i := y]) x + (if xs ! i = x then 1 else 0) = count_list xs x + (if y = x then 1 else 0)"
proof (induction xs arbitrary: i)
  case (Cons a xs)
  then show ?case by (cases i) force+
qed simp

lemma sum_list_update_weight:
  "i < length xs \<Longrightarrow> sum_list (map weight (xs[i := y])) + weight (xs ! i) = sum_list (map weight xs) + weight y"
  by (induction xs arbitrary: i) (auto split: nat.split simp: nth_Cons')

lemma length_remove1_less: "x \<in> set xs \<Longrightarrow> length (remove1 x xs) < length xs"
  using length_pos_if_in_set [of x xs] by (simp add: length_remove1)

lemma DialPeer_cases: "DialPeer Dial p = Ok () \<or> DialPeer Dial p = Err ERR_DIAL_PEER"
  by (simp add: DialPeer_def)

lemmas report_defs = send_report_def send_done_def set_phase_def extra_reports_def extra_report_def Let_def

text \<open>Each part of a goroutine keeps the balance and uses up potential.\<close>

definition good_step :: "swarm_env \<Rightarrow> nat \<Rightarrow> Swarm \<Rightarrow> Swarm option \<Rightarrow> bool" where
  "good_step env n sw r \<longleftrightarrow> (case r of None \<Rightarrow> True | Some sw' \<Rightarrow> balanced env n sw' \<and> potential sw' < potential sw)"

lemma dial_part_good:
  assumes "balanced env n sw" "i < n" "sw_phases sw ! i = Dialing"
  shows "good_step env n sw (dial_part env i sw)"
  using assms DialPeer_cases [of "se_Dial env" "se_targets env ! i"]
    count_list_update [of i "sw_phases sw" Listening Ended] count_list_update [of i "sw_phases sw" Ended Ended]
    sum_list_update_weight [of i "sw_phases sw" Listening] sum_list_update_weight [of i "sw_phases sw" Ended]
  by (auto simp: good_step_def balanced_def potential_def dial_part_def report_defs)

lemma listen_part_good:
  assumes "balanced env n sw" "i < n" "sw_phases sw ! i = Listening"
  shows "good_step env n sw (listen_part i err closed sw)"
  using assms count_list_update [of i "sw_phases sw" Leaving Ended] sum_list_update_weight [of i "sw_phases sw" Leaving]
  by (auto simp: good_step_def balanced_def potential_def listen_part_def report_defs split: option.split)

lemma done_part_good:
  assumes "balanced env n sw" "i < n" "sw_phases sw ! i = Leaving"
  shows "good_step env n sw (done_part i sw)"
  using assms count_list_update [of i "sw_phases sw" Ended Ended] sum_list_update_weight [of i "sw_phases sw" Ended]
  by (auto simp: good_step_def balanced_def potential_def done_part_def report_defs)

lemma handshake_part_good:
  assumes "balanced env n sw" "i \<in> set (sw_handshakes sw)"
  shows "good_step env n sw (handshake_part env i sw)"
proof -
  have "length (remove1 i (sw_handshakes sw)) < length (sw_handshakes sw)" using assms(2) by (rule length_remove1_less)
  moreover have "set (remove1 i (sw_handshakes sw)) \<subseteq> set (sw_handshakes sw)" by (rule set_remove1_subset)
  ultimately show ?thesis using assms
    by (auto simp: good_step_def balanced_def potential_def handshake_part_def report_defs split: option.split)
qed

lemma writer_fails_good:
  assumes "balanced env n sw" "i \<in> set (sw_writers sw)"
  shows "good_step env n sw (send_report (Self, e) (sw\<lparr>sw_writers := remove1 i (sw_writers sw)\<rparr>))"
proof -
  have "length (remove1 i (sw_writers sw)) < length (sw_writers sw)" using assms(2) by (rule length_remove1_less)
  then show ?thesis using assms by (auto simp: good_step_def balanced_def potential_def report_defs)
qed

lemma on_error_report_good:
  assumes "balanced env n sw" "sw_errs sw = r # errs" "sw_remaining sw \<noteq> 0"
  shows "good_step env n sw (Some (on_error_report r (sw\<lparr>sw_errs := errs\<rparr>)))"
  using assms by (cases "fst r") (auto simp: good_step_def balanced_def potential_def on_error_report_def report_defs)

lemma on_done_report_good:
  assumes "balanced env n sw" "sw_done sw = i # rest" "sw_remaining sw \<noteq> 0"
  shows "good_step env n sw (Some (on_done_report i (sw\<lparr>sw_done := rest\<rparr>)))"
  using assms by (auto simp: good_step_def balanced_def potential_def on_done_report_def report_defs)

lemma swarm_step_good: "balanced env n sw \<Longrightarrow> good_step env n sw (swarm_step env ev sw)"
proof (cases ev)
  case ReceivesError
  assume "balanced env n sw"
  with ReceivesError show ?thesis
    by (auto simp: swarm_step_def on_error_report_good simp del: option.case split: list.split) (simp_all add: good_step_def)
next
  case ReceivesDone
  assume "balanced env n sw"
  with ReceivesDone show ?thesis
    by (auto simp: swarm_step_def on_done_report_good split: list.split) (simp_all add: good_step_def)
qed (auto simp: swarm_step_def good_step_def [of env n sw None] dial_part_good listen_part_good done_part_good
    handshake_part_good writer_fails_good balanced_def [of env n sw, THEN iffD1, THEN conjunct1])

interpretation swarm: finite_runs "swarm_step env" "balanced env n" potential
proof
  fix sw ev sw'
  assume "balanced env n sw" "swarm_step env ev sw = Some sw'"
  with swarm_step_good [of env n sw ev] show "balanced env n sw'" "potential sw' < potential sw"
    by (simp_all add: good_step_def)
qed


section \<open>Properties\<close>

lemma start_state:
  assumes "ConnectWithAllPeers targets limit self = Ok sw0"
  shows "balanced env (length (sw_phases sw0)) sw0" "potential sw0 = 9 * length (sw_phases sw0)"
    and "int (length (sw_phases sw0)) =
      (if limit = 0 then int (length targets) else if limit < 0 then 0 else min (int (length targets)) (limit + 1))"
proof -
  from assms have sw0: "sw0 = \<lparr>sw_self = self, sw_phases = replicate (nat (start_loop limit targets 0)) Dialing, sw_handshakes = [],
      sw_writers = [], sw_errs = [], sw_done = [], sw_remaining = nat (start_loop limit targets 0), sw_callbacks = []\<rparr>"
    and ne: "targets \<noteq> []"
    by (auto simp: ConnectWithAllPeers_def Let_def split: if_splits)
  show "balanced env (length (sw_phases sw0)) sw0" "potential sw0 = 9 * length (sw_phases sw0)"
    by (simp_all add: sw0 balanced_def potential_def extra_reports_def sum_list_replicate)
  show "int (length (sw_phases sw0)) =
      (if limit = 0 then int (length targets) else if limit < 0 then 0 else min (int (length targets)) (limit + 1))"
    using ne start_loop_limit [of limit 0 targets] start_loop_bounds [of 0 limit targets] start_loop_no_limit [of targets 0]
    by (cases targets) (auto simp: sw0)
qed

lemma not_ended: "count_list phs Ended < length phs \<Longrightarrow> \<exists>i < length phs. phs ! i \<noteq> Ended"
  by (induction phs) (auto split: if_splits)

text \<open>While the coordinator has reports to wait for, somebody can go on.\<close>

lemma swarm_progress:
  assumes "balanced env n sw" "sw_remaining sw \<noteq> 0"
  shows "\<exists>ev. swarm_step env ev sw \<noteq> None"
proof -
  consider (err) r errs where "sw_errs sw = r # errs" | (finished) i rest where "sw_done sw = i # rest"
    | (none) "sw_errs sw = []" "sw_done sw = []"
    by (cases "sw_errs sw"; cases "sw_done sw") auto
  then show ?thesis
  proof cases
    case err
    then show ?thesis using assms(2) by (intro exI [of _ ReceivesError]) (simp add: swarm_step_def)
  next
    case finished
    then show ?thesis using assms(2) by (intro exI [of _ ReceivesDone]) (simp add: swarm_step_def)
  next
    case none
    with assms have "ended sw < length (sw_phases sw)" by (simp add: balanced_def)
    then obtain i where i: "i < length (sw_phases sw)" "sw_phases sw ! i \<noteq> Ended" using not_ended by blast
    show ?thesis
    proof (cases "sw_phases sw ! i")
      case Dialing
      then show ?thesis using i none DialPeer_cases [of "se_Dial env" "se_targets env ! i"]
        by (intro exI [of _ "DialReturns i"]) (auto simp: swarm_step_def dial_part_def send_report_def report_capacity_def Let_def)
    next
      case Listening
      then show ?thesis using i
        by (intro exI [of _ "ListenReturns i ERR_PEER_LISTEN_EOF False"]) (simp add: swarm_step_def listen_part_def listen_report_def)
    next
      case Leaving
      then show ?thesis using i none
        by (intro exI [of _ "SendsDone i"]) (simp add: swarm_step_def done_part_def send_done_def report_capacity_def)
    qed (use i in simp)
  qed
qed

text \<open>What holds of every run from the start.\<close>

lemma start_remaining:
  assumes "ConnectWithAllPeers targets limit self = Ok sw0"
  shows "length (sw_phases sw0) = sw_remaining sw0"
  using assms by (auto simp: ConnectWithAllPeers_def Let_def split: if_splits)

lemma run_facts:
  assumes "ConnectWithAllPeers targets limit self = Ok sw0" "swarm_run env evs sw0 = Some sw"
  shows "balanced env (sw_remaining sw0) sw" "length evs \<le> 9 * sw_remaining sw0"
    and "sw_remaining sw \<noteq> 0 \<Longrightarrow> \<exists>ev. swarm_step env ev sw \<noteq> None"
proof -
  note start = start_state [OF assms(1), unfolded start_remaining [OF assms(1)]]
  show bal: "balanced env (sw_remaining sw0) sw" by (rule swarm.run_inv [OF start(1) assms(2)])
  show "length evs \<le> 9 * sw_remaining sw0"
    using swarm.run_length [OF start(1) assms(2)] start(2) by simp
  show "sw_remaining sw \<noteq> 0 \<Longrightarrow> \<exists>ev. swarm_step env ev sw \<noteq> None" by (rule swarm_progress [OF bal])
qed


text \<open>A run with three targets: two connections succeed, the message loop of the first ends with an error of a handler.\<close>

definition sample_env :: swarm_env where
  "sample_env = \<lparr>se_targets = [zero_peer\<lparr>peer_IP := [10, 0, 0, 1]\<rparr>, zero_peer\<lparr>peer_IP := [10, 0, 0, 2]\<rparr>, zero_peer],
     se_Dial = (\<lambda>ip port. True), se_SendHandshake = Some (\<lambda>i. None)\<rparr>"

definition sample_start :: Swarm where
  "sample_start = \<lparr>sw_self = \<lparr>ep_PeerConnections = [], ep_listener = None\<rparr>, sw_phases = [Dialing, Dialing, Dialing], sw_handshakes = [],
     sw_writers = [], sw_errs = [], sw_done = [], sw_remaining = 3, sw_callbacks = []\<rparr>"

definition sample_events :: "swarm_event list" where
  "sample_events = [DialReturns 2, DialReturns 0, DialReturns 1, ReceivesError, HandshakeReturns 0,
     ListenReturns 0 ERR_PEER_LISTEN False, ReceivesError, SendsDone 0, ReceivesDone]"

text \<open>
  The coordinator has returned while the second connection is listening; the error of the first connection has closed both connections.
\<close>

definition sample_end :: Swarm where
  "sample_end = \<lparr>sw_self = \<lparr>ep_PeerConnections = [\<lparr>cn_ToPeer = 0, cn_open = False\<rparr>, \<lparr>cn_ToPeer = 1, cn_open = False\<rparr>], ep_listener = None\<rparr>,
     sw_phases = [Ended, Listening, Ended], sw_handshakes = [1], sw_writers = [1, 0], sw_errs = [], sw_done = [], sw_remaining = 0,
     sw_callbacks = [(Target 2, ERR_DIAL_PEER), (Self, ERR_PEER_LISTEN)]\<rparr>"

lemma swarm_sample_run:
  "ConnectWithAllPeers (se_targets sample_env) 2 \<lparr>ep_PeerConnections = [], ep_listener = None\<rparr> = Ok sample_start"
  "swarm_run sample_env sample_events sample_start = Some sample_end"
  by (simp_all add: ConnectWithAllPeers_def sample_env_def sample_start_def sample_events_def sample_end_def swarm_step_def
      dial_part_def listen_part_def done_part_def handshake_part_def on_error_report_def on_done_report_def send_report_def
      send_done_def set_phase_def report_capacity_def listen_report_def DialPeer_def To4_def zero_peer_def Close_def Let_def numeral_3_eq_3)




text \<open>An error that is reported with the client as its peer closes every connection of the client.\<close>

lemma client_error_closes_all:
  assumes "sw_errs sw = (Self, e) # errs" "sw_remaining sw \<noteq> 0" "\<forall>c \<in> set (ep_PeerConnections (sw_self sw)). cn_open c"
  shows "\<exists>sw'. swarm_step env ReceivesError sw = Some sw' \<and>
    ep_PeerConnections (sw_self sw') = map (\<lambda>c. c\<lparr>cn_open := False\<rparr>) (ep_PeerConnections (sw_self sw))"
  using assms by (auto simp: swarm_step_def on_error_report_def Close_all)

end
