(* ===== verification/Program.thy ===== *)
theory Program
  imports Swarm_Properties FileInfo_Properties
begin

text \<open>
  \<^verbatim>\<open>main.go\<close> with \<^verbatim>\<open>peer/clientpeer.go\<close>: the two modes of the program, from the flags to the exit code. The file system is the one of
  \<open>FileInfo\<close>, the network the one of \<open>GetPeers\<close> and \<open>ConnectWithAllPeers\<close>.
\<close>

section \<open>The client peer\<close>

record ClientPeer =
  cp_Peer :: Peer
  cp_FileInfo :: FileInfo
  cp_OnConnectFunc :: bool
  cp_PeerMsgFunc :: bool
  cp_SendHandshakeFunc :: bool
  cp_doTrackMsgs :: bool

text \<open>A function field is whether it is set; \<open>rnd\<close> is what the random source gives to \<open>MakePeerId\<close>.\<close>

definition NewClientPeer :: "bytes option \<Rightarrow> FileInfo \<Rightarrow> bool \<Rightarrow> bool \<Rightarrow> bool \<Rightarrow> bool \<Rightarrow> ClientPeer res" where
  "NewClientPeer rnd fileInfo onConnectFunc peerMsgFunc sendHandshakeFunc doTrackMsgs =
     res_bind (MakePeerId rnd) (\<lambda>peerId.
       Ok \<lparr>cp_Peer = \<lparr>peer_Name = ''ClientPeer'', peer_IP = replicate 10 0 @ [0xff, 0xff, 127, 0, 0, 1], peer_Port = 0, peer_ID = peerId\<rparr>,
           cp_FileInfo = fileInfo, cp_OnConnectFunc = False, cp_PeerMsgFunc = peerMsgFunc,
           cp_SendHandshakeFunc = sendHandshakeFunc, cp_doTrackMsgs = doTrackMsgs\<rparr>)"

section \<open>The program\<close>

record prog_flags =
  fl_torrent_file :: string
  fl_mode :: string
  fl_download_dir :: string

text \<open>
  What the program is given: the calls that fail, the torrent decoder, SHA-1, the trackers, the directory that \<open>os.MkdirTemp\<close> makes,
  the results of the two calls of \<open>rand.Read\<close>, and which addresses can be dialled.
\<close>

record prog_env =
  pe_faults :: faults
  pe_LoadFromFile :: "string \<Rightarrow> MetaInfo option"
  pe_UnmarshalInfo :: "bytes \<Rightarrow> Info option"
  pe_sha1 :: "bytes \<Rightarrow> bytes"
  pe_trackers :: trackers
  pe_MkdirTemp :: "string option"
  pe_rand1 :: "bytes option"
  pe_rand2 :: "bytes option"
  pe_Dial :: "bytes \<Rightarrow> int \<Rightarrow> bool"

record prog_state =
  ps_fs :: fs
  ps_requests :: sent_requests
  ps_client :: "ClientPeer option"
  ps_swarm :: "Swarm option"

type_synonym 'a prog = "(prog_state, 'a) act"

definition DecodeTorrentFile :: "prog_env \<Rightarrow> string \<Rightarrow> MetaInfo res" where
  "DecodeTorrentFile env filePath = (case pe_LoadFromFile env filePath of None \<Rightarrow> Err ERR_DECODE_FILE | Some mi \<Rightarrow> Ok mi)"

definition MkdirTempOrPanic :: "string option \<Rightarrow> (fs, string) act" where
  "MkdirTempOrPanic tmp fs = (case tmp of None \<Rightarrow> (fs, Panic ExplicitPanic) | Some tmpdir \<Rightarrow> ((tmpdir, []) # fs, Ok tmpdir))"

definition on_fs :: "(fs, 'a) act \<Rightarrow> 'a prog" where
  "on_fs m ps = (case m (ps_fs ps) of (fs, r) \<Rightarrow> (ps\<lparr>ps_fs := fs\<rparr>, r))"

definition on_requests :: "(sent_requests, 'a) act \<Rightarrow> 'a prog" where
  "on_requests m ps = (case m (ps_requests ps) of (reqs, r) \<Rightarrow> (ps\<lparr>ps_requests := reqs\<rparr>, r))"

definition lib :: "'a option \<Rightarrow> 'a res" where
  "lib r = (case r of None \<Rightarrow> Err LibError | Some a \<Rightarrow> Ok a)"

text \<open>
  \<open>downloadTorrent\<close> up to the coordinator's loop, which \<open>ConnectWithAllPeers\<close> leaves in the state; a nil response of \<open>GetPeers\<close> would be
  dereferenced. \<open>DefaultSendHandshakeFunc\<close> never fails.
\<close>

definition download_setup :: "prog_env \<Rightarrow> prog_flags \<Rightarrow> swarm_env prog" where
  "download_setup env fl =
     (if length (fl_download_dir fl) = 0 then ret (Err ERR_DOWNLOAD_TORRENT)
      else if length (fl_torrent_file fl) = 0 then ret (Err ERR_DOWNLOAD_TORRENT)
      else
        act_bind (ret (DecodeTorrentFile env (fl_torrent_file fl))) (\<lambda>myMetainfo.
        act_bind (ret (lib (pe_UnmarshalInfo env (mi_InfoBytes myMetainfo)))) (\<lambda>myInfo.
        act_bind (on_fs (MkdirTempOrPanic (pe_MkdirTemp env))) (\<lambda>tmpdir.
        act_bind (on_fs (NewFileInfo (pe_faults env) (int (length (info_Pieces myInfo) div 20)) (info_PieceLength myInfo)
          BLOCK_LENGTH (fl_download_dir fl) tmpdir (Some myInfo) False)) (\<lambda>fileInfo.
        act_bind (ret (NewClientPeer (pe_rand1 env) fileInfo False True True False)) (\<lambda>clientPeer.
        act_bind (\<lambda>ps. (ps\<lparr>ps_client := Some clientPeer\<rparr>, Ok ())) (\<lambda>_.
        act_bind (ret (MakePeerId (pe_rand2 env))) (\<lambda>peerId.
        act_bind (on_requests (GetPeers (pe_sha1 env) (pe_UnmarshalInfo env) (pe_trackers env) myMetainfo peerId)) (\<lambda>announceResponse.
        case announceResponse of
          None \<Rightarrow> ret (Panic NilDereference)
        | Some resp \<Rightarrow>
            act_bind (ret (ConnectWithAllPeers (ar_Peers resp) 2 \<lparr>ep_PeerConnections = [], ep_listener = None\<rparr>)) (\<lambda>swarm ps.
              (ps\<lparr>ps_swarm := Some swarm\<rparr>,
               Ok \<lparr>se_targets = ar_Peers resp, se_Dial = pe_Dial env, se_SendHandshake = Some (\<lambda>i. None)\<rparr>)))))))))))"

text \<open>
  The whole of \<open>downloadTorrent\<close>: \<open>evs\<close> is what the goroutines do; the function returns when the coordinator's count is zero. \<open>None\<close>: it is
  still waiting, or the events are no run.
\<close>

definition downloadTorrent :: "prog_env \<Rightarrow> prog_flags \<Rightarrow> swarm_event list \<Rightarrow> prog_state \<Rightarrow> (prog_state \<times> unit res) option" where
  "downloadTorrent env fl evs ps =
     (case download_setup env fl ps of
       (ps, Ok senv) \<Rightarrow>
         (case Option.bind (ps_swarm ps) (swarm_run senv evs) of
           None \<Rightarrow> None
         | Some swarm \<Rightarrow> if sw_remaining swarm = 0 then Some (ps\<lparr>ps_swarm := Some swarm\<rparr>, Ok ()) else None)
     | (ps, Err e) \<Rightarrow> Some (ps, Err e)
     | (ps, Panic p) \<Rightarrow> Some (ps, Panic p)
     | (ps, Hang) \<Rightarrow> None)"

definition inspectTorrent :: "prog_env \<Rightarrow> prog_flags \<Rightarrow> unit res" where
  "inspectTorrent env fl =
     (if length (fl_torrent_file fl) = 0 then Err ERR_INSPECT_TORRENT
      else res_bind (DecodeTorrentFile env (fl_torrent_file fl)) (\<lambda>myMetainfo.
           res_bind (lib (pe_UnmarshalInfo env (mi_InfoBytes myMetainfo))) (\<lambda>myInfo. Ok ())))"

definition run :: "prog_env \<Rightarrow> prog_flags \<Rightarrow> swarm_event list \<Rightarrow> prog_state \<Rightarrow> (prog_state \<times> unit res) option" where
  "run env fl evs ps =
     (if fl_mode fl = ''inspect'' then Some (ps, inspectTorrent env fl)
      else if fl_mode fl = ''download'' then downloadTorrent env fl evs ps
      else Some (ps, Ok ()))"

text \<open>The exit code; a panic ends the process with the code 2 of the Go run-time.\<close>

definition main :: "prog_env \<Rightarrow> prog_flags \<Rightarrow> swarm_event list \<Rightarrow> prog_state \<Rightarrow> (prog_state \<times> nat) option" where
  "main env fl evs ps =
     (case run env fl evs ps of
       None \<Rightarrow> None
     | Some (ps, Ok _) \<Rightarrow> Some (ps, 0)
     | Some (ps, Err e) \<Rightarrow> Some (ps, 1)
     | Some (ps, Panic p) \<Rightarrow> Some (ps, 2)
     | Some (ps, Hang) \<Rightarrow> None)"

section \<open>Properties\<close>

lemmas setup_defs = download_setup_def DecodeTorrentFile_def MkdirTempOrPanic_def NewClientPeer_def on_fs_def on_requests_def lib_def

lemma MakePeerId_12: "length b = 12 \<Longrightarrow> MakePeerId (Some b) = Ok (bytes_of_string ''-BN0001-'' @ b)"
  by (rule MakePeerId_length)

lemma bad_mode_exits_0: "fl_mode fl \<noteq> ''inspect'' \<Longrightarrow> fl_mode fl \<noteq> ''download'' \<Longrightarrow> main env fl evs ps = Some (ps, 0)"
  by (simp add: main_def run_def)

text \<open>
  (C24) A download from the flags to the exit code: when the flags are set, the torrent decodes, its pieces can be laid out, and a tracker answers, then
  the program exits with 1 if the answer names no peer; else it starts connections to at most three of the peers, is waiting as long as
  the coordinator counts, can always go on while it waits, has done so after at most 27 steps, and exits with 0: also
  when no connection succeeded or pieces are missing. The client goes by another peer id than the one the tracker was told.
\<close>

theorem download_exit_code:
  assumes "fl_mode fl = ''download''" "fl_download_dir fl \<noteq> ''''" "fl_torrent_file fl \<noteq> ''''"
    and "pe_LoadFromFile env (fl_torrent_file fl) = Some mi" "pe_UnmarshalInfo env (mi_InfoBytes mi) = Some info"
    and "pe_MkdirTemp env = Some tmp" "pe_rand1 env = Some a" "length a = 12" "pe_rand2 env = Some b" "length b = 12"
    and "NewFileInfo (pe_faults env) (int (length (info_Pieces info) div 20)) (info_PieceLength info) BLOCK_LENGTH
      (fl_download_dir fl) tmp (Some info) False ((tmp, []) # ps_fs ps) = (fs', Ok fi)"
    and "GetPeers (pe_sha1 env) (pe_UnmarshalInfo env) (pe_trackers env) mi (bytes_of_string ''-BN0001-'' @ b) (ps_requests ps) =
      (reqs, Ok (Some resp))"
    and senv: "senv = \<lparr>se_targets = ar_Peers resp, se_Dial = pe_Dial env, se_SendHandshake = Some (\<lambda>i. None)\<rparr>"
  shows "if ar_Peers resp = [] then \<forall>evs. \<exists>ps'. main env fl evs ps = Some (ps', 1)
    else \<exists>sw0. ConnectWithAllPeers (ar_Peers resp) 2 \<lparr>ep_PeerConnections = [], ep_listener = None\<rparr> = Ok sw0 \<and>
      sw_remaining sw0 = min (length (ar_Peers resp)) 3 \<and>
      (\<forall>evs sw. swarm_run senv evs sw0 = Some sw \<longrightarrow> length evs \<le> 27 \<and>
        (if sw_remaining sw = 0
         then \<exists>ps' client. main env fl evs ps = Some (ps', 0) \<and> ps_client ps' = Some client \<and> cp_FileInfo client = fi \<and>
           peer_ID (cp_Peer client) = bytes_of_string ''-BN0001-'' @ a \<and> ps_fs ps' = fs' \<and> ps_requests ps' = reqs
         else main env fl evs ps = None \<and> (\<exists>ev. swarm_step senv ev sw \<noteq> None)))"
proof (cases "ar_Peers resp = []")
  case True
  then have "\<exists>ps'. download_setup env fl ps = (ps', Err ERR_CONNECT_PEERS)"
    using assms(2-12) by (simp add: setup_defs act_simps MakePeerId_12 ConnectWithAllPeers_def)
  then have "\<exists>ps'. main env fl evs ps = Some (ps', 1)" for evs
    using assms(1) by (auto simp: main_def run_def downloadTorrent_def)
  with True show ?thesis by simp
next
  case False
  then obtain sw0 where sw0: "ConnectWithAllPeers (ar_Peers resp) 2 \<lparr>ep_PeerConnections = [], ep_listener = None\<rparr> = Ok sw0"
    by (auto simp: ConnectWithAllPeers_def Let_def)
  then have n: "sw_remaining sw0 = min (length (ar_Peers resp)) 3"
    using start_state(3) [OF sw0] start_remaining [OF sw0] by auto
  obtain ps1 client where ps1: "download_setup env fl ps = (ps1, Ok senv)" "ps_swarm ps1 = Some sw0" "ps_client ps1 = Some client"
    "cp_FileInfo client = fi" "peer_ID (cp_Peer client) = bytes_of_string ''-BN0001-'' @ a" "ps_fs ps1 = fs'" "ps_requests ps1 = reqs"
    using assms(2-12) by (simp add: setup_defs act_simps MakePeerId_12 sw0 senv)
  show ?thesis
    unfolding if_not_P [OF False]
  proof (rule exI, rule conjI, rule sw0, rule conjI, rule n, intro allI impI)
    fix evs sw assume sw: "swarm_run senv evs sw0 = Some sw"
    show "length evs \<le> 27 \<and> (if sw_remaining sw = 0
      then \<exists>ps' client. main env fl evs ps = Some (ps', 0) \<and> ps_client ps' = Some client \<and> cp_FileInfo client = fi \<and>
           peer_ID (cp_Peer client) = bytes_of_string ''-BN0001-'' @ a \<and> ps_fs ps' = fs' \<and> ps_requests ps' = reqs
      else main env fl evs ps = None \<and> (\<exists>ev. swarm_step senv ev sw \<noteq> None))"
      using run_facts(2,3) [OF sw0 sw] n ps1 sw assms(1) by (auto simp: main_def run_def downloadTorrent_def)
  qed
qed

text \<open>A torrent of one piece, a tracker that names one peer, and a network in which nobody can be reached.\<close>

definition sample_flags :: prog_flags where
  "sample_flags = \<lparr>fl_torrent_file = ''t'', fl_mode = ''download'', fl_download_dir = ''/d''\<rparr>"

definition small_info :: Info where
  "small_info = \<lparr>info_PieceLength = 32768, info_Pieces = replicate 20 0, info_Name = ''f'', info_Length = 100, info_Files = []\<rparr>"

definition sample_prog :: prog_env where
  "sample_prog = \<lparr>pe_faults = no_faults, pe_LoadFromFile = (\<lambda>f. Some sample_metainfo), pe_UnmarshalInfo = (\<lambda>b. Some small_info),
     pe_sha1 = id, pe_trackers = sample_trackers, pe_MkdirTemp = Some ''/tmp'', pe_rand1 = Some (replicate 12 1),
     pe_rand2 = Some (replicate 12 2), pe_Dial = (\<lambda>ip port. False)\<rparr>"

definition empty_state :: prog_state where
  "empty_state = \<lparr>ps_fs = [], ps_requests = [], ps_client = None, ps_swarm = None\<rparr>"

lemma sample_sels [simp]:
  "pe_faults sample_prog = no_faults" "pe_LoadFromFile sample_prog f = Some sample_metainfo" "pe_UnmarshalInfo sample_prog = (\<lambda>b. Some small_info)"
  "pe_sha1 sample_prog = id" "pe_trackers sample_prog = sample_trackers" "pe_MkdirTemp sample_prog = Some ''/tmp''"
  "pe_rand1 sample_prog = Some (replicate 12 1)" "pe_rand2 sample_prog = Some (replicate 12 2)" "pe_Dial sample_prog = (\<lambda>ip port. False)"
  "fl_mode sample_flags = ''download''" "fl_download_dir sample_flags = ''/d''" "fl_torrent_file sample_flags = ''t''"
  "ps_fs empty_state = []" "ps_requests empty_state = []" "info_PieceLength small_info = 32768" "length (info_Pieces small_info) = 20"
  by (simp_all add: sample_prog_def sample_flags_def empty_state_def small_info_def)

lemma sample_FileInfo:
  "\<exists>fs' fi. NewFileInfo no_faults 1 32768 BLOCK_LENGTH ''/d'' ''/tmp'' (Some small_info) False [(''/tmp'', [])] = (fs', Ok fi)"
proof -
  have "\<exists>sp. cut_pieces 1 32768 BLOCK_LENGTH (Some small_info) False = Ok sp"
    using cut_pieces_Ok [of BLOCK_LENGTH 32768 1 small_info False] by (auto simp: BLOCK_LENGTH_def small_info_def)
  then show ?thesis using NewFileInfo_Ok by blast
qed

lemma sample_GetPeers:
  "\<exists>reqs. GetPeers id (\<lambda>b. Some small_info) sample_trackers sample_metainfo peerId [] =
     (reqs, Ok (Some (empty_response\<lparr>ar_Peers := [zero_peer]\<rparr>)))"
  by (simp add: GetPeers_def GetAnnounceHandshakeParams_def QueryAnnounceUrls_def sample_trackers_def sample_metainfo_def
      HasPrefix_def act_simps slice_get_heads empty_response_def)

theorem download_exit_code_witness:
  "\<exists>ps'. main sample_prog sample_flags [DialReturns 0, ReceivesError] empty_state = Some (ps', 0)"
proof -
  obtain fs' fi where fi: "NewFileInfo no_faults 1 32768 BLOCK_LENGTH ''/d'' ''/tmp'' (Some small_info) False [(''/tmp'', [])] = (fs', Ok fi)"
    using sample_FileInfo by blast
  obtain reqs where reqs: "GetPeers id (\<lambda>b. Some small_info) sample_trackers sample_metainfo (bytes_of_string ''-BN0001-'' @ replicate 12 2) [] =
      (reqs, Ok (Some (empty_response\<lparr>ar_Peers := [zero_peer]\<rparr>)))"
    using sample_GetPeers by blast
  define resp where "resp = empty_response\<lparr>ar_Peers := [zero_peer]\<rparr>"
  then have peers: "ar_Peers resp = [zero_peer]" by simp
  let ?senv = "\<lparr>se_targets = ar_Peers resp, se_Dial = pe_Dial sample_prog, se_SendHandshake = Some (\<lambda>i. None)\<rparr>"
  let ?self = "\<lparr>ep_PeerConnections = [], ep_listener = None\<rparr>"
  let ?sw0 = "\<lparr>sw_self = ?self, sw_phases = [Dialing], sw_handshakes = [],
     sw_writers = [], sw_errs = [], sw_done = [], sw_remaining = 1, sw_callbacks = []\<rparr>"
  let ?evs = "[DialReturns 0, ReceivesError]"
  have start: "ConnectWithAllPeers (ar_Peers resp) 2 ?self = Ok ?sw0"
    by (simp add: ConnectWithAllPeers_def peers)
  obtain sw where sw: "swarm_run ?senv ?evs ?sw0 = Some sw" "sw_remaining sw = 0"
    by (simp add: swarm_step_def dial_part_def send_report_def set_phase_def report_capacity_def DialPeer_def To4_def zero_peer_def
        on_error_report_def Let_def peers)
  have "if ar_Peers resp = [] then \<forall>evs. \<exists>ps'. main sample_prog sample_flags evs empty_state = Some (ps', 1)
    else \<exists>sw0. ConnectWithAllPeers (ar_Peers resp) 2 ?self = Ok sw0 \<and> sw_remaining sw0 = min (length (ar_Peers resp)) 3 \<and>
      (\<forall>evs sw. swarm_run ?senv evs sw0 = Some sw \<longrightarrow> length evs \<le> 27 \<and>
        (if sw_remaining sw = 0
         then \<exists>ps' client. main sample_prog sample_flags evs empty_state = Some (ps', 0) \<and> ps_client ps' = Some client \<and> cp_FileInfo client = fi \<and>
           peer_ID (cp_Peer client) = bytes_of_string ''-BN0001-'' @ replicate 12 1 \<and> ps_fs ps' = fs' \<and> ps_requests ps' = reqs
         else main sample_prog sample_flags evs empty_state = None \<and> (\<exists>ev. swarm_step ?senv ev sw \<noteq> None)))"
    by (rule download_exit_code [where mi = sample_metainfo and info = small_info and tmp = "''/tmp''" and b = "replicate 12 2"])
      (simp_all add: fi reqs resp_def)
  with start obtain sw0 where sw0: "sw0 = ?sw0" and all: "\<forall>evs sw. swarm_run ?senv evs sw0 = Some sw \<longrightarrow> length evs \<le> 27 \<and>
        (if sw_remaining sw = 0
         then \<exists>ps' client. main sample_prog sample_flags evs empty_state = Some (ps', 0) \<and> ps_client ps' = Some client \<and> cp_FileInfo client = fi \<and>
           peer_ID (cp_Peer client) = bytes_of_string ''-BN0001-'' @ replicate 12 1 \<and> ps_fs ps' = fs' \<and> ps_requests ps' = reqs
         else main sample_prog sample_flags evs empty_state = None \<and> (\<exists>ev. swarm_step ?senv ev sw \<noteq> None))"
    by (auto simp only: peers list.simps if_False res.inject)
  from all [rule_format, of ?evs sw] sw show ?thesis unfolding sw0 by (simp del: run_events.simps) blast
qed

end
