(* ===== verification/Seeding_Peer.thy ===== *)
theory Seeding_Peer
  imports Whole_Download
begin

text \<open>
  The other side of a download: what a seeding peer answers. \<open>serves\<close> is the invariant of a client that has all pieces of some data and
  the data in its download directory; requests keep it, and each is answered by the PIECE message with its bytes.
\<close>

section \<open>A client that has everything\<close>

text \<open>The pieces of a torrent, all done, whose blocks have the shapes they were cut to; a block that was read keeps the bytes.\<close>

definition seed_pieces :: "nat \<Rightarrow> nat \<Rightarrow> nat \<Rightarrow> SafePieces \<Rightarrow> bool" where
  "seed_pieces n m bl sp \<longleftrightarrow> sp_wf sp \<and> (\<forall>j. case Get sp j of
       None \<Rightarrow> \<not> (0 \<le> j \<and> j < int n)
     | Some p \<Rightarrow> 0 \<le> j \<and> j < int n \<and> piece_status p = PIECESTATUS_DONE \<and>
         map shape (piece_blocks p) = map shape (wanted m bl j))"

definition serves :: "nat \<Rightarrow> nat \<Rightarrow> nat \<Rightarrow> bytes \<Rightarrow> Client \<Rightarrow> bool" where
  "serves n m bl data cl \<longleftrightarrow> seed_pieces n m bl (cl_pieces cl) \<and> fi_IsSeeding (cl_FileInfo cl) \<and>
     (\<exists>info. fi_torrentInfo (cl_FileInfo cl) = Some info \<and> info_Files info = []) \<and>
     (\<exists>name. map_of (cl_fs cl) (fi_FinalDownloadDir (cl_FileInfo cl)) = Some [(name, File data)])"

lemma seed_pieces_Get:
  assumes "seed_pieces n m bl sp" "0 \<le> j" "j < int n"
  obtains p where "Get sp j = Some p" "piece_status p = PIECESTATUS_DONE" "piece_idx p = j"
    "map shape (piece_blocks p) = map shape (wanted m bl j)"
proof -
  have "case Get sp j of None \<Rightarrow> False
    | Some p \<Rightarrow> piece_status p = PIECESTATUS_DONE \<and> map shape (piece_blocks p) = map shape (wanted m bl j)"
    using assms unfolding seed_pieces_def by (metis (no_types, lifting) option.case_eq_if)
  then show thesis using that sp_wf_idx [of sp j] assms(1) by (auto simp: seed_pieces_def split: option.splits)
qed

lemma seed_pieces_le:
  assumes "seed_pieces n m bl sp" "pieces_le sp sp'"
  shows "seed_pieces n m bl sp'"
  unfolding seed_pieces_def
proof (intro conjI allI)
  show "sp_wf sp'" using assms by (simp add: seed_pieces_def pieces_le_def)
  fix j
  have "rel_option piece_le (Get sp j) (Get sp' j)" using assms(2) by (simp add: pieces_le_def)
  moreover have "case Get sp j of
       None \<Rightarrow> \<not> (0 \<le> j \<and> j < int n)
     | Some p \<Rightarrow> 0 \<le> j \<and> j < int n \<and> piece_status p = PIECESTATUS_DONE \<and>
         map shape (piece_blocks p) = map shape (wanted m bl j)"
    using assms(1) by (simp add: seed_pieces_def)
  moreover have "piece_status q = PIECESTATUS_DONE" if "piece_le p q" "piece_status p = PIECESTATUS_DONE" for p q
    using that by (cases "piece_status q") (auto simp: piece_le_def less_eq_PieceStatus_def)
  moreover have "map shape (piece_blocks q) = map shape (piece_blocks p)" if "piece_le p q" for p q
    using that by (simp add: piece_le_def)
  ultimately show "case Get sp' j of
       None \<Rightarrow> \<not> (0 \<le> j \<and> j < int n)
     | Some p \<Rightarrow> 0 \<le> j \<and> j < int n \<and> piece_status p = PIECESTATUS_DONE \<and>
         map shape (piece_blocks p) = map shape (wanted m bl j)"
    by (cases "Get sp j"; cases "Get sp' j") (simp_all del: map_eq_conv)
qed

lemma seed_pieces_new:
  assumes "0 < bl" "0 < m" "0 < n" "info_Length info = int (n * m * bl)"
    and "cut_pieces (int n) (int (m * bl)) (int bl) (Some info) True = Ok sp"
  shows "seed_pieces n m bl sp"
proof -
  have "last_length (int (m * bl)) (int (n * m * bl)) = int (m * bl)" by (simp add: last_length_def)
  then have "piece_blocks (torrent_piece (int n) (int (m * bl)) (info_Length info) (int bl) True i) = wanted m bl i" for i
    by (simp add: torrent_piece_def wanted_def assms(4) Let_def del: of_nat_mult)
  moreover have "0 < int bl" "0 < int (m * bl)" "1 \<le> int n" "0 \<le> info_Length info" using assms(1-4) by simp_all
  from cut_pieces_Ok [OF this, of True] assms(5)
  have "sp_wf sp \<and> (\<forall>i. Get sp i = (if 0 \<le> i \<and> i < int n
      then Some (torrent_piece (int n) (int (m * bl)) (info_Length info) (int bl) True i) else None))" by auto
  ultimately show ?thesis by (auto simp: seed_pieces_def torrent_piece_def Let_def)
qed

lemma seed_pieces_max:
  assumes "seed_pieces n m bl sp" "0 < n"
  shows "MaxPieceIdx sp = int n - 1" "sp \<noteq> []"
proof -
  have inside: "case Get sp j of None \<Rightarrow> \<not> (0 \<le> j \<and> j < int n) | Some p \<Rightarrow> 0 \<le> j \<and> j < int n" for j
    using assms(1) unfolding seed_pieces_def by (auto split: option.splits)
  have "j \<in> fst ` set sp \<longleftrightarrow> 0 \<le> j \<and> j < int n" for j
    unfolding Get_Some_iff_key [symmetric] using inside [of j] by (cases "Get sp j") auto
  then have keys: "fst ` set sp = {0..int n - 1}" by (intro set_eqI) simp
  then have "MaxPieceIdx sp = Max {0..int n - 1}" using assms(2) by (simp add: MaxPieceIdx_eq insert_absorb)
  moreover have "Max {0..int n - 1} = int n - 1" using assms(2) by (intro Max_eqI) auto
  ultimately show "MaxPieceIdx sp = int n - 1" by simp
  have "0 \<in> fst ` set sp" using keys assms(2) by simp
  then show "sp \<noteq> []" by auto
qed

section \<open>The handshake is answered by the bitfield\<close>

text \<open>The bitfield that a seeding peer sends, read by a peer with as many pieces, gives all indices.\<close>

lemma seed_bitfield:
  assumes "seed_pieces n m bl sp" "0 < n" "(int n - 1) mod 8 \<noteq> 0"
  obtains payload where "BuildPeerBitfieldMsg (Some sp) = Ok (BitfieldPeerMsg payload)"
    "BitfieldPeerMsg_GetPieceIndices payload (int n - 1) = Ok [0..int n - 1]" "int (length payload) = (int n + 6) div 8"
proof -
  note mx = seed_pieces_max(1) [OF assms(1,2)]
  have lt: "MaxPieceIdx sp < msg_cap sp" using assms(3) by (intro msg_cap_facts(2)) (simp add: mx)
  have has: "(\<exists>p. Get sp i = Some p \<and> Downloaded p) \<longleftrightarrow> 0 \<le> i \<and> i < int n" for i
    using assms(1) unfolding seed_pieces_def Downloaded_def by (auto split: option.splits)
  have "\<forall>i p. Get sp i = Some p \<longrightarrow> 0 \<le> i"
    using assms(1) unfolding seed_pieces_def by (auto split: option.splits)
  from build_bitfield_ok [OF _ seed_pieces_max(2) [OF assms(1,2)] this] obtain bf where
    bf: "BuildPeerBitfieldMsg (Some sp) = Ok (BitfieldPeerMsg (bf_Bytes bf))" "bf_cap bf = msg_cap sp"
      "\<And>i. 0 \<le> i \<Longrightarrow> i < msg_cap sp \<Longrightarrow> bit_at bf i \<longleftrightarrow> 0 \<le> i \<and> i < int n"
    unfolding has using assms(1) lt by (metis seed_pieces_def)
  have "8 * int (length (bf_Bytes bf)) = msg_cap sp" using bf(2) by (simp add: bf_cap_def)
  then have "BitfieldPeerMsg_GetPieceIndices (bf_Bytes bf) (int n - 1) = Ok (filter (bit_at bf) [0..int n - 1])"
    using lt AsIntSlice_in_range [of "int n - 1" "NewBitfieldFromBytes (bf_Bytes bf)"]
    by (simp add: GetPieceIndices_cases mx cong: filter_cong)
  moreover have "filter (bit_at bf) [0..int n - 1] = [0..int n - 1]"
    using lt by (intro filter_True) (auto simp: bf(3) mx)
  moreover have "int (length (bf_Bytes bf)) = (int n + 6) div 8"
    using \<open>8 * int (length (bf_Bytes bf)) = msg_cap sp\<close> by (simp add: msg_cap_def mx algebra_simps)
  ultimately show thesis using bf(1) that by simp
qed

text \<open>A message that is handled without an error.\<close>

lemma Receive_Ok: "handle flt msg s = (s', Ok ()) \<Longrightarrow> exec_event flt (Receive msg) s = (s', Ok ())"
  by (simp add: DefaultPeerMsgFunc_def)

lemma seed_handshake:
  assumes "seed_pieces n m bl (cl_pieces cl)" "0 < n" "(int n - 1) mod 8 \<noteq> 0"
  obtains payload where "BitfieldPeerMsg_GetPieceIndices payload (int n - 1) = Ok [0..int n - 1]"
    "int (length payload) = (int n + 6) div 8"
    "\<And>p pc. exec_event flt (Receive (HandshakePeerMsg p)) (cl, pc) =
       ((cl, pc\<lparr>pc_out := pc_out pc @ [BuildPeerInterestedMsg, BitfieldPeerMsg payload]\<rparr>), Ok ())"
proof -
  obtain payload where payload: "BuildPeerBitfieldMsg (Some (cl_pieces cl)) = Ok (BitfieldPeerMsg payload)"
    "BitfieldPeerMsg_GetPieceIndices payload (int n - 1) = Ok [0..int n - 1]" "int (length payload) = (int n + 6) div 8"
    using seed_bitfield [OF assms] by blast
  obtain p where "Get (cl_pieces cl) 0 = Some p" "piece_status p = PIECESTATUS_DONE"
    using seed_pieces_Get [OF assms(1), of 0] assms(2) by auto
  then have "0 \<in> set (DownloadedPieceIndices (cl_pieces cl))"
    using assms(1) by (simp add: set_DownloadedPieceIndices seed_pieces_def status_at_def)
  then have "length (DownloadedPieceIndices (cl_pieces cl)) \<noteq> 0" by auto
  then have "exec_event flt (Receive (HandshakePeerMsg q)) (cl, pc) =
       ((cl, pc\<lparr>pc_out := pc_out pc @ [BuildPeerInterestedMsg, BitfieldPeerMsg payload]\<rparr>), Ok ())" for q pc
    by (intro Receive_Ok)
       (simp add: handle_def handlePeerHandshakeMessage_def write_msg_def on_conn_def act_bind_Ok payload(1) WritePeerMsg_def)
  then show thesis using that payload(2,3) by blast
qed

section \<open>A request is answered by its bytes\<close>

lemma wanted_nth:
  assumes "0 < bl" "m * bl < 2 ^ 32" "j < m" "w = wanted m bl i ! j"
  shows "blk_Idx w = int j" "blk_PieceIdx w = i" "uint (blk_Begin w) = int (j * bl)" "uint (blk_Length w) = int bl"
    and "length bs = m \<Longrightarrow> block_slot (p\<lparr>piece_blocks := bs\<rparr>) (blk_Begin w) (blk_Length w) = Ok (Some (int j))"
proof -
  let ?p = "p\<lparr>piece_blocks := wanted m bl i\<rparr>"
  have "m * bl < 2 ^ 32" by (fact assms(2))
  then have small: "int (m * bl) < 2 ^ 32" by (simp del: of_nat_mult)
  have "0 < m * bl" using assms(1,3) by simp
  then have pos: "0 < int bl" "0 < int (m * bl)" using assms(1) by simp_all
  have range: "0 \<le> int j" "int j < int (m * bl) div int bl" using assms(1,3) by simp_all
  have "piece_blocks ?p = mark_last (cut_blocks i (int (m * bl)) (int bl))" by (simp add: wanted_def)
  note w = aligned_block [OF pos small _ range this]
  then show "blk_Idx w = int j" "blk_PieceIdx w = i" "uint (blk_Begin w) = int (j * bl)" "uint (blk_Length w) = int bl"
    by (simp_all add: assms(4))
  have "block_slot ?p (blk_Begin w) (blk_Length w) = Ok (Some (int j))" using w(7) by (simp add: assms(4))
  then show "length bs = m \<Longrightarrow> block_slot (p\<lparr>piece_blocks := bs\<rparr>) (blk_Begin w) (blk_Length w) = Ok (Some (int j))"
    using wanted_facts(1) [OF assms(1), of m i] by (simp add: block_slot_def)
qed

lemma shape_eq_fields:
  "shape b = shape c \<Longrightarrow> blk_Idx b = blk_Idx c \<and> blk_PieceIdx b = blk_PieceIdx c \<and> blk_Begin b = blk_Begin c \<and>
    blk_Length b = blk_Length c"
  by (cases b, cases c) (simp add: shape_def)

lemma store_buff_fields [simp]:
  "fi_FinalDownloadDir (store_buff i s buff self) = fi_FinalDownloadDir self"
  "fi_IsSeeding (store_buff i s buff self) = fi_IsSeeding self"
  "fi_torrentInfo (store_buff i s buff self) = fi_torrentInfo self"
  by (simp_all add: store_buff_def split: option.split)

lemma serve_request:
  assumes "serves n m bl data cl" "0 < bl" "m * bl < 2 ^ 32" "n \<le> 2 ^ 32" "length data = n * m * bl" "length data < 2 ^ 63"
    and "i < n" "j < m"
  shows "\<exists>cl'. exec_event no_faults (Receive (request_msg (wanted m bl (int i) ! j))) (cl, pc) =
      ((cl', pc\<lparr>pc_out := pc_out pc @ [BuildPeerPieceMsg (data_block data m bl i j)]\<rparr>), Ok ()) \<and>
    serves n m bl data cl' \<and> cl_fs cl' = cl_fs cl"
proof -
  let ?w = "wanted m bl (int i) ! j" and ?fi = "cl_FileInfo cl"
  obtain info name where cl: "seed_pieces n m bl (cl_pieces cl)" "fi_IsSeeding ?fi" "fi_torrentInfo ?fi = Some info" "info_Files info = []"
    "map_of (cl_fs cl) (fi_FinalDownloadDir ?fi) = Some [(name, File data)]"
    using assms(1) by (auto simp: serves_def)
  obtain p where p: "Get (cl_pieces cl) (int i) = Some p" "piece_idx p = int i"
      "map shape (piece_blocks p) = map shape (wanted m bl (int i))"
    using seed_pieces_Get [OF cl(1), of "int i"] assms(7) by (metis of_nat_0_le_iff of_nat_less_iff)
  note w = wanted_nth [OF assms(2,3,8) refl, where i = "int i"]
  have len: "length (piece_blocks p) = m" using arg_cong [OF p(3), of length] wanted_facts(1) [OF assms(2)] by simp
  have slot: "block_slot p (blk_Begin ?w) (blk_Length ?w) = Ok (Some (int j))" using w(5) [OF len, of p] by simp
  let ?b = "piece_blocks p ! j"
  have "shape ?b = shape ?w"
    using arg_cong [OF p(3), of "\<lambda>xs. xs ! j"] len wanted_facts(1) [OF assms(2), of m "int i"] assms(8) by simp
  then have b: "blk_Idx ?b = int j" "blk_PieceIdx ?b = int i" "blk_Begin ?b = blk_Begin ?w" "blk_Length ?b = blk_Length ?w"
    "uint (blk_Length ?b) = int bl"
    using shape_eq_fields [of ?b ?w] w by simp_all
  have count: "BlockCount p = int m" using len by (simp add: BlockCount_def)
  have range: "(i * m + j) * bl + bl \<le> length data" by (rule data_block_range [OF assms(7,8,5)])
  let ?off = "(i * m + j) * bl"
  have inside: "int ?off < int (length data)" using range assms(2) by (simp del: of_nat_mult of_nat_add)
  have offset: "int ?off = (piece_idx p * BlockCount p + blk_Idx ?b) * uint (blk_Length ?b)"
    using b(1,5) p(2) count by simp
  have nb: "unat (blk_Length ?b) = bl" using b(5) by (metis nat_int nat_uint_eq)
  define buff where "buff = take bl (drop ?off data)"
  have "take (unat (blk_Length ?b)) (drop (nat (int ?off)) data) @
      replicate (unat (blk_Length ?b) - (length data - nat (int ?off))) 0 = buff"
    unfolding nb nat_int buff_def using range by simp
  moreover have "GetBlock no_faults (int i) (blk_Begin ?w) (blk_Length ?w) True (?fi, cl_fs cl) =
      ((store_buff (int i) (int j) (take (unat (blk_Length ?b)) (drop (nat (int ?off)) data) @
          replicate (unat (blk_Length ?b) - (length data - nat (int ?off))) 0) ?fi, cl_fs cl),
       Ok (Some (?b\<lparr>blk_Buff := take (unat (blk_Length ?b)) (drop (nat (int ?off)) data) @
          replicate (unat (blk_Length ?b) - (length data - nat (int ?off))) 0\<rparr>)))"
    by (rule GetBlock_seeding [OF cl(3-5) p(1) slot _ _ _ _ offset _ _ inside]) (use len assms(2,6,8) b p(2) in simp_all)
  ultimately have read: "GetBlock no_faults (int i) (blk_Begin ?w) (blk_Length ?w) True (?fi, cl_fs cl) =
      ((store_buff (int i) (int j) buff ?fi, cl_fs cl), Ok (Some (?b\<lparr>blk_Buff := buff\<rparr>)))"
    by (simp only:)
  have "blk_Length ?w \<noteq> 0" using w(4) assms(2) by auto
  moreover have "uint (word_of_nat i :: uint32) = int i" using uint_word_of_int32 [of "int i"] assms(4,7) by simp
  ultimately obtain idx where req: "RequestPeerMsg_GetBlock (PutUint32 (word_of_int (blk_PieceIdx ?w)) @ PutUint32 (blk_Begin ?w) @
      PutUint32 (blk_Length ?w)) = Ok (NewBlock idx (int i) (blk_Begin ?w) (blk_Length ?w) [])"
    using w(2) by (simp add: RequestPeerMsg_GetBlock_def request_payload_fields u32_div_def)
  have "blk_Begin ?w = word_of_int (uint (blk_Begin ?w))" by simp
  then have off: "blk_Begin ?w = word_of_nat (j * bl)" unfolding w(3) of_int_of_nat_eq .
  have msg: "BuildPeerPieceMsg (?b\<lparr>blk_Buff := buff\<rparr>) = BuildPeerPieceMsg (data_block data m bl i j)"
    using b(2,3) off by (simp add: BuildPeerPieceMsg_def data_block_def buff_def)
  let ?cl = "cl\<lparr>cl_FileInfo := store_buff (int i) (int j) buff ?fi, cl_fs := cl_fs cl\<rparr>"
  have "exec_event no_faults (Receive (request_msg ?w)) (cl, pc) =
      ((?cl, pc\<lparr>pc_out := pc_out pc @ [BuildPeerPieceMsg (data_block data m bl i j)]\<rparr>), Ok ())"
    by (intro Receive_Ok)
       (simp add: handle_def request_msg_def handlePeerRequestMessage_def act_simps req on_files_def read cl(2) write_msg_def on_conn_def
         WritePeerMsg_def msg)
  moreover have "serves n m bl data ?cl"
    using cl seed_pieces_le [OF cl(1) pieces_le_store_buff] by (simp add: serves_def)
  ultimately show ?thesis by (intro exI [of _ ?cl]) simp
qed

lemma serve_requests:
  assumes "serves n m bl data cl" "0 < bl" "m * bl < 2 ^ 32" "n \<le> 2 ^ 32" "length data = n * m * bl" "length data < 2 ^ 63"
    and "i < n" "\<forall>j \<in> set js. j < m"
  shows "\<exists>cl'. exec no_faults (map (\<lambda>j. Receive (request_msg (wanted m bl (int i) ! j))) js) (cl, pc) =
      ((cl', pc\<lparr>pc_out := pc_out pc @ map (\<lambda>j. BuildPeerPieceMsg (data_block data m bl i j)) js\<rparr>), Ok ()) \<and>
    serves n m bl data cl' \<and> cl_fs cl' = cl_fs cl"
  using assms(1,8)
proof (induction js arbitrary: cl pc)
  case (Cons j js)
  then obtain cl1 where cl1: "exec_event no_faults (Receive (request_msg (wanted m bl (int i) ! j))) (cl, pc) =
      ((cl1, pc\<lparr>pc_out := pc_out pc @ [BuildPeerPieceMsg (data_block data m bl i j)]\<rparr>), Ok ())"
      "serves n m bl data cl1" "cl_fs cl1 = cl_fs cl"
    using serve_request [OF _ assms(2-7), of cl j pc] by auto
  from Cons.IH [OF cl1(2), of "pc\<lparr>pc_out := pc_out pc @ [BuildPeerPieceMsg (data_block data m bl i j)]\<rparr>"] Cons.prems(2)
  show ?case using cl1(1,3) by (auto simp: act_bind_Ok)
qed auto

end
