(* ===== verification/Network.thy ===== *)
theory Network
  imports Whole_Download Connections
begin

text \<open>
  Two clients on a connection. Each has the messages that were written to it and that no goroutine of it has handled yet; the
  messages of a connection are handled by goroutines of their own, so in any order. Handling one parses the bytes it was encoded to.
\<close>

section \<open>Two nodes\<close>

text \<open>What reaches the other side of a message that is written: its bytes, parsed.\<close>

definition on_wire :: "PeerMsg \<Rightarrow> PeerMsg res" where
  "on_wire m = res_bind (PeerMsg_Bytes m) (\<lambda>b. NewPeerMsgFromBuffer (Some b))"

lemma on_wire_wf: "wf_msg m \<Longrightarrow> PeerMsg_Bytes m = Ok b \<Longrightarrow> length b \<le> 16640 \<Longrightarrow> on_wire m = Ok m"
  using wire.parse_enc [of m b] by (simp add: on_wire_def)

lemma on_wire_status [simp]:
  "on_wire BuildPeerInterestedMsg = Ok BuildPeerInterestedMsg" "on_wire BuildPeerUnchokedMsg = Ok BuildPeerUnchokedMsg"
  using on_wire_wf [of "InterestedPeerMsg []"] on_wire_wf [of "UnchokedPeerMsg []"]
  by (simp_all add: BuildPeerInterestedMsg_def BuildPeerUnchokedMsg_def InterestedPeerMsg_Bytes_def UnchokedPeerMsg_Bytes_def)

lemma on_wire_handshake:
  assumes "length infohash = 20" "length peerId = 20"
  shows "on_wire (BuildPeerHandshakeMsg peerId infohash) = Ok (BuildPeerHandshakeMsg peerId infohash)"
proof -
  let ?p = "handshake_head @ replicate 8 0 @ infohash @ peerId"
  have "wf_msg (HandshakePeerMsg ?p)" using wf_builders(8) [OF assms] by (simp only: BuildPeerHandshakeMsg_payload)
  moreover have "length ?p = 68" by (rule handshake_fields(3) [OF assms])
  ultimately show ?thesis
    unfolding BuildPeerHandshakeMsg_payload by (intro on_wire_wf [of _ ?p]) (simp_all add: HandshakePeerMsg_Bytes_def)
qed

lemma on_wire_request [simp]: "on_wire (request_msg b) = Ok (request_msg b)"
  using on_wire_wf [of "request_msg b"] by (simp add: request_msg_def RequestPeerMsg_Bytes_def)

lemma on_wire_piece: "length (blk_Buff b) \<le> 16627 \<Longrightarrow> on_wire (BuildPeerPieceMsg b) = Ok (BuildPeerPieceMsg b)"
  using on_wire_wf [of "BuildPeerPieceMsg b"] wf_builders(7) [of b] by (simp add: BuildPeerPieceMsg_def PiecePeerMsg_Bytes_def Let_def)

lemma on_wire_bitfield: "length p \<le> 16635 \<Longrightarrow> on_wire (BitfieldPeerMsg p) = Ok (BitfieldPeerMsg p)"
  using on_wire_wf [of "BitfieldPeerMsg p"] by (simp add: BitfieldPeerMsg_Bytes_def)

text \<open>A client, its connection and the messages on their way to it.\<close>

type_synonym node = "(Client \<times> PeerConn) \<times> PeerMsg list"

text \<open>What happens on a node: a goroutine handles the \<open>k\<close>-th message, or one of the goroutines that were started runs or reaches its timeout.\<close>

datatype local_ev = Handle nat | Go nat | Expire nat

fun node_event :: "faults \<Rightarrow> local_ev \<Rightarrow> (node, unit) act" where
  "node_event flt (Handle k) (s, inbox) =
     (if k < length inbox
      then (let inbox' = take k inbox @ drop (Suc k) inbox in
        case on_wire (inbox ! k) of
          Ok m \<Rightarrow> (case exec_event flt (Receive m) s of (s', r) \<Rightarrow> ((s', inbox'), r))
        | Err e \<Rightarrow> ((s, inbox'), Err e)
        | Panic p \<Rightarrow> ((s, inbox'), Panic p)
        | Hang \<Rightarrow> ((s, inbox'), Hang))
      else ((s, inbox), Hang))"
| "node_event flt (Go n) (s, inbox) = (case exec_event flt (Run n) s of (s', r) \<Rightarrow> ((s', inbox), r))"
| "node_event flt (Expire n) (s, inbox) = (case exec_event flt (Timeout n) s of (s', r) \<Rightarrow> ((s', inbox), r))"

abbreviation node_exec :: "faults \<Rightarrow> local_ev list \<Rightarrow> (node, unit) act" where
  "node_exec flt \<equiv> for_act (node_event flt)"

text \<open>What a node has written to its connection is what arrives at the other one.\<close>

definition written :: "node \<Rightarrow> PeerMsg list" where
  "written a = pc_out (snd (fst a))"

definition sent :: "node \<Rightarrow> node \<Rightarrow> PeerMsg list" where
  "sent a b = drop (length (written a)) (written b)"

datatype net_ev = Down local_ev | Up local_ev

fun net_event :: "faults \<Rightarrow> net_ev \<Rightarrow> (node \<times> node, unit) act" where
  "net_event flt (Down e) (d, u) = (case node_event flt e d of (d', r) \<Rightarrow> ((d', (fst u, snd u @ sent d d')), r))"
| "net_event flt (Up e) (d, u) = (case node_event flt e u of (u', r) \<Rightarrow> (((fst d, snd d @ sent u u'), u'), r))"

abbreviation net_exec :: "faults \<Rightarrow> net_ev list \<Rightarrow> (node \<times> node, unit) act" where
  "net_exec flt \<equiv> for_act (net_event flt)"

section \<open>One node at a time\<close>

lemma exec_event_conn_le: "conn_le (snd s) (snd (fst (exec_event flt e s)))"
proof -
  obtain cl pc where s: "s = (cl, pc)" by (cases s)
  show ?thesis
  proof (cases e)
    case (Receive m)
    have "evolves (cl, pc) (fst (DefaultPeerMsgFunc flt m (cl, pc)))"
      by (rule ev.advances_at [OF evh.advances_DefaultPeerMsgFunc])
    then show ?thesis by (auto simp: s Receive evolves_def split: prod.splits)
  qed (auto simp: s split: option.splits intro: run_task_conn_le)
qed

lemma node_event_written: "prefix_of (written a) (written (fst (node_event flt e a)))"
proof -
  obtain s inbox where a: "a = (s, inbox)" by (cases a)
  have p: "prefix_of (pc_out (snd s)) (pc_out (snd (fst (exec_event flt e s))))" for e
    using exec_event_conn_le [of s flt e] by (simp add: conn_le_def)
  show ?thesis
  proof (cases e)
    case (Handle k)
    then show ?thesis
      using p by (cases "k < length inbox"; cases "on_wire (inbox ! k)") (simp_all add: a written_def Let_def case_prod_beta del: exec_event.simps)
  qed (use p in \<open>simp_all add: a written_def case_prod_beta del: exec_event.simps\<close>)
qed

lemma sent_refl [simp]: "sent a a = []"
  by (simp add: sent_def)

lemma sent_trans: "prefix_of (written a) (written b) \<Longrightarrow> prefix_of (written b) (written c) \<Longrightarrow> sent a c = sent a b @ sent b c"
  by (auto simp: sent_def prefix_of_def)

lemma node_exec_written: "prefix_of (written a) (written (fst (node_exec flt es a)))"
  by (rule for_act_invariant [where I = "\<lambda>b. prefix_of (written a) (written b)"])
     (auto intro: prefix_of_trans node_event_written)

lemma down_exec:
  "node_exec flt es d = (d', Ok ()) \<Longrightarrow> net_exec flt (map Down es) (d, (s, inbox)) = ((d', (s, inbox @ sent d d')), Ok ())"
proof (induction es arbitrary: d inbox)
  case (Cons e es)
  then obtain d1 where d1: "node_event flt e d = (d1, Ok ())" "node_exec flt es d1 = (d', Ok ())"
    by (auto simp: act_bind_eq_Ok)
  have "sent d d' = sent d d1 @ sent d1 d'"
    using node_event_written [of d flt e] node_exec_written [of d1 flt es] unfolding d1 fst_conv by (rule sent_trans)
  then show ?case using d1(1) Cons.IH [OF d1(2)] by (simp add: act_bind_Ok)
qed simp

lemma up_exec:
  "node_exec flt es u = (u', Ok ()) \<Longrightarrow> net_exec flt (map Up es) ((s, inbox), u) = (((s, inbox @ sent u u'), u'), Ok ())"
proof (induction es arbitrary: u inbox)
  case (Cons e es)
  then obtain u1 where u1: "node_event flt e u = (u1, Ok ())" "node_exec flt es u1 = (u', Ok ())"
    by (auto simp: act_bind_eq_Ok)
  have "sent u u' = sent u u1 @ sent u1 u'"
    using node_event_written [of u flt e] node_exec_written [of u1 flt es] unfolding u1 fst_conv by (rule sent_trans)
  then show ?case using u1(1) Cons.IH [OF u1(2)] by (simp add: act_bind_Ok)
qed simp

lemma node_go:
  "exec flt (replicate k (Run n)) s = (s', Ok ()) \<Longrightarrow> node_exec flt (replicate k (Go n)) (s, inbox) = ((s', inbox), Ok ())"
proof (induction k arbitrary: s)
  case (Suc k)
  then obtain s1 where "exec_event flt (Run n) s = (s1, Ok ())" "exec flt (replicate k (Run n)) s1 = (s', Ok ())"
    by (auto simp: act_bind_eq_Ok)
  then show ?case using Suc.IH by (simp add: act_bind_Ok)
qed simp

lemma for_act_then:
  "for_act f xs s = (s1, Ok ()) \<Longrightarrow> for_act f ys s1 = (s2, Ok ()) \<Longrightarrow> for_act f (xs @ ys) s = (s2, Ok ())"
  by (simp add: for_act_append act_bind_Ok)

section \<open>Any order of the messages\<close>

text \<open>The order in which goroutines handle \<open>n\<close> messages: the place of the next one among those that are left.\<close>

fun order_of :: "nat list \<Rightarrow> nat \<Rightarrow> bool" where
  "order_of [] n \<longleftrightarrow> n = 0"
| "order_of (k # ks) n \<longleftrightarrow> k < n \<and> order_of ks (n - 1)"

fun picked :: "nat list \<Rightarrow> 'a list \<Rightarrow> 'a list" where
  "picked [] xs = []"
| "picked (k # ks) xs = xs ! k # picked ks (take k xs @ drop (Suc k) xs)"

lemma length_without: "k < length xs \<Longrightarrow> length (take k xs @ drop (Suc k) xs) = length xs - 1"
  by auto

lemma picked_map: "order_of ks (length xs) \<Longrightarrow> picked ks (map f xs) = map f (picked ks xs)"
proof (induction ks arbitrary: xs)
  case (Cons k ks)
  then have "picked ks (map f (take k xs @ drop (Suc k) xs)) = map f (picked ks (take k xs @ drop (Suc k) xs))"
    by (intro Cons.IH) (simp only: length_without order_of.simps)
  then show ?case using Cons.prems by (simp add: take_map drop_map)
qed simp

lemma mset_picked: "order_of ks (length xs) \<Longrightarrow> mset (picked ks xs) = mset xs"
proof (induction ks arbitrary: xs)
  case (Cons k ks)
  then have "mset (picked ks (take k xs @ drop (Suc k) xs)) = mset (take k xs @ drop (Suc k) xs)"
    by (intro Cons.IH) (simp only: length_without order_of.simps)
  moreover have "mset xs = mset (take k xs @ xs ! k # drop (Suc k) xs)"
    using Cons.prems by (simp add: id_take_nth_drop [symmetric])
  ultimately show ?case by simp
qed simp

lemma set_picked: "order_of ks (length xs) \<Longrightarrow> set (picked ks xs) = set xs"
  by (rule mset_eq_setD [OF mset_picked])

lemma length_picked: "order_of ks (length xs) \<Longrightarrow> length (picked ks xs) = length xs"
  by (rule mset_eq_length [OF mset_picked])

lemma node_handle:
  assumes "order_of ks (length inbox)" "\<forall>m \<in> set inbox. on_wire m = Ok m" "exec flt (map Receive (picked ks inbox)) s = (s', Ok ())"
  shows "node_exec flt (map Handle ks) (s, inbox) = ((s', []), Ok ())"
  using assms
proof (induction ks arbitrary: s inbox)
  case (Cons k ks)
  let ?inbox = "take k inbox @ drop (Suc k) inbox"
  obtain s1 where s1: "exec_event flt (Receive (inbox ! k)) s = (s1, Ok ())" "exec flt (map Receive (picked ks ?inbox)) s1 = (s', Ok ())"
    using Cons.prems(3) by (auto simp: act_bind_eq_Ok)
  have k: "k < length inbox" "order_of ks (length ?inbox)"
    using Cons.prems(1) by (simp, simp only: length_without order_of.simps)
  have "\<forall>m \<in> set ?inbox. on_wire m = Ok m" using Cons.prems(2) by (auto dest: in_set_takeD in_set_dropD)
  from Cons.IH [OF k(2) this s1(2)] show ?case
    using s1(1) Cons.prems(2) k(1) by (simp add: act_bind_Ok)
qed simp

end
