(* ===== verification/Two_Peers.thy ===== *)
theory Two_Peers
  imports Seeding_Peer Network
begin

text \<open>
  Two clients transfer a torrent: one has no piece, the other has the file and seeds. Both run the code of this development on the
  two ends of a connection, and whatever the order in which their goroutines handle the messages, the file arrives.
\<close>

section \<open>The schedule\<close>

text \<open>Both sides send their handshake when the connection is made.\<close>

definition hello :: "(bytes \<Rightarrow> bytes) \<Rightarrow> Peer \<Rightarrow> MetaInfo \<Rightarrow> string \<Rightarrow> PeerConn" where
  "hello sha1_Sum toPeer myMetainfo name = fst (DefaultSendHandshakeFunc sha1_Sum toPeer myMetainfo (NewPeerConnection name))"

definition connected :: "Client \<times> PeerConn \<Rightarrow> Client \<times> PeerConn \<Rightarrow> node \<times> node" where
  "connected d u = ((d, pc_out (snd u)), (u, pc_out (snd d)))"

text \<open>
  The messages that open the connection: the seeding side handles the handshake; the other side the handshake, INTERESTED and BITFIELD in
  the order \<open>first\<close>, the seeding side their answers in the order \<open>second\<close>, and the other side the last answer.
\<close>

definition open_schedule :: "nat list \<Rightarrow> nat list \<Rightarrow> net_ev list" where
  "open_schedule first second = map Up (map Handle [0]) @ map Down (map Handle first) @ map Up (map Handle second) @ map Down (map Handle [0])"

text \<open>
  A piece: the goroutines of its blocks run, the seeding side handles the requests in the order \<open>ups i\<close>, the other side the blocks in the
  order \<open>downs i\<close>.
\<close>

definition piece_schedule :: "nat \<Rightarrow> (nat \<Rightarrow> nat list) \<Rightarrow> (nat \<Rightarrow> nat list) \<Rightarrow> nat \<Rightarrow> net_ev list" where
  "piece_schedule m ups downs i =
     map Down (replicate m (Go (i * m))) @ map Up (map Handle (ups i)) @ map Down (map Handle (downs i))"

definition transfer_schedule :: "nat \<Rightarrow> nat \<Rightarrow> nat list \<Rightarrow> nat list \<Rightarrow> (nat \<Rightarrow> nat list) \<Rightarrow> (nat \<Rightarrow> nat list) \<Rightarrow> net_ev list" where
  "transfer_schedule n m first second ups downs =
     open_schedule first second @ concat (map (piece_schedule m ups downs) [0..<n])"

text \<open>The order in which the blocks of a piece arrive.\<close>

definition arrivals :: "bytes \<Rightarrow> nat \<Rightarrow> nat \<Rightarrow> (nat \<Rightarrow> nat list) \<Rightarrow> (nat \<Rightarrow> nat list) \<Rightarrow> nat \<Rightarrow> Block list" where
  "arrivals data m bl ups downs i = map (data_block data m bl i) (picked (downs i) (picked (ups i) [0..<m]))"

lemma arrivals_perm:
  assumes "order_of (ups i) m" "order_of (downs i) m"
  shows "mset (arrivals data m bl ups downs i) = mset (map (data_block data m bl i) [0..<m])"
  using assms mset_picked [of "ups i" "[0..<m]"] mset_picked [of "downs i" "picked (ups i) [0..<m]"]
    length_picked [of "ups i" "[0..<m]"]
  by (simp add: arrivals_def)

section \<open>Opening\<close>

text \<open>The messages that are answered at once, or not at all.\<close>

fun reply :: "PeerMsg \<Rightarrow> PeerMsg list" where
  "reply (HandshakePeerMsg p) = [BuildPeerInterestedMsg]"
| "reply (InterestedPeerMsg p) = [BuildPeerUnchokedMsg]"
| "reply m = []"

definition greeting :: "SafePieces \<Rightarrow> PeerMsg \<Rightarrow> bool" where
  "greeting sp m = (case m of HandshakePeerMsg p \<Rightarrow> DownloadedPieceIndices sp = [] | InterestedPeerMsg p \<Rightarrow> True
     | UnchokedPeerMsg p \<Rightarrow> True | _ \<Rightarrow> False)"

lemma pc_out_id [simp]: "pc\<lparr>pc_out := pc_out pc\<rparr> = pc"
  by simp

lemma greet:
  "greeting (cl_pieces cl) msg \<Longrightarrow>
   exec_event flt (Receive msg) (cl, pc) = ((cl, pc\<lparr>pc_out := pc_out pc @ reply msg\<rparr>), Ok ())"
  by (rule Receive_Ok, cases msg)
     (simp_all add: greeting_def handle_def handlePeerHandshakeMessage_def handlePeerInterestedMessage_def
       handlePeerUnchokedMessage_def write_msg_def on_conn_def WritePeerMsg_def act_bind_Ok ret_def)

lemma greetings:
  "\<forall>msg \<in> set ms. greeting (cl_pieces cl) msg \<Longrightarrow>
   exec flt (map Receive ms) (cl, pc) = ((cl, pc\<lparr>pc_out := pc_out pc @ concat (map reply ms)\<rparr>), Ok ())"
proof (induction ms arbitrary: pc)
  case (Cons msg ms)
  then show ?case using greet [of cl msg flt pc] Cons.IH [of "pc\<lparr>pc_out := pc_out pc @ reply msg\<rparr>"]
    by (simp add: act_bind_Ok)
qed simp

lemma pieces_st_none:
  assumes "pieces_st n m bl st sp" "\<And>j. st j \<noteq> PIECESTATUS_DONE"
  shows "DownloadedPieceIndices sp = []"
proof -
  have "status_at sp i \<noteq> Some PIECESTATUS_DONE" for i
    using assms unfolding pieces_st_def status_at_def by (auto split: option.splits)
  then have "set (DownloadedPieceIndices sp) = {}"
    using assms(1) by (simp add: set_DownloadedPieceIndices pieces_st_def)
  then show ?thesis by simp
qed

lemma transferring_out:
  "transferring n m bl fi fs0 earlier 0 ds (cl, pc) \<Longrightarrow>
   transferring n m bl fi fs0 (earlier @ xs) 0 ds (cl, pc\<lparr>pc_out := pc_out pc @ xs\<rparr>)"
  by (simp add: transferring_def requests_def awaiting_def blocks_left_def)

text \<open>The downloading side, with the bitfield anywhere among the other two messages.\<close>

lemma open_down:
  assumes "0 < bl" "0 < m" "0 < n" "cl_FileInfo cl = fi" "pieces_st n m bl (\<lambda>_. PIECESTATUS_IDLE) (fi_Pieces fi)"
    and "BitfieldPeerMsg_GetPieceIndices payload (int n - 1) = Ok [0..int n - 1]"
    and "\<forall>msg \<in> set (as @ bs). msg = HandshakePeerMsg h \<or> msg = BuildPeerInterestedMsg"
  shows "\<exists>s'. exec no_faults (map Receive (as @ BitfieldPeerMsg payload # bs)) (cl, (NewPeerConnection peer)\<lparr>pc_out := earlier\<rparr>) =
      (s', Ok ()) \<and>
    transferring n m bl fi (cl_fs cl) (earlier @ concat (map reply (as @ bs))) 0 [] s'"
proof -
  let ?as = "concat (map reply as)" and ?bs = "concat (map reply bs)"
  let ?pc = "(NewPeerConnection peer)\<lparr>pc_out := earlier @ ?as\<rparr>"
  have greeting: "greeting sp msg" if "DownloadedPieceIndices sp = []" "msg \<in> set (as @ bs)" for sp msg
  proof -
    have "msg = HandshakePeerMsg h \<or> msg = BuildPeerInterestedMsg" using assms(7) that(2) by blast
    then show ?thesis using that(1) by (elim disjE) (simp_all add: greeting_def BuildPeerInterestedMsg_def)
  qed
  have "DownloadedPieceIndices (cl_pieces cl) = []"
    using pieces_st_none [OF assms(5)] assms(4) by simp
  then have a: "exec no_faults (map Receive as) (cl, (NewPeerConnection peer)\<lparr>pc_out := earlier\<rparr>) = ((cl, ?pc), Ok ())"
    using greetings [of as cl no_faults "(NewPeerConnection peer)\<lparr>pc_out := earlier\<rparr>"] greeting by simp
  obtain cl1 pc1 where b: "exec_event no_faults (Receive (BitfieldPeerMsg payload)) (cl, ?pc) = ((cl1, pc1), Ok ())"
      "transferring n m bl fi (cl_fs cl) (earlier @ ?as) 0 [] (cl1, pc1)"
    using transfer_start [where earlier = "earlier @ ?as" and peer = peer, OF assms(1-6)] by (metis prod.exhaust)
  have "pieces_st n m bl (progress 0) (cl_pieces cl1)" using b(2) by (auto simp: transferring_def)
  then have "DownloadedPieceIndices (cl_pieces cl1) = []" by (rule pieces_st_none) (simp add: progress_def)
  then have c: "exec no_faults (map Receive bs) (cl1, pc1) = ((cl1, pc1\<lparr>pc_out := pc_out pc1 @ ?bs\<rparr>), Ok ())"
    using greetings [of bs cl1 no_faults pc1] greeting by simp
  show ?thesis
    using a b(1) c transferring_out [OF b(2), of ?bs]
    by (intro exI [of _ "(cl1, pc1\<lparr>pc_out := pc_out pc1 @ ?bs\<rparr>)"]) (simp add: for_act_append act_bind_Ok)
qed

lemma mset_two: "mset xs = {#a, b#} \<Longrightarrow> xs = [a, b] \<or> xs = [b, a]"
proof -
  assume xs: "mset xs = {#a, b#}"
  then have "length xs = 2" using mset_eq_length [of xs "[a, b]"] by simp
  then obtain c d where "xs = [c, d]" by (auto simp: numeral_2_eq_2 length_Suc_conv)
  then show ?thesis using xs by (auto simp: add_eq_conv_ex)
qed

text \<open>The state when the two sides are open: the first piece is asked for, and no message is left.\<close>

lemma opened:
  assumes "0 < bl" "0 < m" "0 < n" "n \<le> 133080" "(int n - 1) mod 8 \<noteq> 0" "cl_FileInfo clD = fi"
    and "pieces_st n m bl (\<lambda>_. PIECESTATUS_IDLE) (fi_Pieces fi)" "serves n m bl data clU"
    and "pcD = (NewPeerConnection nameD)\<lparr>pc_out := [HandshakePeerMsg hD]\<rparr>" "pcU = (NewPeerConnection nameU)\<lparr>pc_out := [HandshakePeerMsg hU]\<rparr>"
    and "on_wire (HandshakePeerMsg hD) = Ok (HandshakePeerMsg hD)" "on_wire (HandshakePeerMsg hU) = Ok (HandshakePeerMsg hU)"
    and "order_of first 3" "order_of second 2"
  shows "\<exists>s pcU' earlier. net_exec no_faults (open_schedule first second) (connected (clD, pcD) (clU, pcU)) =
      (((s, []), ((clU, pcU'), [])), Ok ()) \<and> transferring n m bl fi (cl_fs clD) earlier 0 [] s \<and>
    mset earlier = {#HandshakePeerMsg hD, BuildPeerInterestedMsg, BuildPeerUnchokedMsg#}"
proof -
  let ?d = "((clD, pcD), [HandshakePeerMsg hU])" and ?u = "((clU, pcU), [HandshakePeerMsg hD])"
  have seed: "seed_pieces n m bl (cl_pieces clU)" using assms(8) by (simp add: serves_def)
  obtain payload where payload: "BitfieldPeerMsg_GetPieceIndices payload (int n - 1) = Ok [0..int n - 1]"
    "int (length payload) = (int n + 6) div 8"
    "\<And>p pc. exec_event no_faults (Receive (HandshakePeerMsg p)) (clU, pc) =
       ((clU, pc\<lparr>pc_out := pc_out pc @ [BuildPeerInterestedMsg, BitfieldPeerMsg payload]\<rparr>), Ok ())"
    using seed_handshake [OF seed assms(3,5)] by metis
  have "length payload \<le> 16635" using payload(2) assms(4) by linarith
  note bitfield = on_wire_bitfield [OF this]
  let ?in = "[HandshakePeerMsg hU, BuildPeerInterestedMsg, BitfieldPeerMsg payload]"
  let ?pcU = "pcU\<lparr>pc_out := pc_out pcU @ [BuildPeerInterestedMsg, BitfieldPeerMsg payload]\<rparr>"
  have n1: "node_exec no_faults (map Handle [0]) ?u = (((clU, ?pcU), []), Ok ())"
    by (rule node_handle) (use payload(3) assms(11) in \<open>simp_all add: act_bind_Ok\<close>)
  have one: "net_exec no_faults (map Up (map Handle [0])) (?d, ?u) = ((((clD, pcD), ?in), ((clU, ?pcU), [])), Ok ())"
    unfolding up_exec [OF n1] by (simp add: sent_def written_def)
  have first: "order_of first (length ?in)" using assms(13) by (simp add: numeral_3_eq_3)
  have perm: "mset (picked first ?in) = mset ?in" by (rule mset_picked [OF first])
  have "BitfieldPeerMsg payload \<in> set (picked first ?in)" using set_picked [OF first] by simp
  then obtain as bs where ms: "picked first ?in = as @ BitfieldPeerMsg payload # bs" by (meson split_list)
  then have two_msgs: "mset (as @ bs) = {#HandshakePeerMsg hU, BuildPeerInterestedMsg#}" using perm by simp
  then have greets: "\<forall>msg \<in> set (as @ bs). msg = HandshakePeerMsg hU \<or> msg = BuildPeerInterestedMsg"
    by (metis insert_iff empty_iff set_mset_add_mset_insert set_mset_empty set_mset_mset)
  define replies where "replies = concat (map reply (as @ bs))"
  have "replies = [BuildPeerInterestedMsg, BuildPeerUnchokedMsg] \<or> replies = [BuildPeerUnchokedMsg, BuildPeerInterestedMsg]"
    using mset_two [OF two_msgs]
    by (auto simp: replies_def BuildPeerInterestedMsg_def BuildPeerUnchokedMsg_def simp del: map_append)
  then have "mset replies = {#BuildPeerInterestedMsg, BuildPeerUnchokedMsg#}" "length replies = 2" by auto
  note replies = replies_def [symmetric] this
  obtain s where s: "exec no_faults (map Receive (picked first ?in)) (clD, pcD) = (s, Ok ())"
      "transferring n m bl fi (cl_fs clD) (HandshakePeerMsg hD # replies) 0 [] s"
    using open_down [where peer = nameD and earlier = "[HandshakePeerMsg hD]", OF assms(1-3,6,7) payload(1) greets]
    unfolding ms replies(1) assms(9) by auto
  obtain cl1 pc1 where s_def: "s = (cl1, pc1)" by (cases s)
  have out: "pc_out pc1 = HandshakePeerMsg hD # replies" using s(2) by (simp add: transferring_def s_def requests_def)
  have n2: "node_exec no_faults (map Handle first) ((clD, pcD), ?in) = ((s, []), Ok ())"
    by (rule node_handle [OF first _ s(1)]) (use bitfield assms(12) in simp)
  have two: "net_exec no_faults (map Down (map Handle first)) (((clD, pcD), ?in), ((clU, ?pcU), [])) =
      (((s, []), ((clU, ?pcU), replies)), Ok ())"
    unfolding down_exec [OF n2] by (simp add: sent_def written_def s_def out assms(9))
  have second: "order_of second (length replies)" using assms(14) replies(3) by simp
  have "mset (picked second replies) = {#BuildPeerInterestedMsg, BuildPeerUnchokedMsg#}" using mset_picked [OF second] replies(2) by simp
  note order = mset_two [OF this]
  let ?pcU' = "?pcU\<lparr>pc_out := pc_out ?pcU @ concat (map reply (picked second replies))\<rparr>"
  have reply2: "concat (map reply (picked second replies)) = [BuildPeerUnchokedMsg]"
    using order by (auto simp: BuildPeerInterestedMsg_def BuildPeerUnchokedMsg_def)
  have "exec no_faults (map Receive (picked second replies)) (clU, ?pcU) = ((clU, ?pcU'), Ok ())"
    by (rule greetings) (use order in \<open>auto simp: greeting_def BuildPeerInterestedMsg_def BuildPeerUnchokedMsg_def\<close>)
  moreover have "\<forall>msg \<in> set replies. on_wire msg = Ok msg"
    using mset_two [OF replies(2)] by auto
  ultimately have n3: "node_exec no_faults (map Handle second) ((clU, ?pcU), replies) = (((clU, ?pcU'), []), Ok ())"
    by (intro node_handle [OF second])
  have three: "net_exec no_faults (map Up (map Handle second)) ((s, []), ((clU, ?pcU), replies)) =
      (((s, [BuildPeerUnchokedMsg]), ((clU, ?pcU'), [])), Ok ())"
    unfolding up_exec [OF n3] by (simp add: sent_def written_def reply2)
  have "exec_event no_faults (Receive BuildPeerUnchokedMsg) s = (s, Ok ())"
    using greet [of cl1 BuildPeerUnchokedMsg no_faults pc1] by (simp add: s_def greeting_def BuildPeerUnchokedMsg_def)
  then have n4: "node_exec no_faults (map Handle [0]) (s, [BuildPeerUnchokedMsg]) = ((s, []), Ok ())"
    by (intro node_handle) (simp_all add: act_bind_Ok)
  have four: "net_exec no_faults (map Down (map Handle [0])) ((s, [BuildPeerUnchokedMsg]), ((clU, ?pcU'), [])) =
      (((s, []), ((clU, ?pcU'), [])), Ok ())"
    unfolding down_exec [OF n4] by (simp add: sent_def written_def)
  have start: "connected (clD, pcD) (clU, pcU) = (?d, ?u)" by (simp add: connected_def assms(9,10))
  show ?thesis
    unfolding open_schedule_def start using s(2) replies(2) for_act_then [OF one for_act_then [OF two for_act_then [OF three four]]]
    by (intro exI [of _ s] exI [of _ ?pcU'] exI [of _ "HandshakePeerMsg hD # replies"] conjI) simp_all
qed

section \<open>A piece\<close>

lemma wanted_requests:
  assumes "0 < bl" "order_of ks m"
  shows "picked ks (map request_msg (wanted m bl i)) = map (\<lambda>j. request_msg (wanted m bl i ! j)) (picked ks [0..<m])"
proof -
  have "map request_msg (wanted m bl i) = map (\<lambda>j. request_msg (wanted m bl i ! j)) [0..<m]"
    using wanted_facts(1) [OF assms(1), of m i] by (intro nth_equalityI) simp_all
  then show ?thesis using picked_map [of ks "[0..<m]"] assms(2) by simp
qed

lemma transfer_piece:
  assumes "transferring n m bl fi fs0 earlier i ds (clD, pcD)" "serves n m bl data clU" "i < n"
    and "0 < bl" "m * bl < 2 ^ 32" "n \<le> 2 ^ 32" "length data = n * m * bl" "length data < 2 ^ 63" "bl \<le> 16627"
    and "order_of (ups i) m" "order_of (downs i) m"
    and "exec no_faults (piece_events m (arrivals data m bl ups downs) i) (clD, pcD) = (s', Ok ())"
    and "pc_out (snd s') = earlier @ requests m bl (Suc i)"
  shows "\<exists>clU' pcU'. net_exec no_faults (piece_schedule m ups downs i) (((clD, pcD), []), ((clU, pcU), [])) =
      (((s', []), ((clU', pcU'), [])), Ok ()) \<and> serves n m bl data clU' \<and> cl_fs clU' = cl_fs clU"
proof -
  let ?ws = "wanted m bl (int i)" and ?js = "picked (ups i) [0..<m]"
  let ?js' = "picked (downs i) ?js"
  let ?piece = "\<lambda>j. BuildPeerPieceMsg (data_block data m bl i j)"
  note bs = wanted_facts [OF assms(4), of m "int i"]
  obtain r ws where st: "length ws = i * m" "pc_tasks pcD = ws @ map (RequestTask (Some r)) ?ws" "awaiting pcD r []"
      "pc_out pcD = earlier @ requests m bl i"
    using assms(1) by (auto simp: transferring_def)
  have "distinct (map blk_Idx ([] @ ?ws))" using bs(2) by (simp add: distinct_map inj_on_def)
  from run_requests [OF st(2,3) this, of no_faults clD] obtain pc1 where
    pc1: "exec no_faults (replicate m (Run (i * m))) (clD, pcD) = ((clD, pc1), Ok ())" "pc_out pc1 = pc_out pcD @ map request_msg ?ws"
    unfolding bs(1) st(1) by blast
  have out1: "pc_out pc1 = pc_out (snd s')" using pc1(2) st(4) assms(13) by (simp add: requests_def)
  note n1 = node_go [OF pc1(1), of "[]"]
  have one: "net_exec no_faults (map Down (replicate m (Go (i * m)))) (((clD, pcD), []), ((clU, pcU), [])) =
      ((((clD, pc1), []), ((clU, pcU), map request_msg ?ws)), Ok ())"
    unfolding down_exec [OF n1] using pc1(2) by (simp add: sent_def written_def)
  have js: "\<forall>j \<in> set ?js. j < m" using set_picked [of "ups i" "[0..<m]"] assms(10) by simp
  obtain clU' where clU': "exec no_faults (map (\<lambda>j. Receive (request_msg (?ws ! j))) ?js) (clU, pcU) =
      ((clU', pcU\<lparr>pc_out := pc_out pcU @ map ?piece ?js\<rparr>), Ok ())"
      "serves n m bl data clU'" "cl_fs clU' = cl_fs clU"
    using serve_requests [OF assms(2,4-8,3) js, of pcU] by blast
  let ?pcU = "pcU\<lparr>pc_out := pc_out pcU @ map ?piece ?js\<rparr>"
  have n2: "node_exec no_faults (map Handle (ups i)) ((clU, pcU), map request_msg ?ws) = (((clU', ?pcU), []), Ok ())"
    by (rule node_handle) (use clU'(1) assms(10) bs(1) wanted_requests [OF assms(4,10), of "int i"] in \<open>simp_all add: comp_def\<close>)
  have two: "net_exec no_faults (map Up (map Handle (ups i))) (((clD, pc1), []), ((clU, pcU), map request_msg ?ws)) =
      ((((clD, pc1), map ?piece ?js), ((clU', ?pcU), [])), Ok ())"
    unfolding up_exec [OF n2] by (simp add: sent_def written_def)
  have order: "order_of (downs i) (length ?js)" using assms(10,11) length_picked [of "ups i" "[0..<m]"] by simp
  have "piece_events m (arrivals data m bl ups downs) i =
      replicate m (Run (i * m)) @ map Receive (picked (downs i) (map ?piece ?js))"
    using picked_map [OF order, of ?piece] by (simp add: piece_events_def arrivals_def)
  then have receives: "exec no_faults (map Receive (picked (downs i) (map ?piece ?js))) (clD, pc1) = (s', Ok ())"
    using assms(12) pc1(1) by (simp add: for_act_append act_bind_Ok)
  have short: "\<forall>msg \<in> set (map ?piece ?js). on_wire msg = Ok msg"
    using assms(9) by (auto intro!: on_wire_piece simp: data_block_def)
  have order': "order_of (downs i) (length (map ?piece ?js))" using order by simp
  note n3 = node_handle [OF order' short receives]
  have three: "net_exec no_faults (map Down (map Handle (downs i))) (((clD, pc1), map ?piece ?js), ((clU', ?pcU), [])) =
      (((s', []), ((clU', ?pcU), [])), Ok ())"
    unfolding down_exec [OF n3] by (simp add: sent_def written_def out1)
  show ?thesis
    unfolding piece_schedule_def using clU'(2,3) for_act_then [OF one for_act_then [OF two three]] by blast
qed

lemma transfer_pieces:
  assumes "transferring n m bl fi fs0 earlier 0 [] s" "serves n m bl data clU"
    and "0 < bl" "0 < m" "m * bl < 2 ^ 32" "n \<le> 2 ^ 32" "length data = n * m * bl" "length data < 2 ^ 63" "bl \<le> 16627"
    and "\<And>i. i < n \<Longrightarrow> order_of (ups i) m \<and> order_of (downs i) m" "map_of fs0 (fi_DownloadedBlocksDir fi) = Some []" "k < n"
  shows "\<exists>s' clU' pcU'. net_exec no_faults (concat (map (piece_schedule m ups downs) [0..<k])) ((s, []), ((clU, pcU), [])) =
      (((s', []), ((clU', pcU'), [])), Ok ()) \<and>
    transferring n m bl fi fs0 earlier k (concat (map (arrivals data m bl ups downs) [0..<k])) s' \<and>
    serves n m bl data clU' \<and> cl_fs clU' = cl_fs clU"
  using assms(12)
proof (induction k)
  case (Suc k)
  let ?qs = "arrivals data m bl ups downs"
  have perm: "mset (?qs i) = mset (map (data_block data m bl i) [0..<m])" if "i < n" for i
    using arrivals_perm assms(10) [OF that] by blast
  obtain clD pcD clU' pcU' where IH: "net_exec no_faults (concat (map (piece_schedule m ups downs) [0..<k])) ((s, []), ((clU, pcU), [])) =
      ((((clD, pcD), []), ((clU', pcU'), [])), Ok ())"
    "transferring n m bl fi fs0 earlier k (concat (map ?qs [0..<k])) (clD, pcD)" "serves n m bl data clU'" "cl_fs clU' = cl_fs clU"
    using Suc by auto
  have k: "k < n" using Suc.prems by simp
  obtain fs' where fs': "for_act (SaveBlock no_faults fi) (concat (map ?qs [0..<k]) @ ?qs k) fs0 = (fs', Ok ())"
    using save_arrived [OF assms(5,3,6) perm assms(11), of "Suc k"] Suc.prems by auto
  obtain s' where s': "exec no_faults (piece_events m ?qs k) (clD, pcD) = (s', Ok ())"
      "transferring n m bl fi fs0 earlier (Suc k) (concat (map ?qs [0..<k]) @ ?qs k) s'"
    using transfer_step [where qs = ?qs and data = data, OF IH(2) assms(3-7) Suc.prems perm [OF k] fs'] by blast
  have "pc_out (snd s') = earlier @ requests m bl (Suc k)" using s'(2) by (auto simp: transferring_def)
  from transfer_piece [OF IH(2,3) k assms(3,5-9) conjunct1 [OF assms(10) [OF k]] conjunct2 [OF assms(10) [OF k]] s'(1) this]
  obtain clU2 pcU2 where "net_exec no_faults (piece_schedule m ups downs k) (((clD, pcD), []), ((clU', pcU'), [])) =
      (((s', []), ((clU2, pcU2), [])), Ok ())" "serves n m bl data clU2" "cl_fs clU2 = cl_fs clU'"
    by blast
  then show ?case
    using s'(2) IH(1,4) by (intro exI [of _ s'] exI [of _ clU2] exI [of _ pcU2]) (simp add: for_act_append act_bind_Ok)
qed (use assms(1,2) in auto)

section \<open>The whole transfer\<close>

lemma hello_eq:
  "hello sha1_Sum toPeer myMetainfo name =
     (NewPeerConnection name)\<lparr>pc_out := [BuildPeerHandshakeMsg (peer_ID toPeer) (sha1_Sum (mi_InfoBytes myMetainfo))]\<rparr>"
  by (simp add: hello_def DefaultSendHandshakeFunc_def WritePeerMsg_def NewPeerConnection_def)

lemma NewFileInfo_fields:
  assumes "0 < bl" "0 < m" "0 < n" "info_Length info = int (n * m * bl)"
    and "NewFileInfo no_faults (int n) (int (m * bl)) (int bl) fdir bdir (Some info) seeding fs = (fs0, Ok fi)"
  shows "fi_DownloadedBlocksDir fi = bdir" "fi_FinalDownloadDir fi = fdir" "fi_IsSeeding fi = seeding" "fi_torrentInfo fi = Some info"
    and "cut_pieces (int n) (int (m * bl)) (int bl) (Some info) seeding = Ok (fi_Pieces fi)"
proof -
  have "0 < int bl" "0 < int (m * bl)" "1 \<le> int n" "0 \<le> info_Length info" using assms(1-4) by simp_all
  from cut_pieces_Ok [OF this, of seeding] obtain sp where sp:
    "cut_pieces (int n) (int (m * bl)) (int bl) (Some info) seeding = Ok sp" by blast
  then have "fi = \<lparr>fi_DownloadedBlocksDir = bdir, fi_FinalDownloadDir = fdir, fi_IsSeeding = seeding,
      fi_Pieces = sp, fi_torrentInfo = Some info\<rparr>"
    using NewFileInfo_Ok [OF sp, of fdir bdir fs] assms(5) by auto
  then show "fi_DownloadedBlocksDir fi = bdir" "fi_FinalDownloadDir fi = fdir" "fi_IsSeeding fi = seeding"
      "fi_torrentInfo fi = Some info" "cut_pieces (int n) (int (m * bl)) (int bl) (Some info) seeding = Ok (fi_Pieces fi)"
    using sp by simp_all
qed


definition eight_seed :: FileInfo where
  "eight_seed = \<lparr>fi_DownloadedBlocksDir = ''/tmp/seed'', fi_FinalDownloadDir = ''/srv'', fi_IsSeeding = True,
     fi_Pieces = [(0, torrent_piece 2 4 8 2 True 0), (1, torrent_piece 2 4 8 2 True 1)], fi_torrentInfo = Some eight_info\<rparr>"

lemma NewFileInfo_eight_seed:
  "NewFileInfo no_faults 2 4 2 ''/srv'' ''/tmp/seed'' (Some eight_info) True [(''/srv'', [(''file'', File [1, 2, 3, 4, 5, 6, 7, 8])])] =
   ([(''/srv'', [(''file'', File [1, 2, 3, 4, 5, 6, 7, 8])])], Ok eight_seed)"
  by code_simp

definition some_metainfo :: MetaInfo where
  "some_metainfo = \<lparr>mi_InfoBytes = [], mi_Announce = [], mi_AnnounceList = [], mi_UrlList = []\<rparr>"

definition zero_hash :: "bytes \<Rightarrow> bytes" where
  "zero_hash b = replicate 20 0"


end
