(* ===== verification/Races.thy ===== *)
theory Races
  imports Whole_Download
begin

text \<open>
  The goroutines that handle PIECE messages, cut at the points where another goroutine may run: the requester's lock is
  taken for one operation at a time. One after the other they are \<open>handlePeerPieceMessage\<close>; interleaved they complete a piece twice.
\<close>

section \<open>The stages of a handler\<close>

datatype stage = Received bytes | Counting Block | Saving Block | Checking Block | Resetting Block | Marking Block | Advancing | Finished

fun stage_step :: "faults \<Rightarrow> stage \<Rightarrow> stage handler" where
  "stage_step flt (Received payload) = act_bind (ret (PiecePeerMsg_GetBlock payload)) (\<lambda>b. ret (Ok (Counting b)))"
| "stage_step flt (Counting b) = (\<lambda>(cl, pc).
     act_bind (on_conn (onBlockReceive (pc_blockRequester pc) b)) (\<lambda>_. ret (Ok (Saving b))) (cl, pc))"
| "stage_step flt (Saving b) =
     act_bind (on_files (\<lambda>(fi, fs). case SaveBlock flt fi b fs of (fs', r) \<Rightarrow> ((fi, fs'), r))) (\<lambda>_. ret (Ok (Checking b)))"
| "stage_step flt (Checking b) = (\<lambda>(cl, pc).
     act_bind (on_conn (BlocksLeft (pc_blockRequester pc))) (\<lambda>blocksLeft.
       ret (Ok (if blocksLeft = 0 then Resetting b else Finished))) (cl, pc))"
| "stage_step flt (Resetting b) = (\<lambda>(cl, pc).
     act_bind (on_conn (reset (pc_blockRequester pc))) (\<lambda>_. ret (Ok (Marking b))) (cl, pc))"
| "stage_step flt (Marking b) = (\<lambda>(cl, pc). case MarkAsDone (cl_pieces cl) (blk_PieceIdx b) of
       Ok sp \<Rightarrow> ((set_pieces sp cl, pc), Ok Advancing)
     | Err e \<Rightarrow> ((cl, pc), Err e)
     | Panic p \<Rightarrow> ((cl, pc), Panic p)
     | Hang \<Rightarrow> ((cl, pc), Hang))"
| "stage_step flt Advancing = act_bind (\<lambda>(cl, pc).
     if TotalUndonePiecesLeft (cl_pieces cl) \<noteq> 0 then ignore_result RequestNextPiece (cl, pc)
     else on_files (DefaultFinalizeFunc flt) (mark_downloading False (cl, pc))) (\<lambda>_. ret (Ok Finished))"
| "stage_step flt Finished = ret (Ok Finished)"

text \<open>One goroutine alone, and several in the order that the list of their numbers gives.\<close>

fun stages :: "faults \<Rightarrow> nat \<Rightarrow> stage \<Rightarrow> stage handler" where
  "stages flt 0 g = ret (Ok g)"
| "stages flt (Suc k) g = act_bind (stage_step flt g) (stages flt k)"

fun interleave :: "faults \<Rightarrow> nat list \<Rightarrow> stage list \<Rightarrow> stage list handler" where
  "interleave flt [] gs = ret (Ok gs)"
| "interleave flt (k # ks) gs =
     (if k < length gs then act_bind (stage_step flt (gs ! k)) (\<lambda>g. interleave flt ks (gs[k := g])) else ret Hang)"

lemma stages_Finished: "stages flt k Finished = ret (Ok Finished)"
  by (induction k) (simp_all add: fun_eq_iff act_bind_def ret_def)

lemma act_bind_assoc: "act_bind (act_bind m f) g = act_bind m (\<lambda>a. act_bind (f a) g)"
  by (rule ext) (auto simp: act_bind_def split: prod.splits res.splits)

lemma act_bind_cong_at: "(\<And>s' a. m s = (s', Ok a) \<Longrightarrow> f a s' = g a s') \<Longrightarrow> act_bind m f s = act_bind m g s"
  by (auto simp: act_bind_def split: prod.splits res.splits)

lemma act_bind_ret_left: "act_bind (ret (Ok a)) f = f a"
  by (rule ext) (simp add: act_bind_def ret_def)

text \<open>A stage, and what follows it.\<close>

lemma stage_at:
  "act_bind (stage_step flt (Counting b)) F (cl, pc) =
     act_bind (on_conn (onBlockReceive (pc_blockRequester pc) b)) (\<lambda>_. F (Saving b)) (cl, pc)"
  "act_bind (stage_step flt (Checking b)) F (cl, pc) =
     act_bind (on_conn (BlocksLeft (pc_blockRequester pc))) (\<lambda>n. F (if n = 0 then Resetting b else Finished)) (cl, pc)"
  "act_bind (stage_step flt (Resetting b)) F (cl, pc) =
     act_bind (on_conn (reset (pc_blockRequester pc))) (\<lambda>_. F (Marking b)) (cl, pc)"
  by (simp_all add: act_bind_def ret_def split: prod.split res.split)

lemma stage_from:
  "act_bind (stage_step flt (Received payload)) F = act_bind (ret (PiecePeerMsg_GetBlock payload)) (\<lambda>b. F (Counting b))"
  "act_bind (stage_step flt (Saving b)) F =
     act_bind (on_files (\<lambda>(fi, fs). case SaveBlock flt fi b fs of (fs', r) \<Rightarrow> ((fi, fs'), r))) (\<lambda>_. F (Checking b))"
  by (simp_all add: act_bind_assoc act_bind_ret_left)

lemma stages_numeral: "stages flt (numeral k) g = act_bind (stage_step flt g) (stages flt (pred_numeral k))"
  by (simp add: numeral_eq_Suc)

lemma BlocksLeft_same: "on_conn (BlocksLeft ptr) (cl, pc) = (s', Ok n) \<Longrightarrow> s' = (cl, pc)"
  by (auto simp: on_conn_def BlocksLeft_def with_requester_def split: option.splits prod.splits if_splits)

text \<open>From the reset of the requester on: \<open>finish_piece\<close>.\<close>

lemma stages_finish:
  "stages flt 3 (Resetting b) (cl, pc) =
   act_bind (finish_piece flt (pc_blockRequester pc) (blk_PieceIdx b)) (\<lambda>_. ret (Ok Finished)) (cl, pc)"
proof -
  have "stages flt 3 (Resetting b) (cl, pc) =
      act_bind (on_conn (reset (pc_blockRequester pc))) (\<lambda>_. stages flt 2 (Marking b)) (cl, pc)"
    by (simp add: stages_numeral stage_at del: stage_step.simps)
  also have "\<dots> = act_bind (finish_piece flt (pc_blockRequester pc) (blk_PieceIdx b)) (\<lambda>_. ret (Ok Finished)) (cl, pc)"
    unfolding finish_piece_def act_bind_assoc
  proof (rule act_bind_cong_at)
    fix s' :: "Client \<times> PeerConn" and a
    obtain cl' pc' where s': "s' = (cl', pc')" by (cases s')
    show "stages flt 2 (Marking b) s' = act_bind (\<lambda>(cl, pc). case MarkAsDone (cl_pieces cl) (blk_PieceIdx b) of
        Ok sp \<Rightarrow> ((set_pieces sp cl, pc), Ok ())
      | Err e \<Rightarrow> ((cl, pc), Err e)
      | Panic p \<Rightarrow> ((cl, pc), Panic p)
      | Hang \<Rightarrow> ((cl, pc), Hang)) (\<lambda>x. act_bind (\<lambda>(cl, pc).
       let piecesLeft = TotalUndonePiecesLeft (cl_pieces cl) in
       if piecesLeft \<noteq> 0 then ignore_result RequestNextPiece (cl, pc)
       else on_files (DefaultFinalizeFunc flt) (mark_downloading False (cl, pc))) (\<lambda>_. ret (Ok Finished))) s'"
      by (cases "MarkAsDone (cl_pieces cl') (blk_PieceIdx b)")
         (simp_all add: s' stages_numeral act_bind_def ret_def Let_def split: prod.split res.split)
  qed
  finally show ?thesis .
qed

lemma stages_from_check:
  "stages flt 4 (Checking b) (cl, pc) = act_bind (on_conn (BlocksLeft (pc_blockRequester pc))) (\<lambda>blocksLeft.
     act_bind (if blocksLeft = 0 then finish_piece flt (pc_blockRequester pc) (blk_PieceIdx b) else ret (Ok ()))
       (\<lambda>_. ret (Ok Finished))) (cl, pc)"
proof -
  have "stages flt 4 (Checking b) (cl, pc) = act_bind (on_conn (BlocksLeft (pc_blockRequester pc)))
      (\<lambda>blocksLeft. stages flt 3 (if blocksLeft = 0 then Resetting b else Finished)) (cl, pc)"
    by (simp add: stages_numeral stage_at del: stage_step.simps)
  also have "\<dots> = act_bind (on_conn (BlocksLeft (pc_blockRequester pc))) (\<lambda>blocksLeft.
     act_bind (if blocksLeft = 0 then finish_piece flt (pc_blockRequester pc) (blk_PieceIdx b) else ret (Ok ()))
       (\<lambda>_. ret (Ok Finished))) (cl, pc)"
  proof (rule act_bind_cong_at)
    fix s' n assume "on_conn (BlocksLeft (pc_blockRequester pc)) (cl, pc) = (s', Ok n)"
    then have "s' = (cl, pc)" by (rule BlocksLeft_same)
    then show "stages flt 3 (if n = 0 then Resetting b else Finished) s' =
        act_bind (if n = 0 then finish_piece flt (pc_blockRequester pc) (blk_PieceIdx b) else ret (Ok ())) (\<lambda>_. ret (Ok Finished)) s'"
      using stages_finish [of flt b cl pc] stages_Finished [of flt 3] by (simp add: act_bind_ret_left)
  qed
  finally show ?thesis .
qed

text \<open>
  The handler of a PIECE message is its stages in a row: a goroutine that no other one interrupts goes through at most seven
  stages, and what it does to the client and the connection, and how it ends, is what \<open>handlePeerPieceMessage\<close> does, on every message and in
  every state, errors, panics and blocking included.
\<close>

theorem stages_are_the_handler:
  "stages flt 7 (Received payload) s = act_bind (handlePeerPieceMessage flt payload) (\<lambda>_. ret (Ok Finished)) s"
proof -
  obtain cl pc where s: "s = (cl, pc)" by (cases s)
  have "stages flt 7 (Received payload) (cl, pc) = act_bind (ret (PiecePeerMsg_GetBlock payload)) (\<lambda>b. stages flt 6 (Counting b)) (cl, pc)"
    by (simp add: stages_numeral stage_from del: stage_step.simps)
  also have "\<dots> = act_bind (handlePeerPieceMessage flt payload) (\<lambda>_. ret (Ok Finished)) (cl, pc)"
    unfolding handlePeerPieceMessage_def act_bind_assoc
  proof (rule act_bind_cong_at)
    fix s1 :: "Client \<times> PeerConn" and b
    obtain cl1 pc1 where s1: "s1 = (cl1, pc1)" by (cases s1)
    have "stages flt 6 (Counting b) (cl1, pc1) =
        act_bind (on_conn (onBlockReceive (pc_blockRequester pc1) b)) (\<lambda>_. stages flt 5 (Saving b)) (cl1, pc1)"
      by (simp add: stages_numeral stage_at del: stage_step.simps)
    moreover have "stages flt 5 (Saving b) s2 =
        act_bind (on_files (\<lambda>(fi, fs). case SaveBlock flt fi b fs of (fs', r) \<Rightarrow> ((fi, fs'), r))) (\<lambda>_. stages flt 4 (Checking b)) s2" for s2
      by (simp add: stages_numeral stage_from del: stage_step.simps)
    ultimately show "stages flt 6 (Counting b) s1 = act_bind (\<lambda>(cl, pc).
     act_bind (on_conn (onBlockReceive (pc_blockRequester pc) b)) (\<lambda>_ (cl, pc).
     act_bind (on_files (\<lambda>(fi, fs). case SaveBlock flt fi b fs of (fs', r) \<Rightarrow> ((fi, fs'), r))) (\<lambda>_ (cl, pc).
     act_bind (on_conn (BlocksLeft (pc_blockRequester pc))) (\<lambda>blocksLeft.
       if blocksLeft = 0 then finish_piece flt (pc_blockRequester pc) (blk_PieceIdx b)
       else ret (Ok ())) (cl, pc)) (cl, pc)) (cl, pc)) (\<lambda>_. ret (Ok Finished)) s1"
      unfolding s1
      by (auto simp: stages_from_check act_bind_def split: prod.splits res.splits)
  qed
  finally show ?thesis by (simp add: s)
qed

section \<open>Two last blocks\<close>

lemma interleave_run:
  "k < length gs \<Longrightarrow> stages flt c (gs ! k) s = (s', Ok g) \<Longrightarrow>
   interleave flt (replicate c k @ ks) gs s = interleave flt ks (gs[k := g]) s'"
proof (induction c arbitrary: gs s)
  case 0
  then have "s' = s" "g = gs ! k" by (simp_all add: ret_def)
  then show ?case by simp
next
  case (Suc c)
  then obtain s1 g1 where "stage_step flt (gs ! k) s = (s1, Ok g1)" "stages flt c g1 s1 = (s', Ok g)"
    by (auto simp: act_bind_eq_Ok)
  then show ?case using Suc.IH [of "gs[k := g1]" s1] Suc.prems(1) by (simp add: act_bind_Ok)
qed

lemma interleave_first:
  "stages flt c g1 s = (s', Ok g) \<Longrightarrow> interleave flt (replicate c 0 @ ks) [g1, g2] s = interleave flt ks [g, g2] s'"
  using interleave_run [of 0 "[g1, g2]"] by simp

lemma interleave_second:
  "stages flt c g2 s = (s', Ok g) \<Longrightarrow> interleave flt (replicate c 1 @ ks) [g1, g2] s = interleave flt ks [g1, g] s'"
  using interleave_run [of 1 "[g1, g2]"] by simp

text \<open>The block is counted and saved.\<close>

lemma stages_count_save:
  assumes "PiecePeerMsg_GetBlock payload = Ok b" "awaiting pc r (b # bs)"
    and "SaveBlock flt (cl_FileInfo cl) b (cl_fs cl) = (fs', Ok ())"
  shows "\<exists>pc'. stages flt 3 (Received payload) (cl, pc) = ((cl\<lparr>cl_fs := fs'\<rparr>, pc'), Ok (Checking b)) \<and>
    awaiting pc' r bs \<and> blocks_left pc' r = blocks_left pc r - 1 \<and> same_conn pc pc'"
proof -
  obtain pc' where pc': "onBlockReceive (pc_blockRequester pc) b pc = (pc', Ok ())" "awaiting pc' r bs"
    "blocks_left pc' r = blocks_left pc r - 1" "same_conn pc pc'"
    using onBlockReceive_awaiting [OF assms(2)] by blast
  then have "stages flt 3 (Received payload) (cl, pc) = ((cl\<lparr>cl_fs := fs'\<rparr>, pc'), Ok (Checking b))"
    using assms(1,3)
    by (simp add: stages_numeral stage_from stage_at act_simps on_conn_def on_files_def del: stage_step.simps)
  then show ?thesis using pc' by blast
qed

lemma stages_check:
  "awaiting pc r bs \<Longrightarrow> stages flt 1 (Checking b) (cl, pc) =
     ((cl, pc), Ok (if blocks_left pc r = 0 then Resetting b else Finished))"
  using BlocksLeft_awaiting [of pc r bs] by (simp add: act_simps on_conn_def)

text \<open>The rest of the handler, when the queue has an idle piece.\<close>

lemma stages_finish_next:
  assumes "awaiting pc r bs" "pieces_st n m bl st (cl_pieces cl)" "blk_PieceIdx b = i" "0 \<le> i" "i < int n"
    and "pc_queue pc = j # rest" "0 \<le> j" "j < int n" "j \<noteq> i" "st j = PIECESTATUS_IDLE"
  shows "\<exists>cl' pc'. stages flt 3 (Resetting b) (cl, pc) = ((cl', pc'), Ok Finished) \<and>
    pieces_st n m bl (st(i := PIECESTATUS_DONE, j := PIECESTATUS_DOWNLOADING)) (cl_pieces cl') \<and> awaiting pc' r bs \<and>
    blocks_left pc' r = rq_totalNumOfBlocks (pc_requesters pc ! r) \<and>
    rq_totalNumOfBlocks (pc_requesters pc' ! r) = rq_totalNumOfBlocks (pc_requesters pc ! r) \<and>
    pc_queue pc' = rest \<and> pc_tasks pc' = pc_tasks pc @ map (RequestTask (Some r)) (wanted m bl j)"
proof -
  let ?st = "st(i := PIECESTATUS_DONE)"
  have r: "pc_blockRequester pc = Some r" "r < length (pc_requesters pc)" using assms(1) by (simp_all add: awaiting_def)
  obtain p where p: "Get (cl_pieces cl) i = Some p" "piece_blocks p = wanted m bl i" "piece_idx p = i"
    using pieces_st_Get [OF assms(2,4,5)] by blast
  let ?sp = "AList.update i (SetStatus PIECESTATUS_DONE p) (cl_pieces cl)"
  have mark: "MarkAsDone (cl_pieces cl) i = Ok ?sp" using p by (simp add: MarkAsDone_def on_piece_eq)
  have st: "pieces_st n m bl ?st ?sp"
    by (rule pieces_st_update [OF assms(2,4,5)]) (simp_all add: p)
  have "?st j \<noteq> PIECESTATUS_DONE" using assms(9,10) by simp
  then have "TotalUndonePiecesLeft ?sp \<noteq> 0" using pieces_st_undone [OF st] assms(7,8) by metis
  then obtain pc1 where pc1: "finish_piece flt (Some r) i (cl, pc) = ignore_result RequestNextPiece (set_pieces ?sp cl, pc1)"
    "blocks_left pc1 r = rq_totalNumOfBlocks (pc_requesters pc ! r)" "same_conn pc pc1" "awaiting pc1 r bs"
    using finish_piece_eq [OF assms(1) mark, of flt] by auto
  have "pieces_st n m bl ?st (cl_pieces (set_pieces ?sp cl))" using st by (simp add: set_pieces_def)
  moreover have "pc_queue pc1 = j # rest" using pc1(3) assms(6) by (simp add: same_conn_def)
  moreover have "?st j = PIECESTATUS_IDLE" using assms(9,10) by simp
  ultimately obtain sp where sp: "pieces_st n m bl (?st(j := PIECESTATUS_DOWNLOADING)) sp"
      "ignore_result RequestNextPiece (set_pieces ?sp cl, pc1) =
        (((set_pieces sp (set_pieces ?sp cl))\<lparr>cl_isDownloading := True\<rparr>,
          pc1\<lparr>pc_queue := rest, pc_toPeerDownloading := True,
            pc_tasks := pc_tasks pc1 @ map (RequestTask (pc_blockRequester pc1)) (wanted m bl j)\<rparr>), Ok ())"
    using RequestNextPiece_next [OF _ _ assms(7,8)] by blast
  let ?pc = "pc1\<lparr>pc_queue := rest, pc_toPeerDownloading := True,
      pc_tasks := pc_tasks pc1 @ map (RequestTask (pc_blockRequester pc1)) (wanted m bl j)\<rparr>"
  have "stages flt 3 (Resetting b) (cl, pc) =
      (((set_pieces sp (set_pieces ?sp cl))\<lparr>cl_isDownloading := True\<rparr>, ?pc), Ok Finished)"
    unfolding stages_finish r(1) assms(3) using pc1(1) [unfolded sp(2)] by (simp add: act_bind_def ret_def)
  moreover have "awaiting ?pc r bs" "blocks_left ?pc r = rq_totalNumOfBlocks (pc_requesters pc ! r)"
    using pc1(2,4) by (simp_all add: awaiting_def blocks_left_def)
  moreover have "rq_totalNumOfBlocks (pc_requesters ?pc ! r) = rq_totalNumOfBlocks (pc_requesters pc ! r)"
    using same_conn_total [OF pc1(3) r(2)] by simp
  moreover have "pc_tasks ?pc = pc_tasks pc @ map (RequestTask (Some r)) (wanted m bl j)"
    using pc1(3) r(1) by (simp add: same_conn_def)
  ultimately show ?thesis using sp(1) by (intro exI [of _ "(set_pieces sp (set_pieces ?sp cl))\<lparr>cl_isDownloading := True\<rparr>"] exI [of _ ?pc])
     (simp add: set_pieces_def)
qed


text \<open>
  How two last blocks come to be on their way: a new connection is told of every piece of a torrent with pieces of two blocks, and the goroutines of
  the first piece's blocks have run.
\<close>

lemma two_blocks_wait:
  assumes "0 < n" "cl_FileInfo c = fi" "pieces_st n 2 2 (\<lambda>_. PIECESTATUS_IDLE) (fi_Pieces fi)"
    and "BitfieldPeerMsg_GetPieceIndices bits (int n - 1) = Ok [0..int n - 1]" "map_of (cl_fs c) (fi_DownloadedBlocksDir fi) = Some []"
  obtains cl pc r fs' where
    "exec no_faults [Receive (BitfieldPeerMsg bits), Run 0, Run 0] (c, NewPeerConnection peer) = ((cl, pc), Ok ())"
    "awaiting pc r [data_block data 2 2 0 0, data_block data 2 2 0 1]" "blocks_left pc r = 2" "rq_totalNumOfBlocks (pc_requesters pc ! r) = 2"
    "for_act (SaveBlock no_faults (cl_FileInfo cl)) [data_block data 2 2 0 0, data_block data 2 2 0 1] (cl_fs cl) = (fs', Ok ())"
    "pieces_st n 2 2 (progress 0) (cl_pieces cl)" "pc_queue pc = map int [1..<n]"
proof -
  let ?bs = "wanted 2 2 (int 0)" and ?b = "data_block data 2 2 0"
  have fresh: "(NewPeerConnection peer)\<lparr>pc_out := []\<rparr> = NewPeerConnection peer" by (simp add: NewPeerConnection_def)
  obtain cl pc where s: "exec_event no_faults (Receive (BitfieldPeerMsg bits)) (c, NewPeerConnection peer) = ((cl, pc), Ok ())"
      "transferring n 2 2 fi (cl_fs c) [] 0 [] (cl, pc)"
    using transfer_start [where earlier = "[]" and peer = peer, OF _ _ assms(1-4)] unfolding fresh by auto
  obtain sp r where st: "cl_FileInfo cl = fi\<lparr>fi_Pieces := sp\<rparr>" "pieces_st n 2 2 (progress 0) sp"
      "cl_fs cl = cl_fs c" "pc_queue pc = map int [1..<n]"
      "pc_tasks pc = map (RequestTask (Some r)) ?bs" "awaiting pc r []"
      "blocks_left pc r = 2" "rq_totalNumOfBlocks (pc_requesters pc ! r) = 2"
    using s(2) by (auto simp: transferring_def)
  note bs = wanted_facts [of 2 2 "int 0"]
  have dist: "distinct (map blk_Idx ([] @ ?bs))" using bs(2) by (simp add: distinct_map inj_on_def)
  have tasks: "pc_tasks pc = [] @ map (RequestTask (Some r)) ?bs" using st(5) by simp
  obtain pc1 where pc1: "exec no_faults (replicate 2 (Run 0)) (cl, pc) = ((cl, pc1), Ok ())" "awaiting pc1 r ?bs"
      "blocks_left pc1 r = 2" "rq_totalNumOfBlocks (pc_requesters pc1 ! r) = 2" "pc_queue pc1 = map int [1..<n]"
    using run_requests [OF tasks st(6) dist, of no_faults cl] bs(1) st(4,7,8) by auto
  have run: "exec no_faults [Receive (BitfieldPeerMsg bits), Run 0, Run 0] (c, NewPeerConnection peer) = ((cl, pc1), Ok ())"
    using s(1) pc1(1) by (simp add: act_bind_Ok numeral_2_eq_2)
  have awaits: "awaiting pc1 r [?b 0, ?b 1]"
    by (rule awaiting_perm [OF pc1(2)], unfold bs(2) [OF zero_less_numeral]) (simp add: upt_conv_Cons data_block_def)
  have "fi_DownloadedBlocksDir (cl_FileInfo cl) = fi_DownloadedBlocksDir fi" by (simp add: st(1))
  then obtain fs' where "for_act (SaveBlock no_faults (cl_FileInfo cl)) [?b 0, ?b 1] (cl_fs cl) = (fs', Ok ())"
    using save_all [of "cl_fs cl" "cl_FileInfo cl" "[?b 0, ?b 1]"] st(3) assms(5) by (auto simp: data_block_def block_key_def valid_key_def)
  moreover have "pieces_st n 2 2 (progress 0) (cl_pieces cl)" using st(1,2) by simp
  ultimately show thesis using that [OF run awaits pc1(3,4) _ _ pc1(5)] by blast
qed

definition twelve_info :: Info where
  "twelve_info = \<lparr>info_PieceLength = 4, info_Pieces = [], info_Name = ''file'', info_Length = 12, info_Files = []\<rparr>"

definition twelve_fileinfo :: FileInfo where
  "twelve_fileinfo = \<lparr>fi_DownloadedBlocksDir = ''/tmp/blocks'', fi_FinalDownloadDir = ''/final'', fi_IsSeeding = False,
     fi_Pieces = map (\<lambda>i. (i, torrent_piece 3 4 12 2 False i)) [0, 1, 2], fi_torrentInfo = Some twelve_info\<rparr>"

lemma cut_twelve: "cut_pieces 3 4 2 (Some twelve_info) False = Ok (fi_Pieces twelve_fileinfo)"
  by code_simp

definition twelve_client :: Client where
  "twelve_client = \<lparr>cl_FileInfo = twelve_fileinfo, cl_fs = [(''/tmp/blocks'', []), (''/final'', [])], cl_isDownloading = False\<rparr>"

definition waiting_for_two :: "Client \<times> PeerConn" where
  "waiting_for_two = fst (exec no_faults [Receive (BitfieldPeerMsg [7]), Run 0, Run 0] (twelve_client, NewPeerConnection ''peer''))"

definition last_payload :: "nat \<Rightarrow> bytes" where
  "last_payload j = GetPayload (BuildPeerPieceMsg (data_block [1, 2, 3, 4, 5, 6, 7, 8, 9, 10, 11, 12] 2 2 0 j))"


end
