(* ===== verification/Handler_Points.thy ===== *)
theory Handler_Points
  imports Races
begin

text \<open>
  Every handler cut into the points between which another goroutine may run: an operation that takes a lock is one step, and so is
  each read and each write of a field that handlers share without a lock, the queue of a connection and its requester. A goroutine
  that nobody interrupts does what its handler does (\<open>Handlers\<close>).
\<close>

section \<open>Where a goroutine is\<close>

text \<open>
  The control points, in the order of the code, with the local variables that are live there. \<open>Of_Piece\<close> are the stages of a
  PIECE message (\<open>Races\<close>); from \<open>Looper\<close> on it is \<open>RequestNextPiece\<close>.
\<close>

datatype point =
    Dispatch PeerMsg
  | Hello_Count | Hello_Build | Writing PeerMsg
  | Reading_Block Block
  | Of_Piece stage | Undone_Count | Finish_Mark | Finalizing
  | Bits_Parse bytes bool | Bits_Merge "int list" bool | Bits_Store "int list" bool | Bits_First
  | Have_Parse bytes bool | Have_Known int bool | Have_Append int bool | Have_Store int "int list" bool
  | New_Requester int | Install_Requester int
  | Looper | Mark_Downloading | Dequeue | Dequeued int "int list" | Reserve int | Fetch int | Request_Blocks "Block list"
  | Not_Downloading | Stop

definition stage_point :: "stage \<Rightarrow> point" where
  "stage_point g = (case g of Advancing \<Rightarrow> Undone_Count | Finished \<Rightarrow> Stop | _ \<Rightarrow> Of_Piece g)"

text \<open>Reading and writing the queue.\<close>

definition read_queue :: "int list handler" where
  "read_queue = (\<lambda>(cl, pc). ((cl, pc), Ok (pc_queue pc)))"

definition write_queue :: "int list \<Rightarrow> unit handler" where
  "write_queue q = on_conn (\<lambda>pc. (pc\<lparr>pc_queue := q\<rparr>, Ok ()))"

definition read_pieces :: "(SafePieces \<Rightarrow> 'a res) \<Rightarrow> 'a handler" where
  "read_pieces f = (\<lambda>(cl, pc). ((cl, pc), f (cl_pieces cl)))"

definition set_downloading :: "bool \<Rightarrow> unit handler" where
  "set_downloading d s = (mark_downloading d s, Ok ())"

definition reserve_piece :: "int \<Rightarrow> bool handler" where
  "reserve_piece i = (\<lambda>(cl, pc). case TryToReserve (cl_pieces cl) i (pc_toPeerId pc) of
       Ok (sp, ok) \<Rightarrow> ((set_pieces sp cl, pc), Ok ok)
     | Err e \<Rightarrow> ((cl, pc), Err e)
     | Panic p \<Rightarrow> ((cl, pc), Panic p)
     | Hang \<Rightarrow> ((cl, pc), Hang))"

text \<open>\<open>go self.blockRequester.request(block, errChan)\<close>\<close>

definition go_request :: "Block \<Rightarrow> unit handler" where
  "go_request b = on_conn (\<lambda>pc. (pc\<lparr>pc_tasks := pc_tasks pc @ [RequestTask (pc_blockRequester pc) b]\<rparr>, Ok ()))"

section \<open>The next step\<close>

fun point_step :: "faults \<Rightarrow> point \<Rightarrow> point handler" where
  "point_step flt (Dispatch (HandshakePeerMsg p)) = act_bind (write_msg BuildPeerInterestedMsg) (\<lambda>_. ret (Ok Hello_Count))"
| "point_step flt (Dispatch (KeepAlivePeerMsg p)) = act_bind handlePeerKeepAliveMessage (\<lambda>_. ret (Ok Stop))"
| "point_step flt (Dispatch (InterestedPeerMsg p)) = act_bind handlePeerInterestedMessage (\<lambda>_. ret (Ok Stop))"
| "point_step flt (Dispatch (NotInterestedPeerMsg p)) = act_bind handlePeerNotInterestedMessage (\<lambda>_. ret (Ok Stop))"
| "point_step flt (Dispatch (UnchokedPeerMsg p)) = act_bind handlePeerUnchokedMessage (\<lambda>_. ret (Ok Stop))"
| "point_step flt (Dispatch (ChokedPeerMsg p)) = act_bind handlePeerChokedMessage (\<lambda>_. ret (Ok Stop))"
| "point_step flt (Dispatch (HavePeerMsg p)) = act_bind read_queue (\<lambda>q. ret (Ok (Have_Parse p (length q = 0))))"
| "point_step flt (Dispatch (BitfieldPeerMsg p)) = act_bind read_queue (\<lambda>q. ret (Ok (Bits_Parse p (length q = 0))))"
| "point_step flt (Dispatch (RequestPeerMsg p)) = act_bind (ret (RequestPeerMsg_GetBlock p)) (\<lambda>b. ret (Ok (Reading_Block b)))"
| "point_step flt (Dispatch (PiecePeerMsg p)) = act_bind (ret (PiecePeerMsg_GetBlock p)) (\<lambda>b. ret (Ok (Of_Piece (Counting b))))"
| "point_step flt Hello_Count = act_bind (read_pieces (\<lambda>sp. Ok (length (DownloadedPieceIndices sp))))
     (\<lambda>n. ret (Ok (if n = 0 then Stop else Hello_Build)))"
| "point_step flt Hello_Build = act_bind (read_pieces (\<lambda>sp. case BuildPeerBitfieldMsg (Some sp) of
       Err e \<Rightarrow> Ok None | Ok msg \<Rightarrow> Ok (Some msg) | Panic p \<Rightarrow> Panic p | Hang \<Rightarrow> Hang))
     (\<lambda>msg. ret (Ok (case msg of None \<Rightarrow> Stop | Some msg \<Rightarrow> Writing msg)))"
| "point_step flt (Writing msg) = act_bind (write_msg msg) (\<lambda>_. ret (Ok Stop))"
| "point_step flt (Reading_Block b) = (\<lambda>(cl, pc).
     act_bind (on_files (GetBlock flt (blk_PieceIdx b) (blk_Begin b) (blk_Length b) (fi_IsSeeding (cl_FileInfo cl))))
       (\<lambda>fullBlock. ret (case fullBlock of
            None \<Rightarrow> Panic NilDereference
          | Some fullBlock \<Rightarrow> Ok (Writing (BuildPeerPieceMsg fullBlock)))) (cl, pc))"
| "point_step flt (Of_Piece g) = act_bind (stage_step flt g) (\<lambda>g'. ret (Ok (stage_point g')))"
| "point_step flt Undone_Count = act_bind (read_pieces (\<lambda>sp. Ok (TotalUndonePiecesLeft sp)))
     (\<lambda>piecesLeft. ret (Ok (if piecesLeft \<noteq> 0 then Looper else Finish_Mark)))"
| "point_step flt Finish_Mark = act_bind (set_downloading False) (\<lambda>_. ret (Ok Finalizing))"
| "point_step flt Finalizing = act_bind (on_files (DefaultFinalizeFunc flt)) (\<lambda>_. ret (Ok Stop))"
| "point_step flt (Bits_Parse payload wasQueueEmpty) =
     act_bind (read_pieces (\<lambda>sp. BitfieldPeerMsg_GetPieceIndices payload (MaxPieceIdx sp)))
       (\<lambda>pieceIndices. ret (Ok (if length pieceIndices = 0 then Stop else Bits_Merge pieceIndices wasQueueEmpty)))"
| "point_step flt (Bits_Merge pieceIndices wasQueueEmpty) =
     act_bind read_queue (\<lambda>q. ret (Ok (Bits_Store (IntSliceUniqueMergeSlices q pieceIndices) wasQueueEmpty)))"
| "point_step flt (Bits_Store q wasQueueEmpty) =
     act_bind (write_queue q) (\<lambda>_. ret (Ok (if wasQueueEmpty then Bits_First else Stop)))"
| "point_step flt Bits_First = act_bind read_queue (\<lambda>q. act_bind (ret (slice_get q 0)) (\<lambda>i. ret (Ok (New_Requester i))))"
| "point_step flt (Have_Parse payload wasQueueEmpty) =
     act_bind (ret (HavePeerMsg_GetPieceIdx payload)) (\<lambda>i. ret (Ok (Have_Known i wasQueueEmpty)))"
| "point_step flt (Have_Known i wasQueueEmpty) =
     act_bind read_queue (\<lambda>q. ret (Ok (if IntSliceHas q i then Stop else Have_Append i wasQueueEmpty)))"
| "point_step flt (Have_Append i wasQueueEmpty) = act_bind read_queue (\<lambda>q. ret (Ok (Have_Store i (q @ [i]) wasQueueEmpty)))"
| "point_step flt (Have_Store i q wasQueueEmpty) =
     act_bind (write_queue q) (\<lambda>_. ret (Ok (if wasQueueEmpty then New_Requester i else Stop)))"
| "point_step flt (New_Requester i) =
     act_bind (read_pieces (\<lambda>sp. case Get sp i of None \<Rightarrow> Panic NilDereference | Some p \<Rightarrow> Ok (BlockCount p)))
       (\<lambda>n. ret (Ok (Install_Requester n)))"
| "point_step flt (Install_Requester n) = act_bind (on_conn (install_requester n)) (\<lambda>_. ret (Ok Looper))"
| "point_step flt Looper = act_bind read_queue (\<lambda>q. ret (Ok (if length q = 0 then Not_Downloading else Mark_Downloading)))"
| "point_step flt Not_Downloading = act_bind (set_downloading False) (\<lambda>_. ret (Ok Stop))"
| "point_step flt Mark_Downloading = act_bind (set_downloading True) (\<lambda>_. ret (Ok Dequeue))"
| "point_step flt Dequeue = act_bind read_queue (\<lambda>q. act_bind (ret (slice_get q 0)) (\<lambda>i. ret (Ok (Dequeued i (tl q)))))"
| "point_step flt (Dequeued i rest) = act_bind (write_queue rest) (\<lambda>_. ret (Ok (Reserve i)))"
| "point_step flt (Reserve i) = act_bind (reserve_piece i) (\<lambda>ok. ret (Ok (if ok then Fetch i else Looper)))"
| "point_step flt (Fetch i) = act_bind (read_pieces (\<lambda>sp. case Get sp i of None \<Rightarrow> Panic NilDereference | Some p \<Rightarrow> Ok (piece_blocks p)))
     (\<lambda>bs. ret (Ok (Request_Blocks bs)))"
| "point_step flt (Request_Blocks []) = ret (Ok Stop)"
| "point_step flt (Request_Blocks (b # bs)) = act_bind (go_request b) (\<lambda>_. ret (Ok (Request_Blocks bs)))"
| "point_step flt Stop = ret (Ok Stop)"

text \<open>One goroutine alone.\<close>

fun points :: "faults \<Rightarrow> nat \<Rightarrow> point \<Rightarrow> point handler" where
  "points flt 0 g = ret (Ok g)"
| "points flt (Suc k) g = act_bind (point_step flt g) (points flt k)"

section \<open>A goroutine alone is its handler\<close>

text \<open>Two outcomes agree when their results do and, unless the program has ended with a panic, their states.\<close>

definition agrees :: "'s \<times> 'a res \<Rightarrow> 's \<times> 'a res \<Rightarrow> bool" where
  "agrees x y \<longleftrightarrow> snd x = snd y \<and> (is_panic (snd x) \<or> fst x = fst y)"

lemma agrees_refl [simp]: "agrees x x"
  by (simp add: agrees_def)

lemma agrees_trans: "agrees x y \<Longrightarrow> agrees y z \<Longrightarrow> agrees x z"
  by (auto simp: agrees_def)

text \<open>From some number of steps on, the goroutine has come to the given outcome.\<close>

definition comes_to :: "faults \<Rightarrow> point \<Rightarrow> Client \<times> PeerConn \<Rightarrow> (Client \<times> PeerConn) \<times> point res \<Rightarrow> bool" where
  "comes_to flt g s out \<longleftrightarrow> (\<exists>k. \<forall>j \<ge> k. agrees (points flt j g s) out)"

lemma points_Stop [simp]: "points flt k Stop s = (s, Ok Stop)"
  by (induction k) (simp_all add: act_bind_def ret_def)

lemma comes_to_Stop [simp]: "comes_to flt Stop s (s, Ok Stop)"
  by (simp add: comes_to_def)

lemma comes_to_agrees: "comes_to flt g s out \<Longrightarrow> agrees out out' \<Longrightarrow> comes_to flt g s out'"
  by (auto simp: comes_to_def intro: agrees_trans)

text \<open>A step of the goroutine that does what the first part of a handler does.\<close>

lemma comes_to_bind:
  assumes "point_step flt g s = act_bind m (\<lambda>a. ret (Ok (q a))) s"
    and "\<And>s' a. m s = (s', Ok a) \<Longrightarrow> comes_to flt (q a) s' (f a s')"
  shows "comes_to flt g s (act_bind m f s)"
proof -
  obtain s' r where m: "m s = (s', r)" by (cases "m s")
  have step: "points flt (Suc j) g s = act_bind m (\<lambda>a. points flt j (q a)) s" for j
    using assms(1) m by (cases r) (simp_all add: act_bind_def ret_def)
  have enough: "\<exists>k. \<forall>j \<ge> k. agrees (points flt j g s) (act_bind m f s)"
    if "\<forall>j \<ge> k. agrees (act_bind m (\<lambda>a. points flt j (q a)) s) (act_bind m f s)" for k
  proof (intro exI allI impI)
    fix j assume "Suc k \<le> j"
    then obtain i where "j = Suc i" "k \<le> i" by (cases j) auto
    then show "agrees (points flt j g s) (act_bind m f s)" using that step by simp
  qed
  show ?thesis
  proof (cases r)
    case (Ok a)
    then obtain k where "\<forall>j \<ge> k. agrees (points flt j (q a) s') (f a s')" using assms(2) m by (auto simp: comes_to_def)
    then show ?thesis unfolding comes_to_def using m Ok by (intro enough [of k]) (simp add: act_bind_Ok)
  qed (use m in \<open>simp_all add: comes_to_def act_bind_def, (use enough [of 0] m in \<open>simp add: act_bind_def\<close>)+\<close>)
qed

lemma comes_to_step: "point_step flt g s = (s', Ok g') \<Longrightarrow> comes_to flt g' s' out \<Longrightarrow> comes_to flt g s out"
  using comes_to_bind [where m = "\<lambda>_. (s', Ok ())" and q = "\<lambda>_. g'" and f = "\<lambda>_ _. out", of flt g s]
  by (simp add: act_bind_def ret_def)

lemma comes_to_Panic: "point_step flt g s = (s', Panic p) \<Longrightarrow> comes_to flt g s (s', Panic p)"
  using comes_to_bind [of flt g s "\<lambda>_. (s', Panic p)" "\<lambda>_. Stop" "\<lambda>_. undefined"] by (simp add: act_bind_def)

lemma comes_to_ends: "point_step flt g s = (s', r) \<Longrightarrow> \<not> is_Ok r \<Longrightarrow> comes_to flt g s (s', r)"
  using comes_to_bind [of flt g s "\<lambda>_. (s', res_bind r (\<lambda>_. Ok ()))" "\<lambda>_. Stop" "\<lambda>_. undefined"]
  by (cases r) (simp_all add: act_bind_def)

lemma comes_to_done: "point_step flt g = act_bind m (\<lambda>_. ret (Ok Stop)) \<Longrightarrow> comes_to flt g s (act_bind m (\<lambda>_. ret (Ok Stop)) s)"
  by (rule comes_to_bind) (auto simp add: ret_def)

text \<open>The loop of \<open>RequestNextPiece\<close>: a piece that is refused is as good as not in the queue.\<close>

lemma Request_Blocks_comes_to:
  "comes_to flt (Request_Blocks bs) (cl, pc) ((cl, pc\<lparr>pc_tasks := pc_tasks pc @ map (RequestTask (pc_blockRequester pc)) bs\<rparr>), Ok Stop)"
proof (induction bs arbitrary: pc)
  case Nil
  show ?case by (rule comes_to_step [of _ _ _ "(cl, pc)" Stop]) (simp_all add: ret_def)
next
  case (Cons b bs)
  let ?pc = "pc\<lparr>pc_tasks := pc_tasks pc @ [RequestTask (pc_blockRequester pc) b]\<rparr>"
  have "point_step flt (Request_Blocks (b # bs)) (cl, pc) = ((cl, ?pc), Ok (Request_Blocks bs))"
    by (simp add: go_request_def on_conn_def act_bind_def ret_def)
  then show ?case using Cons.IH [of ?pc] comes_to_step by fastforce
qed

lemma refused_same: "TryToReserve sp i peer = Ok (sp', False) \<Longrightarrow> sp' = sp"
  by (auto simp: TryToReserve_def on_piece_eq split: option.splits if_splits)

lemma TryToReserve_outcome:
  obtains (missing) "TryToReserve sp i peer = Panic NilDereference"
  | (refused) "TryToReserve sp i peer = Ok (sp, False)"
  | (reserved) sp' p where "TryToReserve sp i peer = Ok (sp', True)" "Get sp' i = Some p"
proof (cases "Get sp i")
  case None
  then show ?thesis by (intro missing) (simp add: TryToReserve_def on_piece_eq)
next
  case (Some p)
  show ?thesis
  proof (cases "piece_status p = PIECESTATUS_IDLE")
    case True
    then show ?thesis using Some by (intro reserved) (simp add: TryToReserve_def on_piece_eq, simp)
  qed (use Some in \<open>auto intro: refused simp: TryToReserve_def on_piece_eq\<close>)
qed

lemma set_pieces_same [simp]: "set_pieces (cl_pieces cl) cl = cl"
  by (simp add: set_pieces_def)

lemma reserve_first_fails:
  "(\<exists>t. reserve_first TryToReserve peer q sp = Ok t) \<or> reserve_first TryToReserve peer q sp = Panic NilDereference"
proof (induction q arbitrary: sp)
  case (Cons i q)
  show ?case by (cases rule: TryToReserve_outcome [of sp i peer]) (use Cons.IH in simp_all)
qed simp

lemma RequestNextPiece_refused:
  assumes "pc_queue pc = i # q" "TryToReserve (cl_pieces cl) i (pc_toPeerId pc) = Ok (sp, False)"
  shows "agrees (RequestNextPiece (mark_downloading True (cl, pc\<lparr>pc_queue := q\<rparr>))) (RequestNextPiece (cl, pc))"
proof -
  have sp: "sp = cl_pieces cl" by (rule refused_same [OF assms(2)])
  have "reserve_first TryToReserve (pc_toPeerId pc) (i # q) (cl_pieces cl) =
      reserve_first TryToReserve (pc_toPeerId pc) q (cl_pieces cl)"
    using assms(2) sp by simp
  then show ?thesis
    using assms(1) reserve_first_fails [of "pc_toPeerId pc" q "cl_pieces cl"]
    by (cases q; cases "reserve_first TryToReserve (pc_toPeerId pc) q (cl_pieces cl)")
       (auto simp del: reserve_first.simps(2) simp: RequestNextPiece_def mark_downloading_def agrees_def set_pieces_def split: option.splits prod.splits)
qed

lemma agrees_bind: "agrees (m s) (m s') \<Longrightarrow> agrees (act_bind m f s) (act_bind m f s')"
  by (cases "m s"; cases "m s'") (auto simp: agrees_def act_bind_def split: res.splits)

lemma ignore_then: "act_bind (ignore_result m) (\<lambda>_. ret (Ok Stop)) = act_bind m (\<lambda>_. ret (Ok Stop))"
  by (simp add: ignore_result_def act_bind_assoc act_bind_ret_left)

lemma Looper_comes_to: "comes_to flt Looper s (act_bind RequestNextPiece (\<lambda>_. ret (Ok Stop)) s)"
proof -
  have "comes_to flt Looper (cl, pc) (act_bind RequestNextPiece (\<lambda>_. ret (Ok Stop)) (cl, pc))" for cl pc
  proof (induction "pc_queue pc" arbitrary: cl pc)
    case Nil
    let ?s = "mark_downloading False (cl, pc)"
    have "comes_to flt Looper (cl, pc) (?s, Ok Stop)"
      by (rule comes_to_step [of _ _ _ "(cl, pc)" Not_Downloading], use Nil in \<open>simp add: read_queue_def act_bind_def ret_def\<close>,
          rule comes_to_step [of _ _ _ ?s Stop]) (simp_all add: set_downloading_def act_bind_def ret_def)
    then show ?case using Nil by (simp add: RequestNextPiece_def act_bind_def ret_def)
  next
    case (Cons i q)
    let ?pc = "pc\<lparr>pc_queue := q\<rparr>"
    obtain cl1 pc1 where marked: "mark_downloading True (cl, pc) = (cl1, pc1)" "mark_downloading True (cl, ?pc) = (cl1, pc1\<lparr>pc_queue := q\<rparr>)"
      by (auto simp: mark_downloading_def)
    have same: "cl_pieces cl1 = cl_pieces cl" "pc_toPeerId pc1 = pc_toPeerId pc" "pc_queue pc1 = i # q"
      using marked(1) Cons.hyps(2) by (auto simp: mark_downloading_def)
    have start: "comes_to flt (Reserve i) (cl1, pc1\<lparr>pc_queue := q\<rparr>) out \<Longrightarrow> comes_to flt Looper (cl, pc) out" for out
      apply (rule comes_to_step [of _ _ _ "(cl, pc)" Mark_Downloading])
       apply (use Cons.hyps(2) in \<open>simp add: read_queue_def act_bind_def ret_def flip: Cons.hyps(2)\<close>)
      apply (rule comes_to_step [of _ _ _ "(cl1, pc1)" Dequeue])
       apply (simp add: set_downloading_def act_bind_def ret_def marked)
      apply (rule comes_to_step [of _ _ _ "(cl1, pc1)" "Dequeued i q"])
       apply (simp add: read_queue_def act_bind_def ret_def same slice_get_def)
      apply (rule comes_to_step [of _ _ _ "(cl1, pc1\<lparr>pc_queue := q\<rparr>)" "Reserve i"])
       apply (simp_all add: write_queue_def on_conn_def act_bind_def ret_def)
      done
    show ?case
    proof (cases rule: TryToReserve_outcome [of "cl_pieces cl" i "pc_toPeerId pc"])
      case missing
      then have "comes_to flt (Reserve i) (cl1, pc1\<lparr>pc_queue := q\<rparr>) ((cl1, pc1\<lparr>pc_queue := q\<rparr>), Panic NilDereference)"
        by (intro comes_to_Panic) (simp add: reserve_piece_def act_bind_def same)
      moreover have "act_bind RequestNextPiece (\<lambda>_. ret (Ok Stop)) (cl, pc) = ((cl, pc), Panic NilDereference)"
        using missing by (simp add: RequestNextPiece_def act_bind_def flip: Cons.hyps(2))
      ultimately show ?thesis using start comes_to_agrees by (simp add: agrees_def)
    next
      case refused
      then have "point_step flt (Reserve i) (cl1, pc1\<lparr>pc_queue := q\<rparr>) = ((cl1, pc1\<lparr>pc_queue := q\<rparr>), Ok Looper)"
        by (simp add: reserve_piece_def act_bind_def ret_def same flip: same(1))
      moreover have "comes_to flt Looper (cl1, pc1\<lparr>pc_queue := q\<rparr>)
          (act_bind RequestNextPiece (\<lambda>_. ret (Ok Stop)) (cl1, pc1\<lparr>pc_queue := q\<rparr>))"
        by (rule Cons.hyps(1)) simp
      moreover have "agrees (RequestNextPiece (cl1, pc1\<lparr>pc_queue := q\<rparr>)) (RequestNextPiece (cl, pc))"
        using RequestNextPiece_refused [OF Cons.hyps(2) [symmetric] refused] by (simp add: marked(2))
      ultimately show ?thesis using start comes_to_step comes_to_agrees agrees_bind by meson
    next
      case (reserved sp p)
      let ?s = "(set_pieces sp cl1, pc1\<lparr>pc_queue := q\<rparr>)"
      have "comes_to flt (Reserve i) (cl1, pc1\<lparr>pc_queue := q\<rparr>) ((set_pieces sp cl1, pc1\<lparr>pc_queue := q,
          pc_tasks := pc_tasks pc1 @ map (RequestTask (pc_blockRequester pc1)) (piece_blocks p)\<rparr>), Ok Stop)"
        by (rule comes_to_step [of _ _ _ ?s "Fetch i"], use reserved in \<open>simp add: reserve_piece_def act_bind_def ret_def same\<close>,
            rule comes_to_step [of _ _ _ ?s "Request_Blocks (piece_blocks p)"],
            use reserved in \<open>simp add: read_pieces_def act_bind_def ret_def set_pieces_def\<close>)
           (use Request_Blocks_comes_to [of flt "piece_blocks p" "set_pieces sp cl1" "pc1\<lparr>pc_queue := q\<rparr>"] in simp)
      moreover have "act_bind RequestNextPiece (\<lambda>_. ret (Ok Stop)) (cl, pc) = ((set_pieces sp cl1, pc1\<lparr>pc_queue := q,
          pc_tasks := pc_tasks pc1 @ map (RequestTask (pc_blockRequester pc1)) (piece_blocks p)\<rparr>), Ok Stop)"
        using reserved marked(1)
        by (auto simp: RequestNextPiece_def act_bind_def ret_def mark_downloading_def set_pieces_def simp flip: Cons.hyps(2))
      ultimately show ?thesis using start by simp
    qed
  qed
  then show ?thesis by (cases s) simp
qed

text \<open>A new requester, and \<open>RequestNextPiece\<close> on it.\<close>

abbreviation then_stop :: "unit handler \<Rightarrow> point handler" where
  "then_stop m \<equiv> act_bind m (\<lambda>_. ret (Ok Stop))"

lemma start_comes_to: "comes_to flt (New_Requester i) (cl, pc)
    (then_stop (act_bind (start_requester i) (\<lambda>_. ignore_result RequestNextPiece)) (cl, pc))"
proof (cases "Get (cl_pieces cl) i")
  case None
  then have "comes_to flt (New_Requester i) (cl, pc) ((cl, pc), Panic NilDereference)"
    by (intro comes_to_Panic) (simp add: read_pieces_def act_bind_def)
  then show ?thesis using None by (simp add: start_requester_def act_bind_def)
next
  case (Some p)
  have "comes_to flt (Install_Requester (BlockCount p)) (cl, pc)
      (act_bind (on_conn (install_requester (BlockCount p))) (\<lambda>_. act_bind RequestNextPiece (\<lambda>_. ret (Ok Stop))) (cl, pc))"
    by (rule comes_to_bind [where q = "\<lambda>_. Looper"]) (simp_all add: Looper_comes_to)
  then have "comes_to flt (New_Requester i) (cl, pc)
      (act_bind (on_conn (install_requester (BlockCount p))) (\<lambda>_. act_bind RequestNextPiece (\<lambda>_. ret (Ok Stop))) (cl, pc))"
    by (rule comes_to_step [rotated]) (simp add: read_pieces_def act_bind_def ret_def Some)
  then show ?thesis
    using Some by (simp add: act_bind_assoc ignore_then start_requester_def act_bind_def split: prod.splits res.splits)
qed

lemma have_comes_to: "comes_to flt (Dispatch (HavePeerMsg p)) (cl, pc) (then_stop (handlePeerHaveMessage p) (cl, pc))"
proof -
  let ?was = "length (pc_queue pc) = 0"
  have "comes_to flt (Have_Known i ?was) (cl, pc)
      (if IntSliceHas (pc_queue pc) i then ((cl, pc), Ok Stop)
       else if ?was then then_stop (act_bind (start_requester i) (\<lambda>_. ignore_result RequestNextPiece)) (cl, pc\<lparr>pc_queue := pc_queue pc @ [i]\<rparr>)
       else ((cl, pc\<lparr>pc_queue := pc_queue pc @ [i]\<rparr>), Ok Stop))" for i
  proof (cases "IntSliceHas (pc_queue pc) i")
    case True
    show ?thesis by (rule comes_to_step [of _ _ _ "(cl, pc)" Stop]) (use True in \<open>simp_all add: read_queue_def act_bind_def ret_def\<close>)
  next
    case False
    let ?s = "(cl, pc\<lparr>pc_queue := pc_queue pc @ [i]\<rparr>)"
    show ?thesis
      by (rule comes_to_step [of _ _ _ "(cl, pc)" "Have_Append i ?was"], use False in \<open>simp add: read_queue_def act_bind_def ret_def\<close>,
          rule comes_to_step [of _ _ _ "(cl, pc)" "Have_Store i (pc_queue pc @ [i]) ?was"], simp add: read_queue_def act_bind_def ret_def,
          rule comes_to_step [of _ _ _ ?s "if ?was then New_Requester i else Stop"], simp add: write_queue_def on_conn_def act_bind_def ret_def)
         (use start_comes_to [of flt i cl "pc\<lparr>pc_queue := pc_queue pc @ [i]\<rparr>"] False in \<open>cases "pc_queue pc = []"; simp\<close>)
  qed
  note known = this
  have "comes_to flt (Have_Parse p ?was) (cl, pc) (then_stop (handlePeerHaveMessage p) (cl, pc))"
  proof (cases "HavePeerMsg_GetPieceIdx p")
    case (Ok i)
    show ?thesis
      by (rule comes_to_step [of _ _ _ "(cl, pc)" "Have_Known i ?was"], simp add: Ok act_bind_def ret_def)
         (use known [of i] in \<open>cases "IntSliceHas (pc_queue pc) i"; cases "pc_queue pc = []";
             simp add: handlePeerHaveMessage_def Ok act_bind_def ret_def\<close>)
  qed (auto simp: handlePeerHaveMessage_def act_bind_def ret_def intro!: comes_to_ends)
  then show ?thesis
    by (rule comes_to_step [rotated]) (simp add: read_queue_def act_bind_def ret_def)
qed

lemma bitfield_comes_to: "comes_to flt (Dispatch (BitfieldPeerMsg p)) (cl, pc) (then_stop (handlePeerBitfieldMessage p) (cl, pc))"
proof -
  let ?was = "length (pc_queue pc) = 0"
  have "comes_to flt (Bits_Parse p ?was) (cl, pc) (then_stop (handlePeerBitfieldMessage p) (cl, pc))"
  proof (cases "BitfieldPeerMsg_GetPieceIndices p (MaxPieceIdx (cl_pieces cl))")
    case (Ok ks)
    let ?q = "IntSliceUniqueMergeSlices (pc_queue pc) ks"
    let ?pc = "pc\<lparr>pc_queue := ?q\<rparr>"
    let ?go = "act_bind (ret (slice_get ?q 0)) (\<lambda>i. act_bind (start_requester i) (\<lambda>_. ignore_result RequestNextPiece))"
    have first: "comes_to flt Bits_First (cl, ?pc) (then_stop ?go (cl, ?pc))"
    proof (cases "slice_get ?q 0")
      case (Ok i)
      show ?thesis
        by (rule comes_to_step [of _ _ _ "(cl, ?pc)" "New_Requester i"], simp add: read_queue_def act_bind_def ret_def Ok)
           (use start_comes_to [of flt i cl ?pc] in \<open>simp add: Ok act_bind_ret_left\<close>)
    qed (auto simp: read_queue_def act_bind_def ret_def intro!: comes_to_ends)
    have merged: "comes_to flt (Bits_Merge ks ?was) (cl, pc) (if ?was then then_stop ?go (cl, ?pc) else ((cl, ?pc), Ok Stop))"
      by (rule comes_to_step [of _ _ _ "(cl, pc)" "Bits_Store ?q ?was"], simp add: read_queue_def act_bind_def ret_def,
          rule comes_to_step [of _ _ _ "(cl, ?pc)" "if ?was then Bits_First else Stop"], simp add: write_queue_def on_conn_def act_bind_def ret_def)
         (use first in \<open>cases "pc_queue pc = []"; simp\<close>)
    show ?thesis
    proof (cases "ks = []")
      case True
      show ?thesis
        by (rule comes_to_step [of _ _ _ "(cl, pc)" Stop])
           (use Ok True in \<open>simp_all add: handlePeerBitfieldMessage_def read_pieces_def act_bind_def ret_def\<close>)
    next
      case False
      have "then_stop (handlePeerBitfieldMessage p) (cl, pc) = (if ?was then then_stop ?go (cl, ?pc) else ((cl, ?pc), Ok Stop))"
        using Ok False by (cases "pc_queue pc = []") (simp_all add: handlePeerBitfieldMessage_def act_bind_def ret_def Let_def)
      moreover have "point_step flt (Bits_Parse p ?was) (cl, pc) = ((cl, pc), Ok (Bits_Merge ks ?was))"
        using Ok False by (simp add: read_pieces_def act_bind_def ret_def)
      ultimately show ?thesis using comes_to_step [OF _ merged] by simp
    qed
  qed (auto simp: handlePeerBitfieldMessage_def read_pieces_def act_bind_def ret_def Let_def intro!: comes_to_ends)
  then show ?thesis
    by (rule comes_to_step [rotated]) (simp add: read_queue_def act_bind_def ret_def)
qed

lemma handshake_comes_to: "comes_to flt (Dispatch (HandshakePeerMsg p)) s (then_stop handlePeerHandshakeMessage s)"
  unfolding handlePeerHandshakeMessage_def act_bind_assoc
proof (rule comes_to_bind [where q = "\<lambda>_. Hello_Count"], simp)
  fix s' :: "Client \<times> PeerConn"
  obtain cl pc where s': "s' = (cl, pc)" by (cases s')
  show "comes_to flt Hello_Count s' (then_stop (\<lambda>(cl, pc).
       if length (DownloadedPieceIndices (cl_pieces cl)) = 0 then ((cl, pc), Ok ())
       else (case BuildPeerBitfieldMsg (Some (cl_pieces cl)) of
           Err e \<Rightarrow> ((cl, pc), Ok ())
         | Ok msg \<Rightarrow> write_msg msg (cl, pc)
         | Panic p \<Rightarrow> ((cl, pc), Panic p)
         | Hang \<Rightarrow> ((cl, pc), Hang))) s')"
  proof (cases "DownloadedPieceIndices (cl_pieces cl) = []")
    case True
    show ?thesis
      by (rule comes_to_step [of _ _ _ "(cl, pc)" Stop]) (simp_all add: s' True read_pieces_def act_bind_def ret_def)
  next
    case False
    have step: "point_step flt Hello_Count (cl, pc) = ((cl, pc), Ok Hello_Build)"
      using False by (simp add: read_pieces_def act_bind_def ret_def)
    show ?thesis
    proof (cases "BuildPeerBitfieldMsg (Some (cl_pieces cl))")
      case (Ok msg)
      have "comes_to flt Hello_Build (cl, pc) (then_stop (write_msg msg) (cl, pc))"
        by (rule comes_to_step [of _ _ _ "(cl, pc)" "Writing msg"], simp add: Ok read_pieces_def act_bind_def ret_def, rule comes_to_done) simp
      from comes_to_step [OF step this] show ?thesis using False Ok by (simp add: s' act_bind_def)
    next
      case (Err e)
      have "comes_to flt Hello_Build (cl, pc) ((cl, pc), Ok Stop)"
        by (rule comes_to_step [of _ _ _ "(cl, pc)" Stop]) (simp_all add: Err read_pieces_def act_bind_def ret_def)
      from comes_to_step [OF step this] show ?thesis using False Err by (simp add: s' act_bind_def ret_def)
    qed (use False in \<open>auto simp: s' act_bind_def read_pieces_def intro!: comes_to_step [OF step] comes_to_ends\<close>)
  qed
qed

text \<open>A handler that reads the state first.\<close>

lemma act_bind_pair:
  "act_bind (\<lambda>(cl, pc). act_bind (M cl pc) (f cl pc) (cl, pc)) g (cl, pc) = act_bind (M cl pc) (\<lambda>a. act_bind (f cl pc a) g) (cl, pc)"
  by (simp add: act_bind_def split: prod.split res.split)

lemma request_comes_to:
  "comes_to flt (Dispatch (RequestPeerMsg p)) s (then_stop (handlePeerRequestMessage flt p) s)"
  unfolding handlePeerRequestMessage_def act_bind_assoc
proof (rule comes_to_bind [where q = Reading_Block], simp)
  fix s' :: "Client \<times> PeerConn" and b :: Block
  obtain cl pc where s': "s' = (cl, pc)" by (cases s')
  let ?get = "on_files (GetBlock flt (blk_PieceIdx b) (blk_Begin b) (blk_Length b) (fi_IsSeeding (cl_FileInfo cl)))"
  let ?out = "act_bind ?get (\<lambda>fullBlock. act_bind (case fullBlock of
       None \<Rightarrow> ret (Panic NilDereference) | Some fullBlock \<Rightarrow> write_msg (BuildPeerPieceMsg fullBlock)) (\<lambda>_. ret (Ok Stop))) (cl, pc)"
  obtain s1 r where get: "?get (cl, pc) = (s1, r)" by (cases "?get (cl, pc)")
  have "comes_to flt (Reading_Block b) (cl, pc) ?out"
  proof (cases r)
    case (Ok full)
    show ?thesis
    proof (cases full)
      case (Some fb)
      show ?thesis
        by (rule comes_to_step [of _ _ _ s1 "Writing (BuildPeerPieceMsg fb)"], simp add: act_bind_Ok [where m = ?get] get Ok Some ret_def)
           (simp add: act_bind_Ok [where m = ?get] get Ok Some comes_to_done)
    qed (use get Ok in \<open>auto simp: act_bind_def ret_def intro!: comes_to_ends\<close>)
  qed (use get in \<open>auto simp: act_bind_def intro!: comes_to_ends\<close>)
  then show "comes_to flt (Reading_Block b) s' (then_stop (\<lambda>(cl, pc).
       act_bind (on_files (GetBlock flt (blk_PieceIdx b) (blk_Begin b) (blk_Length b) (fi_IsSeeding (cl_FileInfo cl))))
         (\<lambda>fullBlock. case fullBlock of
             None \<Rightarrow> ret (Panic NilDereference)
           | Some fullBlock \<Rightarrow> write_msg (BuildPeerPieceMsg fullBlock)) (cl, pc)) s')"
    unfolding s' act_bind_pair .
qed

lemma advance_comes_to:
  "comes_to flt Undone_Count s (then_stop (\<lambda>(cl, pc).
     let piecesLeft = TotalUndonePiecesLeft (cl_pieces cl) in
     if piecesLeft \<noteq> 0 then ignore_result RequestNextPiece (cl, pc)
     else on_files (DefaultFinalizeFunc flt) (mark_downloading False (cl, pc))) s)"
proof -
  obtain cl pc where s: "s = (cl, pc)" by (cases s)
  show ?thesis
  proof (cases "TotalUndonePiecesLeft (cl_pieces cl) = 0")
    case True
    let ?s = "mark_downloading False (cl, pc)"
    have "comes_to flt Undone_Count (cl, pc) (then_stop (on_files (DefaultFinalizeFunc flt)) ?s)"
      by (rule comes_to_step [of _ _ _ "(cl, pc)" Finish_Mark], simp add: True read_pieces_def act_bind_def ret_def,
          rule comes_to_step [of _ _ _ ?s Finalizing], simp add: set_downloading_def act_bind_def ret_def, rule comes_to_done) simp
    then show ?thesis using True by (simp add: s act_bind_def)
  next
    case False
    have "comes_to flt Undone_Count (cl, pc) (act_bind RequestNextPiece (\<lambda>_. ret (Ok Stop)) (cl, pc))"
      by (rule comes_to_step [of _ _ _ "(cl, pc)" Looper]) (use False Looper_comes_to in \<open>simp_all add: read_pieces_def act_bind_Ok ret_def [symmetric] act_bind_ret_left\<close>)
    moreover have "then_stop (ignore_result RequestNextPiece) (cl, pc) = act_bind RequestNextPiece (\<lambda>_. ret (Ok Stop)) (cl, pc)"
      by (simp only: ignore_then)
    ultimately show ?thesis using False by (simp add: s act_bind_def)
  qed
qed

lemma stage_points: "stage_point (Counting b) = Of_Piece (Counting b)" "stage_point (Saving b) = Of_Piece (Saving b)"
  "stage_point (Checking b) = Of_Piece (Checking b)" "stage_point (Resetting b) = Of_Piece (Resetting b)"
  "stage_point (Marking b) = Of_Piece (Marking b)" "stage_point Advancing = Undone_Count" "stage_point Finished = Stop"
  by (simp_all add: stage_point_def)

lemma finish_comes_to:
  "comes_to flt (Of_Piece (Resetting b)) (cl, pc) (then_stop (finish_piece flt (pc_blockRequester pc) (blk_PieceIdx b)) (cl, pc))"
  unfolding finish_piece_def act_bind_assoc
proof (rule comes_to_bind [where q = "\<lambda>_. Of_Piece (Marking b)"])
  show "point_step flt (Of_Piece (Resetting b)) (cl, pc) =
      act_bind (on_conn (reset (pc_blockRequester pc))) (\<lambda>_. ret (Ok (Of_Piece (Marking b)))) (cl, pc)"
    using stage_at(3) [of flt b "\<lambda>g. ret (Ok (stage_point g))"] by (simp add: stage_points del: stage_step.simps)
  fix s' :: "Client \<times> PeerConn"
  show "comes_to flt (Of_Piece (Marking b)) s' (act_bind (\<lambda>(cl, pc). case MarkAsDone (cl_pieces cl) (blk_PieceIdx b) of
         Ok sp \<Rightarrow> ((set_pieces sp cl, pc), Ok ())
       | Err e \<Rightarrow> ((cl, pc), Err e)
       | Panic p \<Rightarrow> ((cl, pc), Panic p)
       | Hang \<Rightarrow> ((cl, pc), Hang)) (\<lambda>_. then_stop (\<lambda>(cl, pc).
       let piecesLeft = TotalUndonePiecesLeft (cl_pieces cl) in
       if piecesLeft \<noteq> 0 then ignore_result RequestNextPiece (cl, pc)
       else on_files (DefaultFinalizeFunc flt) (mark_downloading False (cl, pc)))) s')"
  proof (rule comes_to_bind [where q = "\<lambda>_. Undone_Count"])
    show "point_step flt (Of_Piece (Marking b)) s' = act_bind (\<lambda>(cl, pc). case MarkAsDone (cl_pieces cl) (blk_PieceIdx b) of
         Ok sp \<Rightarrow> ((set_pieces sp cl, pc), Ok ())
       | Err e \<Rightarrow> ((cl, pc), Err e)
       | Panic p \<Rightarrow> ((cl, pc), Panic p)
       | Hang \<Rightarrow> ((cl, pc), Hang)) (\<lambda>_. ret (Ok Undone_Count)) s'"
      by (simp add: act_bind_def ret_def stage_points split: prod.split res.split)
  qed (rule advance_comes_to)
qed

lemma check_comes_to:
  "comes_to flt (Of_Piece (Checking b)) (cl, pc) (act_bind (on_conn (BlocksLeft (pc_blockRequester pc))) (\<lambda>blocksLeft.
     then_stop (if blocksLeft = 0 then finish_piece flt (pc_blockRequester pc) (blk_PieceIdx b) else ret (Ok ()))) (cl, pc))"
proof (rule comes_to_bind [where q = "\<lambda>n. stage_point (if n = 0 then Resetting b else Finished)"])
  show "point_step flt (Of_Piece (Checking b)) (cl, pc) = act_bind (on_conn (BlocksLeft (pc_blockRequester pc)))
      (\<lambda>n. ret (Ok (stage_point (if n = 0 then Resetting b else Finished)))) (cl, pc)"
    using stage_at(2) [of flt b "\<lambda>g. ret (Ok (stage_point g))"] by (simp del: stage_step.simps)
  fix s' n assume "on_conn (BlocksLeft (pc_blockRequester pc)) (cl, pc) = (s', Ok n)"
  then have s': "s' = (cl, pc)" by (rule BlocksLeft_same)
  show "comes_to flt (stage_point (if n = 0 then Resetting b else Finished)) s'
      (then_stop (if n = 0 then finish_piece flt (pc_blockRequester pc) (blk_PieceIdx b) else ret (Ok ())) s')"
    using finish_comes_to [of flt b cl pc] by (simp add: s' stage_points act_bind_ret_left) (simp add: ret_def)
qed

lemma save_comes_to:
  "comes_to flt (Of_Piece (Saving b)) s (act_bind (on_files (\<lambda>(fi, fs). case SaveBlock flt fi b fs of (fs', r) \<Rightarrow> ((fi, fs'), r)))
     (\<lambda>_. then_stop (\<lambda>(cl, pc). act_bind (on_conn (BlocksLeft (pc_blockRequester pc))) (\<lambda>blocksLeft.
       if blocksLeft = 0 then finish_piece flt (pc_blockRequester pc) (blk_PieceIdx b)
       else ret (Ok ())) (cl, pc))) s)"
proof (rule comes_to_bind [where q = "\<lambda>_. Of_Piece (Checking b)"])
  show "point_step flt (Of_Piece (Saving b)) s = act_bind (on_files (\<lambda>(fi, fs). case SaveBlock flt fi b fs of (fs', r) \<Rightarrow> ((fi, fs'), r)))
      (\<lambda>_. ret (Ok (Of_Piece (Checking b)))) s"
    using stage_from(2) [of flt b "\<lambda>g. ret (Ok (stage_point g))"] by (simp add: stage_points del: stage_step.simps)
  fix s' :: "Client \<times> PeerConn"
  obtain cl pc where s': "s' = (cl, pc)" by (cases s')
  show "comes_to flt (Of_Piece (Checking b)) s' (then_stop (\<lambda>(cl, pc). act_bind (on_conn (BlocksLeft (pc_blockRequester pc))) (\<lambda>blocksLeft.
       if blocksLeft = 0 then finish_piece flt (pc_blockRequester pc) (blk_PieceIdx b)
       else ret (Ok ())) (cl, pc)) s')"
    unfolding s' act_bind_pair by (rule check_comes_to)
qed

lemma piece_comes_to: "comes_to flt (Dispatch (PiecePeerMsg p)) s (then_stop (handlePeerPieceMessage flt p) s)"
  unfolding handlePeerPieceMessage_def act_bind_assoc
proof (rule comes_to_bind [where q = "\<lambda>b. Of_Piece (Counting b)"], simp)
  fix s' :: "Client \<times> PeerConn" and b :: Block
  obtain cl pc where s': "s' = (cl, pc)" by (cases s')
  show "comes_to flt (Of_Piece (Counting b)) s' (then_stop (\<lambda>(cl, pc).
     act_bind (on_conn (onBlockReceive (pc_blockRequester pc) b)) (\<lambda>_ (cl, pc).
     act_bind (on_files (\<lambda>(fi, fs). case SaveBlock flt fi b fs of (fs', r) \<Rightarrow> ((fi, fs'), r))) (\<lambda>_ (cl, pc).
     act_bind (on_conn (BlocksLeft (pc_blockRequester pc))) (\<lambda>blocksLeft.
       if blocksLeft = 0 then finish_piece flt (pc_blockRequester pc) (blk_PieceIdx b)
       else ret (Ok ())) (cl, pc)) (cl, pc)) (cl, pc)) s')"
    unfolding s' act_bind_pair
  proof (rule comes_to_bind [where q = "\<lambda>_. Of_Piece (Saving b)"])
    show "point_step flt (Of_Piece (Counting b)) (cl, pc) =
        act_bind (on_conn (onBlockReceive (pc_blockRequester pc) b)) (\<lambda>_. ret (Ok (Of_Piece (Saving b)))) (cl, pc)"
      using stage_at(1) [of flt b "\<lambda>g. ret (Ok (stage_point g))"] by (simp add: stage_points del: stage_step.simps)
    fix s1 :: "Client \<times> PeerConn"
    obtain cl1 pc1 where s1: "s1 = (cl1, pc1)" by (cases s1)
    show "comes_to flt (Of_Piece (Saving b)) s1 (then_stop (\<lambda>(cl, pc).
       act_bind (on_files (\<lambda>(fi, fs). case SaveBlock flt fi b fs of (fs', r) \<Rightarrow> ((fi, fs'), r))) (\<lambda>_ (cl, pc).
       act_bind (on_conn (BlocksLeft (pc_blockRequester pc))) (\<lambda>blocksLeft.
         if blocksLeft = 0 then finish_piece flt (pc_blockRequester pc) (blk_PieceIdx b)
         else ret (Ok ())) (cl, pc)) (cl, pc)) s1)"
      unfolding s1 act_bind_pair by (rule save_comes_to)
  qed
qed

text \<open>
  (C16) A handler is its steps: for every message, in every state and with any file-system calls failing, a goroutine that no other one
  interrupts comes, after finitely many steps between its points, to the outcome of the message's handler, errors, panics and blocking
  included, and leaves the client and the connection as the handler does (unless the program has ended with a panic).
\<close>

theorem handlers_are_their_steps:
  "\<exists>k. \<forall>j. agrees (points flt (k + j) (Dispatch peerMsg) s) (act_bind (handle flt peerMsg) (\<lambda>_. ret (Ok Stop)) s)"
proof -
  obtain cl pc where s: "s = (cl, pc)" by (cases s)
  have "comes_to flt (Dispatch peerMsg) s (then_stop (handle flt peerMsg) s)"
    using handshake_comes_to [of flt _ s] have_comes_to [of flt _ cl pc] bitfield_comes_to [of flt _ cl pc]
      request_comes_to [of flt _ s] piece_comes_to [of flt _ s]
    by (cases peerMsg) (simp_all add: handle_def s comes_to_done)
  then show ?thesis unfolding comes_to_def using le_add1 by blast
qed

end
