(* ===== verification/Fine_Runs.thy ===== *)
theory Fine_Runs
  imports Races Ledger
begin

text \<open>
  Runs in which the goroutines that handle PIECE messages interleave: any number of them, on any connections, each at one of its stages, among
  everything else a client does. Two pieces may be requested at once (\<open>Races\<close>), but the store is never corrupted: what
  \<open>handler_steps\<close> promises of the handlers holds of each stage.
\<close>

section \<open>Runs\<close>

text \<open>
  What becomes of a goroutine after a stage. An error goes to \<open>errChan\<close>, as in \<open>DefaultPeerMsgFunc\<close>, and is the end; after a panic or when it
  blocks there is no further stage.
\<close>

definition after_stage :: "faults \<Rightarrow> stage \<Rightarrow> Client \<times> PeerConn \<Rightarrow> (Client \<times> PeerConn) \<times> stage" where
  "after_stage flt g s = (case stage_step flt g s of
       (s', Ok g') \<Rightarrow> (s', g')
     | (s', Err e) \<Rightarrow> (fst (on_conn (\<lambda>pc. (send_err e pc, Ok ())) s'), Finished)
     | (s', r) \<Rightarrow> (s', Finished))"

text \<open>A client, its connections, and the goroutines that handle PIECE messages, each with the number of its connection.\<close>

type_synonym fine_state = "Client \<times> PeerConn list \<times> (nat \<times> stage) list"

inductive fine_step :: "fine_state \<Rightarrow> fine_state \<Rightarrow> bool" where
  fine_client: "client_step (cl, pcs) (cl', pcs') \<Longrightarrow> fine_step (cl, pcs, gs) (cl', pcs', gs)"
| fine_receive: "fine_step (cl, pcs, gs) (cl, pcs, gs @ [(k, Received payload)])"
| fine_stage: "n < length gs \<Longrightarrow> gs ! n = (k, g) \<Longrightarrow> k < length pcs \<Longrightarrow> after_stage flt g (cl, pcs ! k) = ((cl', pc'), g') \<Longrightarrow>
     fine_step (cl, pcs, gs) (cl', pcs[k := pc'], gs[n := (k, g')])"

abbreviation fine_run :: "fine_state \<Rightarrow> fine_state \<Rightarrow> bool" where
  "fine_run \<equiv> fine_step\<^sup>*\<^sup>*"

section \<open>Each stage respects what the handlers respect\<close>

context handler_steps begin

lemma advances_stage_step: "advances R (stage_step flt g)"
proof (cases g)
  case (Counting b)
  have "advances R (act_bind (on_conn (onBlockReceive ptr b)) (\<lambda>_. ret (Ok (Saving b))))" for ptr
    by (intro advances_bind advances_parts advances_ret)
  then show ?thesis unfolding Counting stage_step.simps by (intro advances_pair) (simp add: advances_at)
next
  case (Checking b)
  have "advances R (act_bind (on_conn (BlocksLeft ptr)) (\<lambda>blocksLeft. ret (Ok (if blocksLeft = 0 then Resetting b else Finished))))" for ptr
    by (intro advances_bind advances_parts advances_ret)
  then show ?thesis unfolding Checking stage_step.simps by (intro advances_pair) (simp add: advances_at)
next
  case (Resetting b)
  have "advances R (act_bind (on_conn (reset ptr)) (\<lambda>_. ret (Ok (Marking b))))" for ptr
    by (intro advances_bind advances_parts advances_ret)
  then show ?thesis unfolding Resetting stage_step.simps by (intro advances_pair) (simp add: advances_at)
next
  case (Marking b)
  then show ?thesis by (auto simp: advances_def R_refl done_step split: res.splits)
next
  case Advancing
  have "advances R (\<lambda>(cl, pc). if TotalUndonePiecesLeft (cl_pieces cl) \<noteq> 0 then ignore_result RequestNextPiece (cl, pc)
      else on_files (DefaultFinalizeFunc flt) (mark_downloading False (cl, pc)))"
    using advances_at [OF advances_parts(2)] R_trans [OF mark_step advances_at [OF advances_parts(7)]]
    by (auto simp: advances_def)
  then show ?thesis unfolding Advancing stage_step.simps by (intro advances_bind advances_ret)
qed (auto intro!: advances_bind advances_parts)

lemma after_stage_at: "after_stage flt g s = (s', g') \<Longrightarrow> R s s'"
proof -
  assume after: "after_stage flt g s = (s', g')"
  obtain t r where step: "stage_step flt g s = (t, r)" by (cases "stage_step flt g s")
  then have "R s t" using advances_at [OF advances_stage_step, of s flt g] by simp
  moreover have "R t (fst (on_conn (\<lambda>pc. (send_err e pc, Ok ())) t))" for e
    by (rule advances_at [OF advances_on_conn])
       (simp add: advances_def conn_quiet_def conn_le_def requested_def send_err_def)
  ultimately have "R s t" "R s (fst (on_conn (\<lambda>pc. (send_err e pc, Ok ())) t))" for e using R_trans by blast+
  then show "R s s'" using after step by (cases r) (auto simp: after_stage_def)
qed

end

section \<open>What no interleaving undoes\<close>

lemma stage_evolves: "after_stage flt g (cl, pc) = ((cl', pc'), g') \<Longrightarrow> evolves (cl, pc) (cl', pc')"
  by (rule evh.after_stage_at)

lemma fine_step_ok:
  assumes "fine_step (cl, pcs, gs) (cl', pcs', gs')" "client_ok (cl, pcs)"
  shows "client_ok (cl', pcs')"
  using assms(1)
proof cases
  case fine_client
  then show ?thesis using client_ok_step assms(2) by blast
next
  case (fine_stage n k g flt pc' g')
  then show ?thesis using client_ok_grows [OF evolves_grows [OF stage_evolves]] assms(2) by simp
qed (use assms(2) in simp)

lemma fine_run_ok: "fine_run s t \<Longrightarrow> client_ok (fst s, fst (snd s)) \<Longrightarrow> client_ok (fst t, fst (snd t))"
  by (induction rule: rtranclp_induct) (auto intro: fine_step_ok)

lemma fine_step_pieces_le: "fine_step (cl, pcs, gs) (cl', pcs', gs') \<Longrightarrow> pieces_le (cl_pieces cl) (cl_pieces cl')"
  by (erule fine_step.cases) (auto simp: pieces_le_refl evolves_def dest: step_pieces_le stage_evolves)

lemma fine_run_pieces_le: "fine_run s t \<Longrightarrow> pieces_le (cl_pieces (fst s)) (cl_pieces (fst t))"
proof (induction rule: rtranclp_induct)
  case (step t u)
  have "pieces_le (cl_pieces (fst t)) (cl_pieces (fst u))"
    using fine_step_pieces_le [of "fst t" "fst (snd t)" "snd (snd t)" "fst u" "fst (snd u)" "snd (snd u)"] step.hyps(2) by simp
  with step.IH show ?case by (rule pieces_le_trans)
qed (simp add: pieces_le_refl)

lemma fine_step_books:
  assumes "fine_step (cl, pcs, gs) (cl', pcs', gs')"
  shows "books (pc_toPeerId ` set pcs') (ledger (cl_pieces cl)) (ledger (cl_pieces cl')) \<and>
    pc_toPeerId ` set pcs \<subseteq> pc_toPeerId ` set pcs'"
  using assms
proof cases
  case fine_client
  then show ?thesis using client_step_books by blast
next
  case (fine_stage n k g flt pc' g')
  then show ?thesis using booked_client [OF bk.after_stage_at [OF fine_stage(6)]] by simp
qed simp

lemma fine_run_books:
  "fine_run s t \<Longrightarrow> books (pc_toPeerId ` set (fst (snd t))) (ledger (cl_pieces (fst s))) (ledger (cl_pieces (fst t))) \<and>
    pc_toPeerId ` set (fst (snd s)) \<subseteq> pc_toPeerId ` set (fst (snd t))"
proof (induction rule: rtranclp_induct)
  case (step t u)
  have "fine_step (fst t, fst (snd t), snd (snd t)) (fst u, fst (snd u), snd (snd u))" using step.hyps(2) by simp
  note one = fine_step_books [OF this]
  have "books (pc_toPeerId ` set (fst (snd u))) (ledger (cl_pieces (fst s))) (ledger (cl_pieces (fst t)))"
    by (rule books_mono [OF conjunct1 [OF step.IH] conjunct2 [OF one]])
  from books_trans [OF this conjunct1 [OF one]] show ?case using step.IH one by simp blast
qed simp

text \<open>The runs of \<open>Client_Runs\<close> are among these, and so are the interleavings of \<open>Races\<close>.\<close>

lemma client_run_fine: "client_run s t \<Longrightarrow> fine_run (fst s, snd s, gs) (fst t, snd t, gs)"
proof (induction rule: rtranclp_induct)
  case (step t u)
  then have "fine_step (fst t, snd t, gs) (fst u, snd u, gs)" by (intro fine_client) simp
  with step.IH show ?case by (rule rtranclp.rtrancl_into_rtrancl)
qed simp

lemma interleave_fine:
  "interleave flt ks hs (cl, pc) = ((cl', pc'), Ok hs') \<Longrightarrow> fine_run (cl, [pc], map (Pair 0) hs) (cl', [pc'], map (Pair 0) hs')"
proof (induction ks arbitrary: cl pc hs)
  case (Cons k ks)
  then have k: "k < length hs" by (auto simp: ret_def split: if_splits)
  with Cons.prems obtain cl1 pc1 g where stage: "stage_step flt (hs ! k) (cl, pc) = ((cl1, pc1), Ok g)"
      "interleave flt ks (hs[k := g]) (cl1, pc1) = ((cl', pc'), Ok hs')"
    by (auto simp: act_bind_eq_Ok)
  have "fine_step (cl, [pc], map (Pair 0) hs) (cl1, [pc][0 := pc1], (map (Pair 0) hs)[k := (0, g)])"
    by (rule fine_stage [where flt = flt and g = "hs ! k"]) (use k stage(1) in \<open>simp_all add: after_stage_def\<close>)
  then have "fine_step (cl, [pc], map (Pair 0) hs) (cl1, [pc1], map (Pair 0) (hs[k := g]))" by (simp add: map_update)
  then show ?case using Cons.IH [OF stage(2)] by (rule converse_rtranclp_into_rtranclp)
qed (simp add: ret_def)

section \<open>Properties\<close>

text \<open>
  The client refines the ledger whatever its goroutines do: messages arrive on any connections, the goroutines that handle
  PIECE messages stop and go on between any two of their stages, the others run at any time; what happened to the pieces is a sequence of the two
  operations of the specification, in which every reservation was made for the peer of one of the connections and no piece was reserved twice.
\<close>

theorem races_refine_ledger:
  assumes "fine_run (cl, pcs, gs) (cl', pcs', gs')"
  shows "\<exists>es. store_run reserve_entry finish_entry (ledger (cl_pieces cl)) es (ledger (cl_pieces cl')) \<and>
    (\<forall>i peer. Reserved i peer \<in> set es \<longrightarrow> peer \<in> pc_toPeerId ` set pcs') \<and>
    (\<forall>i. length (filter (\<lambda>e. \<exists>peer. e = Reserved i peer) es) \<le> 1)"
proof -
  obtain es where es: "store_run reserve_entry finish_entry (ledger (cl_pieces cl)) es (ledger (cl_pieces cl'))"
      "\<forall>i peer. Reserved i peer \<in> set es \<longrightarrow> peer \<in> pc_toPeerId ` set pcs'"
    using fine_run_books [OF assms] unfolding books_def by auto
  then show ?thesis using lg.run_reserved_once [OF es(1)] by blast
qed

text \<open>
  No piece is asked of two peers, whatever the goroutines do: in every run with interleaved PIECE handlers of a client that starts with the
  pieces of a torrent and no connections, if a REQUEST for a piece was sent on a connection, then the piece is recorded as reserved for
  that connection's peer; so on two connections to different peers the pieces asked for are different.
\<close>

theorem races_ask_no_two_peers:
  assumes "0 < bl" "0 < pl" "1 \<le> n" "n \<le> 2 ^ 32" "0 \<le> info_Length info"
    and "cut_pieces n pl bl (Some info) seeding = Ok (cl_pieces cl)" "fine_run (cl, [], gs) (cl', pcs, gs')"
    and "k < length pcs" "l < length pcs"
  shows "(\<forall>i \<in> requested (pcs ! k). \<exists>p. Get (cl_pieces cl') i = Some p \<and> piece_status p \<noteq> PIECESTATUS_IDLE \<and>
      piece_downloader p = pc_toPeerId (pcs ! k)) \<and>
    (pc_toPeerId (pcs ! k) \<noteq> pc_toPeerId (pcs ! l) \<longrightarrow> requested (pcs ! k) \<inter> requested (pcs ! l) = {})"
proof -
  have "client_ok (cl, [])" using blocks_wf_cut_pieces [OF assms(1-6)] by (simp add: client_ok_def)
  then have "client_ok (cl', pcs)" using fine_run_ok [OF assms(7)] by simp
  then show ?thesis by (rule client_ok_requested [OF _ assms(8,9)])
qed

text \<open>
  Nothing undoes progress, whatever the goroutines do: after any messages on any connections, with PIECE handlers
  interleaved at any of their stages, every piece is still there with its length and its blocks, its status is the same or further on (so a
  piece that is DONE stays DONE), a piece that was reserved keeps the peer it was reserved for, and the store stays well formed.
\<close>

theorem races_never_regress:
  assumes "fine_run (cl, pcs, gs) (cl', pcs', gs')" "sp_wf (cl_pieces cl)"
  shows "sp_wf (cl_pieces cl') \<and> Len (cl_pieces cl') = Len (cl_pieces cl) \<and>
    (\<forall>i. case Get (cl_pieces cl) i of
        None \<Rightarrow> Get (cl_pieces cl') i = None
      | Some p \<Rightarrow> \<exists>q. Get (cl_pieces cl') i = Some q \<and> piece_status p \<le> piece_status q \<and> piece_length q = piece_length p \<and>
          BlockCount q = BlockCount p \<and>
          (if piece_status p = PIECESTATUS_IDLE then True else piece_downloader q = piece_downloader p))"
  by (rule pieces_le_never_regress) (use fine_run_pieces_le [OF assms(1)] assms(2) in simp_all)

text \<open>Two connections, a block that arrives on the first one, and its goroutine that has counted it.\<close>

definition first_payload :: bytes where
  "first_payload = [0, 0, 0, 0, 0, 0, 0, 0, 1, 2]"

definition counted :: "(Client \<times> PeerConn) \<times> stage" where
  "counted = (case after_stage no_faults (Received first_payload) (fst after_have, after_request) of
     (s, g) \<Rightarrow> after_stage no_faults g s)"

lemma sample_fine_run:
  "fine_run (client0 six_pieces_idle, [], [])
     (fst (fst counted), [snd (fst counted), NewPeerConnection ''second''], [(0, snd counted)])"
proof -
  let ?b = "NewPeerConnection ''second''"
  obtain cl1 pc1 g1 where one: "after_stage no_faults (Received first_payload) (fst after_have, after_request) = ((cl1, pc1), g1)"
    by (cases "after_stage no_faults (Received first_payload) (fst after_have, after_request)") auto
  obtain cl2 pc2 g2 where two: "after_stage no_faults g1 (cl1, pc1) = ((cl2, pc2), g2)"
    by (cases "after_stage no_faults g1 (cl1, pc1)") auto
  have start: "fine_run (client0 six_pieces_idle, [], []) (fst after_have, [after_request, ?b], [])"
    using client_run_fine [OF sample_run, of "[]"] by simp
  have "fine_step (fst after_have, [after_request, ?b], []) (fst after_have, [after_request, ?b], [] @ [(0, Received first_payload)])"
    by (rule fine_receive)
  moreover have "fine_step (fst after_have, [after_request, ?b], [(0, Received first_payload)])
      (cl1, [after_request, ?b][0 := pc1], [(0, Received first_payload)][0 := (0, g1)])"
    by (rule fine_stage [where flt = no_faults and g = "Received first_payload"]) (simp_all add: one)
  moreover have "fine_step (cl1, [pc1, ?b], [(0, g1)]) (cl2, [pc1, ?b][0 := pc2], [(0, g1)][0 := (0, g2)])"
    by (rule fine_stage [where flt = no_faults and g = g1]) (simp_all add: two)
  ultimately have more: "fine_run (fst after_have, [after_request, ?b], []) (cl2, [pc2, ?b], [(0, g2)])"
    by (simp add: rtranclp.rtrancl_into_rtrancl [OF rtranclp.rtrancl_into_rtrancl [OF rtranclp.rtrancl_into_rtrancl [OF rtranclp.rtrancl_refl]]])
  have counted: "counted = ((cl2, pc2), g2)" by (simp add: counted_def one two)
  show ?thesis unfolding counted fst_conv snd_conv by (rule rtranclp_trans [OF start more])
qed

theorem races_refine_ledger_witness:
  "\<exists>es. store_run reserve_entry finish_entry (ledger six_pieces_idle) es (ledger (cl_pieces (fst (fst counted)))) \<and>
    (\<forall>i. length (filter (\<lambda>e. \<exists>peer. e = Reserved i peer) es) \<le> 1)"
  using races_refine_ledger [OF sample_fine_run] by auto

lemma counted_stage: "snd counted = Saving (NewBlock 0 0 0 2 [1, 2])"
  by code_simp

theorem races_ask_no_two_peers_witness:
  "snd counted = Saving (NewBlock 0 0 0 2 [1, 2]) \<and> 0 \<in> requested (snd (fst counted)) \<and>
   requested (snd (fst counted)) \<inter> requested (NewPeerConnection ''second'') = {} \<and>
   (\<exists>p. Get (cl_pieces (fst (fst counted))) 0 = Some p \<and> piece_downloader p = ''first'')"
proof -
  have id: "pc_toPeerId (snd (fst counted)) = ''first''" "pc_toPeerId (NewPeerConnection ''second'') = ''second''"
    by (code_simp, simp add: NewPeerConnection_def)
  have "pc_out (snd (fst counted)) = [RequestPeerMsg [0, 0, 0, 0, 0, 0, 0, 0, 0, 0, 0, 2]]" by code_simp
  moreover have "RequestPeerMsg_GetPieceIdx [0, 0, 0, 0, 0, 0, 0, 0, 0, 0, 0, 2] = Ok 0" by code_simp
  ultimately have "0 \<in> requested (snd (fst counted))" by (simp add: requested_def)
  then show ?thesis
    using races_ask_no_two_peers [OF _ _ _ _ _ _ sample_fine_run, of 2 4 2 six_info False 0 1] cut_six id counted_stage by auto
qed

theorem races_never_regress_witness:
  "Len (cl_pieces (fst (fst counted))) = 2 \<and>
   (\<exists>q. Get (cl_pieces (fst (fst counted))) 1 = Some q \<and> piece_length q = 2 \<and> BlockCount q = 1)"
proof -
  have "sp_wf (cl_pieces (client0 six_pieces_idle))" unfolding client0_pieces by code_simp
  moreover have "Len six_pieces_idle = 2" by code_simp
  moreover have "Get six_pieces_idle 1 = Some (torrent_piece 2 4 6 2 False 1)" by (simp add: Get_def six_pieces_idle_def)
  moreover have "piece_length (torrent_piece 2 4 6 2 False 1) = 2" "BlockCount (torrent_piece 2 4 6 2 False 1) = 1"
    by code_simp+
  ultimately show ?thesis
    using races_never_regress [OF sample_fine_run] by (auto split: option.splits dest!: spec [of _ 1])
qed

end
