(* ===== verification/Wellformed_Messages.thy ===== *)
theory Wellformed_Messages
  imports Client_Runs PeerMsg_Properties
begin

text \<open>
  The type of what a client sends: every message it writes, on any connection and after any messages of its peers, is one that
  \<open>Bytes\<close> encodes and that the peer parses back. The invariant is one more relation that every handler respects.
\<close>

section \<open>The handlers write well-formed messages only\<close>

definition writes_wf :: "PeerConn \<Rightarrow> PeerConn \<Rightarrow> bool" where
  "writes_wf pc pc' \<longleftrightarrow> set (pc_out pc') \<subseteq> set (pc_out pc) \<union> Collect wf_msg"

lemma writes_wf_refl [simp]: "writes_wf pc pc"
  by (simp add: writes_wf_def)

lemma writes_wf_trans: "writes_wf a b \<Longrightarrow> writes_wf b c \<Longrightarrow> writes_wf a c"
  by (auto simp: writes_wf_def)

lemma writes_wf_all: "writes_wf pc pc' \<Longrightarrow> set (pc_out pc) \<subseteq> Collect wf_msg \<Longrightarrow> set (pc_out pc') \<subseteq> Collect wf_msg"
  by (auto simp: writes_wf_def)

lemma writes_wf_next: "writes_wf pc (snd (fst (RequestNextPiece (cl, pc))))"
  by (cases rule: RequestNextPiece_cases [of pc cl]) (auto simp: writes_wf_def mark_downloading_def)

interpretation wm: handler_steps "\<lambda>s t. writes_wf (snd s) (snd t)"
proof unfold_locales
  show "writes_wf (snd s) (snd (mark_downloading d s))" for d s
    by (cases s) (simp add: mark_downloading_def writes_wf_def)
  show "writes_wf (snd s) (snd (fst (RequestNextPiece s)))" for s
    using writes_wf_next [of "snd s" "fst s"] by simp
qed (auto simp: conn_quiet_def writes_wf_def)

section \<open>The goroutines write well-formed messages only\<close>

interpretation wfc: growing writes_wf
  by unfold_locales (simp, rule writes_wf_trans)

lemma advances_request_wf: "advances writes_wf (request ptr b)"
  unfolding request_def
  by (rule advances_with_requester)
     (auto simp: advances_def writes_wf_def set_requester_def WritePeerMsg_def send_err_def Let_def split: res.splits)

lemma run_task_writes_wf:
  assumes "run_task n timeout pc = Some (pc', r)"
  shows "writes_wf pc pc'"
proof -
  let ?pc = "pc\<lparr>pc_tasks := take n (pc_tasks pc) @ drop (Suc n) (pc_tasks pc)\<rparr>"
  have req: "writes_wf pc (fst (request ptr b qc))" if "pc_out qc = pc_out pc" for ptr b qc
    using wfc.advances_at [OF advances_request_wf, of qc ptr b] that by (simp add: writes_wf_def)
  have "writes_wf pc (fst (after_wait q b received ?pc))" for q b received
    using req [of "?pc\<lparr>pc_misfires := pc_misfires ?pc + 1\<rparr>"]
    by (auto simp: after_wait_def Let_def MakeWeak_def writes_wf_def)
  then show ?thesis
    using assms req [of ?pc] by (auto simp: run_task_def Let_def split: if_splits task.splits) (metis fst_conv)+
qed

section \<open>Runs\<close>

definition all_wf :: "PeerConn list \<Rightarrow> bool" where
  "all_wf pcs \<longleftrightarrow> (\<forall>pc \<in> set pcs. set (pc_out pc) \<subseteq> Collect wf_msg)"

lemma all_wf_update: "all_wf pcs \<Longrightarrow> k < length pcs \<Longrightarrow> writes_wf (pcs ! k) pc' \<Longrightarrow> all_wf (pcs[k := pc'])"
  unfolding all_wf_def using writes_wf_all [of "pcs ! k" pc'] set_update_subset_insert [of pcs k pc'] nth_mem by blast

lemma client_step_wf:
  assumes "client_step s t" "all_wf (snd s)"
  shows "all_wf (snd t)"
  using assms(1)
proof cases
  case step_connect
  then show ?thesis using assms(2) by (simp add: all_wf_def NewPeerConnection_def)
next
  case (step_message k pcs flt m cl cl' pc' r)
  then have "writes_wf (pcs ! k) pc'"
    using wm.advances_at [OF wm.advances_DefaultPeerMsgFunc, of "(cl, pcs ! k)" flt m] by simp
  then show ?thesis using step_message assms(2) by (simp add: all_wf_update)
next
  case (step_task k pcs n timeout pc' r cl)
  then show ?thesis using run_task_writes_wf [OF step_task(4)] assms(2) by (simp add: all_wf_update)
qed

lemma client_run_wf: "client_run s t \<Longrightarrow> all_wf (snd s) \<Longrightarrow> all_wf (snd t)"
  by (induction rule: rtranclp_induct) (auto intro: client_step_wf)

section \<open>Properties\<close>

text \<open>
  What a client writes is well formed: in every run of a client that starts without connections, each message it has written on a connection
  encodes without an error and with the fields its type calls for (a HAVE of four bytes, a REQUEST of twelve, a PIECE that is not
  empty, nothing after INTERESTED or CHOKED); and when its encoding fits the 16640 bytes a reader accepts, the peer reads its length off its head
  and parses it back to the same message.
\<close>

theorem client_sends_wellformed:
  assumes "client_run (cl, []) (cl', pcs)" "k < length pcs" "m \<in> set (pc_out (pcs ! k))"
  shows "wf_msg m \<and> (\<exists>b. PeerMsg_Bytes m = Ok b \<and> b \<noteq> [] \<and>
    (length b \<le> 16640 \<longrightarrow> ParseRawPeerMsgLength (Some (b @ rest)) = Ok (int (length b)) \<and> NewPeerMsgFromBuffer (Some b) = Ok m))"
proof -
  have "all_wf pcs" using client_run_wf [OF assms(1)] by (simp add: all_wf_def)
  then have wf: "wf_msg m" using assms(2,3) by (auto simp: all_wf_def)
  from wire.enc_total [OF wf] obtain b where b: "PeerMsg_Bytes m = Ok b" "b \<noteq> []" by blast
  then show ?thesis using wf wire.frame_len_whole [OF wf b(1), of rest] wire.parse_enc [OF wf b(1)] by auto
qed

theorem client_sends_wellformed_witness:
  "wf_msg (RequestPeerMsg [0, 0, 0, 0, 0, 0, 0, 0, 0, 0, 0, 2]) \<and>
   (\<exists>b. PeerMsg_Bytes (RequestPeerMsg [0, 0, 0, 0, 0, 0, 0, 0, 0, 0, 0, 2]) = Ok b \<and> b \<noteq> [])"
proof -
  have "pc_out after_request = [RequestPeerMsg [0, 0, 0, 0, 0, 0, 0, 0, 0, 0, 0, 2]]" by code_simp
  then show ?thesis
    using client_sends_wellformed [OF sample_run, of 0 "RequestPeerMsg [0, 0, 0, 0, 0, 0, 0, 0, 0, 0, 0, 2]" "[]"] by auto
qed

end
