(* ===== verification/Point_Runs.thy ===== *)
theory Point_Runs
  imports Handler_Points Fine_Runs Wellformed_Messages
begin

text \<open>
  Runs in which the handlers of all messages interleave: any number of goroutines on any connections, each at one of its points, among the
  goroutines of the requesters and new connections. What this can break is in \<open>Lost_Updates\<close>; here is what it cannot. The contract
  \<open>point_steps\<close> is \<open>handler_steps\<close> for single steps, and gives it.
\<close>

section \<open>The contract of the steps\<close>

locale point_steps = growing R for R :: "Client \<times> PeerConn \<Rightarrow> Client \<times> PeerConn \<Rightarrow> bool" +
  assumes quiet_point: "conn_quiet pc pc' \<Longrightarrow> R (cl, pc) (cl, pc')"
    and files_point: "files_le (cl_FileInfo cl, cl_fs cl) (fi', fs') \<Longrightarrow> R (cl, pc) (cl\<lparr>cl_FileInfo := fi', cl_fs := fs'\<rparr>, pc)"
    and mark_point: "R s (mark_downloading d s)"
    and queue_point: "R (cl, pc) (cl, pc\<lparr>pc_queue := q\<rparr>)"
    and reserve_point: "TryToReserve (cl_pieces cl) i (pc_toPeerId pc) = Ok (sp, ok) \<Longrightarrow> R (cl, pc) (set_pieces sp cl, pc)"
    and done_point: "MarkAsDone (cl_pieces cl) i = Ok sp \<Longrightarrow> R (cl, pc) (set_pieces sp cl, pc)"
    and request_point: "(blocks_wf (cl_pieces cl) \<Longrightarrow> owned_block (pc_toPeerId pc) (cl_pieces cl) b) \<Longrightarrow>
      R (cl, pc) (cl, pc\<lparr>pc_tasks := pc_tasks pc @ [RequestTask ptr b]\<rparr>)"
begin

lemma reserve_first_at:
  "reserve_first TryToReserve (pc_toPeerId pc) q (cl_pieces cl) = Ok (sp, r, q') \<Longrightarrow> R (cl, pc) (set_pieces sp cl, pc)"
proof (induction q arbitrary: cl)
  case Nil
  then show ?case by (auto simp: R_refl)
next
  case (Cons i q)
  then obtain sp1 ok where step: "TryToReserve (cl_pieces cl) i (pc_toPeerId pc) = Ok (sp1, ok)"
    "(if ok then Ok (sp1, Some i, q) else reserve_first TryToReserve (pc_toPeerId pc) q sp1) = Ok (sp, r, q')"
    by (auto simp: res_bind_eq_Ok)
  note first = reserve_point [OF step(1)]
  show ?case
  proof (cases ok)
    case True
    then show ?thesis using step(2) first by simp
  next
    case False
    then have "R (set_pieces sp1 cl, pc) (set_pieces sp (set_pieces sp1 cl), pc)"
      using Cons.IH [of "set_pieces sp1 cl"] step(2) by (simp add: set_pieces_def)
    from R_trans [OF first this] show ?thesis by (simp add: set_pieces_def)
  qed
qed

lemma requests_at:
  assumes "blocks_wf (cl_pieces cl) \<Longrightarrow> \<forall>b \<in> set bs. owned_block (pc_toPeerId pc) (cl_pieces cl) b"
  shows "R (cl, pc) (cl, pc\<lparr>pc_tasks := pc_tasks pc @ map (RequestTask ptr) bs\<rparr>)"
  using assms
proof (induction bs arbitrary: pc)
  case Nil
  then show ?case by (simp add: R_refl)
next
  case (Cons b bs)
  let ?pc = "pc\<lparr>pc_tasks := pc_tasks pc @ [RequestTask ptr b]\<rparr>"
  have "R (cl, pc) (cl, ?pc)" using Cons.prems by (intro request_point) simp
  moreover have "R (cl, ?pc) (cl, ?pc\<lparr>pc_tasks := pc_tasks ?pc @ map (RequestTask ptr) bs\<rparr>)"
    using Cons.prems by (intro Cons.IH) simp
  ultimately show ?case using R_trans by fastforce
qed

lemma next_at: "R s (fst (RequestNextPiece s))"
proof -
  obtain cl pc where s: "s = (cl, pc)" by (cases s)
  have "R (cl, pc) (fst (RequestNextPiece (cl, pc)))"
  proof (cases rule: RequestNextPiece_cases [of pc cl])
    case empty
    then show ?thesis by (simp add: mark_point)
  next
    case (none sp queue)
    have "R (cl, pc) (set_pieces sp cl, pc\<lparr>pc_queue := queue\<rparr>)"
      by (rule R_trans [OF reserve_first_at [OF none(1)] queue_point])
    then show ?thesis using R_trans [OF _ mark_point] none(2) by simp
  next
    case (piece sp i queue p)
    let ?pc = "pc\<lparr>pc_queue := queue\<rparr>"
    have "R (cl, pc) (set_pieces sp cl, ?pc)"
      by (rule R_trans [OF reserve_first_at [OF piece(1)] queue_point])
    moreover have "R (set_pieces sp cl, ?pc)
        (set_pieces sp cl, ?pc\<lparr>pc_tasks := pc_tasks ?pc @ map (RequestTask (pc_blockRequester pc)) (piece_blocks p)\<rparr>)"
      using reserve_first_owned [OF piece(1)] piece(2)
      by (intro requests_at) (auto simp: owned_block_def blocks_wf_def set_pieces_def)
    ultimately show ?thesis using R_trans [OF R_trans mark_point] piece(3) by fastforce
  next
    case (fail r)
    then show ?thesis by (simp add: R_refl)
  qed
  then show ?thesis by (simp add: s)
qed

end

sublocale point_steps < hs: handler_steps R
  by unfold_locales (auto intro: quiet_point files_point mark_point queue_point done_point next_at)

section \<open>Steps respect the contract\<close>

text \<open>
  What a goroutine knows at a point: the piece it reserved is its own, and so are the blocks it is about to ask for; what it is about to write is
  well formed and no REQUEST.
\<close>

fun point_ok :: "SafePieces \<Rightarrow> string \<Rightarrow> point \<Rightarrow> bool" where
  "point_ok sp peer (Fetch i) \<longleftrightarrow> owned peer sp i"
| "point_ok sp peer (Request_Blocks bs) \<longleftrightarrow>
     (\<exists>i p. owned peer sp i \<and> Get sp i = Some p \<and> set (map shape bs) \<subseteq> set (map shape (piece_blocks p)))"
| "point_ok sp peer (Writing m) \<longleftrightarrow> wf_msg m \<and> (\<forall>p. m \<noteq> RequestPeerMsg p)"
| "point_ok sp peer g \<longleftrightarrow> True"

lemma point_ok_mono:
  assumes "pieces_le sp sp'" "point_ok sp peer g"
  shows "point_ok sp' peer g"
proof (cases "\<exists>bs. g = Request_Blocks bs")
  case True
  then obtain bs where g: "g = Request_Blocks bs" by blast
  with assms(2) obtain i p where ip: "owned peer sp i" "Get sp i = Some p" "set (map shape bs) \<subseteq> set (map shape (piece_blocks p))"
    by auto
  have "rel_option piece_le (Get sp i) (Get sp' i)" using assms(1) by (simp add: pieces_le_def)
  then obtain q where q: "Get sp' i = Some q" "piece_le p q" using ip(2) by (auto simp: option_rel_Some1)
  then have "map shape (piece_blocks q) = map shape (piece_blocks p)" by (simp only: piece_le_def)
  then show ?thesis using owned_mono [OF assms(1) ip(1)] q(1) ip(3) unfolding g point_ok.simps by metis
qed (use assms in \<open>cases g; auto intro: owned_mono\<close>)

lemma point_ok_block:
  assumes "point_ok sp peer (Request_Blocks (b # bs))" "blocks_wf sp"
  shows "owned_block peer sp b"
proof -
  obtain i p where ip: "owned peer sp i" "Get sp i = Some p" "shape b \<in> set (map shape (piece_blocks p))"
    using assms(1) by auto
  then obtain c where "c \<in> set (piece_blocks p)" "shape b = shape c" by auto
  then have "c \<in> set (piece_blocks p)" "blk_PieceIdx b = blk_PieceIdx c" using shape_PieceIdx by metis+
  then show ?thesis using assms(2) ip(1,2) by (auto simp: owned_block_def blocks_wf_def)
qed

text \<open>
  What becomes of a goroutine after a step: as in \<open>Fine_Runs\<close>, an error goes to \<open>errChan\<close> and is the end, and there is nothing after a panic or
  when it blocks.
\<close>

definition after_point :: "faults \<Rightarrow> point \<Rightarrow> Client \<times> PeerConn \<Rightarrow> (Client \<times> PeerConn) \<times> point" where
  "after_point flt g s = (case point_step flt g s of
       (s', Ok g') \<Rightarrow> (s', g')
     | (s', Err e) \<Rightarrow> (fst (on_conn (\<lambda>pc. (send_err e pc, Ok ())) s'), Stop)
     | (s', r) \<Rightarrow> (s', Stop))"

context point_steps begin

lemma advances_read [intro]: "advances R read_queue" "advances R (read_pieces f)"
  by (auto simp: advances_def read_queue_def read_pieces_def R_refl)

lemma advances_write_queue [intro]: "advances R (write_queue q)"
  by (auto simp: advances_def write_queue_def on_conn_def queue_point)

lemma advances_set_downloading [intro]: "advances R (set_downloading d)"
  by (simp add: advances_def set_downloading_def mark_point)

lemma advances_reserve_piece [intro]: "advances R (reserve_piece i)"
  by (auto simp: advances_def reserve_piece_def R_refl reserve_point split: res.splits prod.splits)

lemma advances_install_requester [intro]: "advances R (on_conn (install_requester n))"
  by (rule hs.advances_on_conn [OF advances_install])

lemmas advances_messages [intro] = hs.advances_parts hs.advances_stage_step hs.advances_close

lemma advances_go_request: "point_ok (cl_pieces cl) (pc_toPeerId pc) (Request_Blocks (b # bs)) \<Longrightarrow> R (cl, pc) (fst (go_request b (cl, pc)))"
  by (simp add: go_request_def on_conn_def, rule request_point, rule point_ok_block) simp

lemma reading_at: "R s (fst (point_step flt (Reading_Block b) s))"
proof -
  have "advances R (act_bind (on_files (GetBlock flt (blk_PieceIdx b) (blk_Begin b) (blk_Length b) seeding))
      (\<lambda>fullBlock. ret (case fullBlock of None \<Rightarrow> Panic NilDereference | Some fullBlock \<Rightarrow> Ok (Writing (BuildPeerPieceMsg fullBlock)))))" for seeding
    by (intro advances_bind advances_messages advances_ret)
  then show ?thesis by (cases s) (simp add: advances_at)
qed

text \<open>Every step of a goroutine that knows what it should.\<close>

lemma point_step_at:
  assumes "point_ok (cl_pieces cl) (pc_toPeerId pc) g"
  shows "R (cl, pc) (fst (point_step flt g (cl, pc)))"
proof -
  have known: "R (cl, pc) (fst (act_bind m f (cl, pc)))" if "advances R m" "\<And>a. advances R (f a)" for m :: "'a handler" and f :: "'a \<Rightarrow> point handler"
    by (rule bind_at [OF that])
  show ?thesis
  proof (cases g)
    case (Dispatch m)
    have "advances R (point_step flt (Dispatch m))"
      by (cases m)
         (auto simp: handlePeerKeepAliveMessage_def handlePeerInterestedMessage_def handlePeerUnchokedMessage_def handlePeerChokedMessage_def
           handlePeerNotInterestedMessage_def BuildPeerInterestedMsg_def BuildPeerUnchokedMsg_def intro!: advances_bind hs.advances_write_msg)
    then show ?thesis by (simp only: Dispatch advances_at)
  next
    case (Reading_Block b)
    then show ?thesis using reading_at by metis
  next
    case (Writing m)
    then have "advances R (point_step flt g)" using assms by (auto intro!: advances_bind hs.advances_write_msg)
    then show ?thesis by (rule advances_at)
  next
    case (Request_Blocks bs)
    show ?thesis
    proof (cases bs)
      case Nil
      then show ?thesis by (simp add: Request_Blocks ret_def R_refl)
    next
      case (Cons b bs')
      then have "R (cl, pc) (fst (go_request b (cl, pc)))" using assms advances_go_request unfolding Request_Blocks by blast
      then show ?thesis by (simp add: Request_Blocks Cons go_request_def on_conn_def act_bind_def ret_def)
    qed
  next
    case Stop
    then show ?thesis by (simp add: ret_def R_refl)
  qed (simp only: point_step.simps; (intro known advances_bind advances_ret)?; blast intro: advances_ret advances_bind)+
qed

lemma after_point_at:
  assumes "after_point flt g (cl, pc) = (s', g')" "point_ok (cl_pieces cl) (pc_toPeerId pc) g"
  shows "R (cl, pc) s'"
proof -
  obtain t r where step: "point_step flt g (cl, pc) = (t, r)" by (cases "point_step flt g (cl, pc)")
  then have "R (cl, pc) t" using point_step_at [OF assms(2), of flt] by simp
  moreover have "R t (fst (on_conn (\<lambda>pc. (send_err e pc, Ok ())) t))" for e
    by (rule advances_at [OF hs.advances_on_conn])
       (simp add: advances_def conn_quiet_def conn_le_def requested_def send_err_def)
  ultimately have "R (cl, pc) t" "R (cl, pc) (fst (on_conn (\<lambda>pc. (send_err e pc, Ok ())) t))" for e using R_trans by blast+
  then show ?thesis using assms(1) step by (cases r) (auto simp: after_point_def)
qed

end

section \<open>Runs\<close>

text \<open>A client, its connections, and the goroutines that handle messages, each with the number of its connection.\<close>

type_synonym conc_state = "Client \<times> PeerConn list \<times> (nat \<times> point) list"

inductive conc_step :: "conc_state \<Rightarrow> conc_state \<Rightarrow> bool" where
  conc_client: "client_step (cl, pcs) (cl', pcs') \<Longrightarrow> conc_step (cl, pcs, gs) (cl', pcs', gs)"
| conc_receive: "k < length pcs \<Longrightarrow> conc_step (cl, pcs, gs) (cl, pcs, gs @ [(k, Dispatch peerMsg)])"
| conc_point: "n < length gs \<Longrightarrow> gs ! n = (k, g) \<Longrightarrow> after_point flt g (cl, pcs ! k) = ((cl', pc'), g') \<Longrightarrow>
     conc_step (cl, pcs, gs) (cl', pcs[k := pc'], gs[n := (k, g')])"

abbreviation conc_run :: "conc_state \<Rightarrow> conc_state \<Rightarrow> bool" where
  "conc_run \<equiv> conc_step\<^sup>*\<^sup>*"

text \<open>
  A run by a schedule: a new connection, a message that arrives, the next step of the \<open>n\<close>-th handler, or a goroutine of a requester.
\<close>

datatype conc_ev = Connect string | Deliver nat PeerMsg | Advance nat | Start nat nat bool

fun conc_do :: "faults \<Rightarrow> conc_ev \<Rightarrow> conc_state \<Rightarrow> conc_state" where
  "conc_do flt (Connect peerId) (cl, pcs, gs) = (cl, pcs @ [NewPeerConnection peerId], gs)"
| "conc_do flt (Deliver k m) (cl, pcs, gs) = (if k < length pcs then (cl, pcs, gs @ [(k, Dispatch m)]) else (cl, pcs, gs))"
| "conc_do flt (Advance n) (cl, pcs, gs) =
     (if n < length gs then
        (case gs ! n of (k, g) \<Rightarrow> case after_point flt g (cl, pcs ! k) of ((cl', pc'), g') \<Rightarrow> (cl', pcs[k := pc'], gs[n := (k, g')]))
      else (cl, pcs, gs))"
| "conc_do flt (Start k n timeout) (cl, pcs, gs) =
     (if k < length pcs then
        (case run_task n timeout (pcs ! k) of None \<Rightarrow> (cl, pcs, gs) | Some (pc', r) \<Rightarrow> (cl, pcs[k := pc'], gs))
      else (cl, pcs, gs))"

abbreviation conc_exec :: "faults \<Rightarrow> conc_ev list \<Rightarrow> conc_state \<Rightarrow> conc_state" where
  "conc_exec flt \<equiv> fold (conc_do flt)"

lemma conc_do_run: "conc_run s (conc_do flt e s)"
proof -
  obtain cl pcs gs where s: "s = (cl, pcs, gs)" by (cases s)
  show ?thesis
  proof (cases e)
    case (Connect peerId)
    then show ?thesis using r_into_rtranclp [of conc_step, OF conc_client [OF step_connect]] by (simp add: s)
  next
    case (Deliver k m)
    then show ?thesis using r_into_rtranclp [of conc_step, OF conc_receive [of k pcs]] by (simp add: s)
  next
    case (Advance n)
    obtain k g where n: "gs ! n = (k, g)" by (cases "gs ! n")
    obtain cl' pc' g' where "after_point flt g (cl, pcs ! k) = ((cl', pc'), g')"
      by (cases "after_point flt g (cl, pcs ! k)") auto
    then show ?thesis using Advance n r_into_rtranclp [of conc_step, OF conc_point [of n gs k g flt cl pcs]] by (simp add: s)
  next
    case (Start k n timeout)
    then show ?thesis
      using r_into_rtranclp [of conc_step, OF conc_client [OF step_task [of k pcs n timeout]]]
      by (auto simp: s split: option.splits)
  qed
qed

lemma conc_exec_run: "conc_run s (conc_exec flt es s)"
proof (induction es arbitrary: s)
  case (Cons e es)
  show ?case using rtranclp_trans [OF conc_do_run Cons.IH] by simp
qed simp

text \<open>Some steps of one goroutine in a row.\<close>

lemma advance_points:
  assumes "points flt c g (cl, pcs ! k) = ((cl', pc'), Ok g')" "n < length gs" "gs ! n = (k, g)" "k < length pcs"
  shows "conc_exec flt (replicate c (Advance n)) (cl, pcs, gs) = (cl', pcs[k := pc'], gs[n := (k, g')])"
  using assms
proof (induction c arbitrary: g cl pcs gs)
  case 0
  then have "cl' = cl" "pc' = pcs ! k" "g' = g" by (simp_all add: ret_def)
  moreover have "gs[n := (k, g)] = gs" using list_update_id [of gs n] 0 by simp
  ultimately show ?case by simp
next
  case (Suc c)
  then obtain cl1 pc1 g1 where step: "point_step flt g (cl, pcs ! k) = ((cl1, pc1), Ok g1)" "points flt c g1 (cl1, pc1) = ((cl', pc'), Ok g')"
    by (auto simp: act_bind_eq_Ok)
  then have "conc_do flt (Advance n) (cl, pcs, gs) = (cl1, pcs[k := pc1], gs[n := (k, g1)])"
    using Suc.prems by (simp add: after_point_def)
  then show ?case using Suc.IH [of g1 cl1 "pcs[k := pc1]" "gs[n := (k, g1)]"] step(2) Suc.prems by simp
qed

section \<open>How the client grows\<close>

lemma TryToReserve_owned: "TryToReserve sp i d = Ok (sp', True) \<Longrightarrow> owned d sp' i"
  by (auto simp: owned_def TryToReserve_def on_piece_eq split: option.splits if_splits)

interpretation gr: point_steps grows
proof unfold_locales
  show "grows s s" for s by (cases s) (simp add: grows_def pieces_le_refl)
  show "grows s t \<Longrightarrow> grows t u \<Longrightarrow> grows s u" for s t u by (rule grows_trans)
  show "conn_quiet pc pc' \<Longrightarrow> grows (cl, pc) (cl, pc')" for pc pc' cl
    by (simp add: grows_def pieces_le_refl conn_quiet_def conn_le_def)
  show "files_le (cl_FileInfo cl, cl_fs cl) (fi', fs') \<Longrightarrow> grows (cl, pc) (cl\<lparr>cl_FileInfo := fi', cl_fs := fs'\<rparr>, pc)" for cl fi' fs' pc
    by (simp add: grows_def files_le_def)
  show "grows s (mark_downloading d s)" for s d
    by (cases s) (simp add: grows_def mark_downloading_def pieces_le_refl requested_def)
  show "grows (cl, pc) (cl, pc\<lparr>pc_queue := q\<rparr>)" for cl pc q
    by (simp add: grows_def pieces_le_refl requested_def)
  show "TryToReserve (cl_pieces cl) i (pc_toPeerId pc) = Ok (sp, ok) \<Longrightarrow> grows (cl, pc) (set_pieces sp cl, pc)" for cl i pc sp ok
    by (simp add: grows_def set_pieces_def pieces_le_TryToReserve)
  show "MarkAsDone (cl_pieces cl) i = Ok sp \<Longrightarrow> grows (cl, pc) (set_pieces sp cl, pc)" for cl i sp pc
    by (simp add: grows_def set_pieces_def pieces_le_MarkAsDone)
  show "(blocks_wf (cl_pieces cl) \<Longrightarrow> owned_block (pc_toPeerId pc) (cl_pieces cl) b) \<Longrightarrow>
      grows (cl, pc) (cl, pc\<lparr>pc_tasks := pc_tasks pc @ [RequestTask ptr b]\<rparr>)" for cl pc b ptr
    by (auto simp: grows_def pieces_le_refl requested_def)
qed

text \<open>The invariant of a run: every goroutine is on a connection and knows what it should.\<close>

definition conc_ok :: "conc_state \<Rightarrow> bool" where
  "conc_ok = (\<lambda>(cl, pcs, gs). \<forall>(k, g) \<in> set gs. k < length pcs \<and> point_ok (cl_pieces cl) (pc_toPeerId (pcs ! k)) g)"

lemma stage_point_ok [simp]: "point_ok sp peer (stage_point g)"
  by (cases g) (simp_all add: stage_point_def)

lemma next_ok:
  assumes "point_step flt g (cl, pc) = ((cl', pc'), Ok g')" "point_ok (cl_pieces cl) (pc_toPeerId pc) g"
  shows "point_ok (cl_pieces cl') (pc_toPeerId pc') g'"
proof (cases g)
  case (Dispatch m)
  then show ?thesis using assms(1) by (cases m) (auto simp: act_bind_eq_Ok ret_def)
next
  case Hello_Build
  then show ?thesis using assms(1)
    by (auto simp: act_bind_eq_Ok ret_def read_pieces_def BuildPeerBitfieldMsg_def res_simps split: res.splits option.splits if_splits)
next
  case (Reading_Block b)
  then show ?thesis using assms(1)
    by (auto simp: act_bind_eq_Ok ret_def BuildPeerPieceMsg_def split: option.splits)
next
  case (Of_Piece st)
  then show ?thesis using assms(1)
    by (auto simp: act_bind_eq_Ok ret_def simp del: stage_step.simps)
next
  case (Reserve i)
  then show ?thesis using assms(1)
    by (auto simp: act_bind_eq_Ok ret_def reserve_piece_def set_pieces_def dest: TryToReserve_owned split: res.splits prod.splits if_splits)
next
  case (Fetch i)
  then obtain p where "Get (cl_pieces cl) i = Some p" "(cl', pc') = (cl, pc)" "g' = Request_Blocks (piece_blocks p)"
    using assms(1) by (auto simp: act_bind_eq_Ok ret_def read_pieces_def split: option.splits)
  then show ?thesis using assms(2) Fetch by auto
next
  case (Request_Blocks bs)
  show ?thesis
  proof (cases bs)
    case (Cons b bs')
    then have "cl' = cl" "pc_toPeerId pc' = pc_toPeerId pc" "g' = Request_Blocks bs'"
      using assms(1) Request_Blocks by (auto simp: act_bind_eq_Ok ret_def go_request_def on_conn_def)
    moreover have "point_ok (cl_pieces cl) (pc_toPeerId pc) (Request_Blocks bs')"
      using assms(2) unfolding Request_Blocks Cons point_ok.simps list.map list.set by blast
    ultimately show ?thesis by metis
  qed (use assms(1) Request_Blocks in \<open>auto simp: ret_def\<close>)
qed (use assms(1) in \<open>auto simp: act_bind_eq_Ok ret_def split: if_splits\<close>)

lemma after_ok:
  assumes "after_point flt g (cl, pc) = ((cl', pc'), g')" "point_ok (cl_pieces cl) (pc_toPeerId pc) g"
  shows "point_ok (cl_pieces cl') (pc_toPeerId pc') g'"
proof -
  obtain t r where step: "point_step flt g (cl, pc) = (t, r)" by (cases "point_step flt g (cl, pc)")
  show ?thesis
  proof (cases r)
    case (Ok g2)
    then show ?thesis using assms next_ok [of flt g cl pc cl' pc' g'] step by (simp add: after_point_def)
  qed (use assms(1) step in \<open>auto simp: after_point_def\<close>)
qed

text \<open>What the steps do on the side of the client and its connections: a \<open>client_step\<close>, or what a step of a goroutine may do.\<close>

lemma conc_step_cases:
  assumes "conc_step (cl, pcs, gs) (cl', pcs', gs')" "conc_ok (cl, pcs, gs)"
  obtains (client) "client_step (cl, pcs) (cl', pcs')" "gs' = gs"
  | (receive) k m where "cl' = cl" "pcs' = pcs" "k < length pcs" "gs' = gs @ [(k, Dispatch m)]"
  | (point) k pc' flt g g' n where "k < length pcs" "pcs' = pcs[k := pc']" "after_point flt g (cl, pcs ! k) = ((cl', pc'), g')"
      "point_ok (cl_pieces cl) (pc_toPeerId (pcs ! k)) g" "n < length gs" "gs ! n = (k, g)" "gs' = gs[n := (k, g')]"
  using assms(1)
proof cases
  case (conc_point n k g flt pc' g')
  then have "(k, g) \<in> set gs" by (metis nth_mem)
  then have "k < length pcs" "point_ok (cl_pieces cl) (pc_toPeerId (pcs ! k)) g" using assms(2) by (auto simp: conc_ok_def)
  with conc_point point show thesis by metis
qed (use client receive in auto)

lemma update_keeps: "k < length xs \<Longrightarrow> f x = f (xs ! k) \<Longrightarrow> \<forall>i < length xs. f (xs[k := x] ! i) = f (xs ! i)"
  by (simp add: nth_list_update)

lemma client_step_grows:
  assumes "client_step (cl, pcs) (cl', pcs')"
  shows "pieces_le (cl_pieces cl) (cl_pieces cl') \<and> length pcs \<le> length pcs' \<and>
    (\<forall>k < length pcs. pc_toPeerId (pcs' ! k) = pc_toPeerId (pcs ! k))"
  using assms
proof cases
  case step_connect
  then show ?thesis by (auto simp: pieces_le_refl nth_append)
next
  case (step_message k flt m pc' r)
  then have "evolves (cl, pcs ! k) (cl', pc')" by (intro message_evolves)
  then have "pieces_le (cl_pieces cl) (cl_pieces cl')" "pc_toPeerId pc' = pc_toPeerId (pcs ! k)"
    by (simp_all add: evolves_def conn_le_def)
  then show ?thesis using step_message(1,2) update_keeps [where f = pc_toPeerId] by simp
next
  case (step_task k n timeout pc' r)
  then have "conn_le (pcs ! k) pc'" by (intro run_task_conn_le)
  then have "pc_toPeerId pc' = pc_toPeerId (pcs ! k)" by (simp add: conn_le_def)
  then show ?thesis using step_task(1-3) update_keeps [where f = pc_toPeerId] by (simp add: pieces_le_refl)
qed

lemma conc_ok_mono:
  assumes "conc_ok (cl, pcs, gs)" "pieces_le (cl_pieces cl) (cl_pieces cl')" "length pcs \<le> length pcs'"
    "\<forall>k < length pcs. pc_toPeerId (pcs' ! k) = pc_toPeerId (pcs ! k)"
  shows "conc_ok (cl', pcs', gs)"
  using assms point_ok_mono [OF assms(2)] by (fastforce simp: conc_ok_def)

lemma conc_step_ok:
  assumes "conc_step (cl, pcs, gs) (cl', pcs', gs')" "conc_ok (cl, pcs, gs)"
  shows "conc_ok (cl', pcs', gs') \<and> pieces_le (cl_pieces cl) (cl_pieces cl')"
  using assms
proof (cases rule: conc_step_cases)
  case client
  then show ?thesis using conc_ok_mono [OF assms(2)] client_step_grows by blast
next
  case (receive k m)
  then show ?thesis using assms(2) by (auto simp: conc_ok_def pieces_le_refl)
next
  case (point k pc' flt g g' n)
  have "grows (cl, pcs ! k) (cl', pc')" using gr.after_point_at [OF point(3,4)] .
  then have le: "pieces_le (cl_pieces cl) (cl_pieces cl')" "pc_toPeerId pc' = pc_toPeerId (pcs ! k)" by (simp_all add: grows_def)
  then have "conc_ok (cl', pcs', gs)"
    using update_keeps [where f = pc_toPeerId, OF point(1) le(2)] by (intro conc_ok_mono [OF assms(2)]) (simp_all add: point(2))
  moreover have "point_ok (cl_pieces cl') (pc_toPeerId (pcs' ! k)) g'"
    using after_ok [OF point(3,4)] point(1,2) by simp
  moreover have "set gs' \<subseteq> insert (k, g') (set gs)" using point(7) by (simp add: set_update_subset_insert)
  ultimately show ?thesis using le(1) point(1,2) by (auto simp: conc_ok_def)
qed

lemma conc_run_ok:
  assumes "conc_run (cl, pcs, gs) (cl', pcs', gs')" "conc_ok (cl, pcs, gs)"
  shows "conc_ok (cl', pcs', gs') \<and> pieces_le (cl_pieces cl) (cl_pieces cl')"
  using assms
proof (induction "(cl', pcs', gs')" arbitrary: cl' pcs' gs' rule: rtranclp_induct)
  case base
  then show ?case by (simp add: pieces_le_refl)
next
  case (step t)
  obtain cl1 pcs1 gs1 where t: "t = (cl1, pcs1, gs1)" by (cases t)
  from step.hyps(3) [OF t] step.prems have "conc_ok (cl1, pcs1, gs1)" "pieces_le (cl_pieces cl) (cl_pieces cl1)" by simp_all
  moreover from conc_step_ok [OF step.hyps(2) [unfolded t] this(1)]
  have "conc_ok (cl', pcs', gs')" "pieces_le (cl_pieces cl1) (cl_pieces cl')" by simp_all
  ultimately show ?case using pieces_le_trans by blast
qed

section \<open>What holds in every run\<close>

interpretation pbk: point_steps booked
proof unfold_locales
  show "TryToReserve (cl_pieces cl) i (pc_toPeerId pc) = Ok (sp, ok) \<Longrightarrow> booked (cl, pc) (set_pieces sp cl, pc)" for cl i pc sp ok
    by (simp add: booked_def set_pieces_def books_TryToReserve)
  show "booked (cl, pc) (cl, pc\<lparr>pc_queue := q\<rparr>)" for cl pc q by (simp add: booked_def)
  show "booked (cl, pc) (cl, pc\<lparr>pc_tasks := pc_tasks pc @ [RequestTask ptr b]\<rparr>)" for cl pc ptr b by (simp add: booked_def)
qed (fact bk.quiet_step bk.files_step bk.mark_step bk.done_step)+

interpretation pwm: point_steps "\<lambda>s t. writes_wf (snd s) (snd t)"
proof unfold_locales
  show "writes_wf (snd s) (snd (mark_downloading d s))" for d s by (rule wm.mark_step)
qed (auto simp: conn_quiet_def writes_wf_def)

text \<open>An invariant of a client and its connections that its steps keep, and that every step of a goroutine keeps.\<close>

lemma conc_run_invariant:
  assumes "conc_run (cl, pcs, gs) (cl', pcs', gs')" "conc_ok (cl, pcs, gs)" "I (cl, pcs)"
    and "\<And>s t. client_step s t \<Longrightarrow> I s \<Longrightarrow> I t"
    and "\<And>cl pcs k flt g cl' pc' g'. k < length pcs \<Longrightarrow> after_point flt g (cl, pcs ! k) = ((cl', pc'), g') \<Longrightarrow>
      point_ok (cl_pieces cl) (pc_toPeerId (pcs ! k)) g \<Longrightarrow> I (cl, pcs) \<Longrightarrow> I (cl', pcs[k := pc'])"
  shows "I (cl', pcs')"
  using assms(1)
proof (induction "(cl', pcs', gs')" arbitrary: cl' pcs' gs' rule: rtranclp_induct)
  case base
  then show ?case using assms(3) by simp
next
  case (step t)
  obtain cl1 pcs1 gs1 where t: "t = (cl1, pcs1, gs1)" by (cases t)
  have ok: "conc_ok (cl1, pcs1, gs1)" using conc_run_ok [OF step.hyps(1) [unfolded t] assms(2)] by simp
  have I: "I (cl1, pcs1)" by (rule step.hyps(3) [OF t])
  from step.hyps(2) [unfolded t] ok show ?case
  proof (cases rule: conc_step_cases)
    case client
    then show ?thesis using assms(4) I by blast
  next
    case (point k pc' flt g g' n)
    then show ?thesis using assms(5) I by blast
  qed (use I in simp)
qed

definition ledger_run :: "pieces_ledger \<Rightarrow> Client \<times> PeerConn list \<Rightarrow> bool" where
  "ledger_run L = (\<lambda>(cl, pcs). books (pc_toPeerId ` set pcs) L (ledger (cl_pieces cl)))"

lemma conc_run_books:
  assumes "conc_run (cl, pcs, []) (cl', pcs', gs')"
  shows "books (pc_toPeerId ` set pcs') (ledger (cl_pieces cl)) (ledger (cl_pieces cl'))"
proof -
  have "ledger_run (ledger (cl_pieces cl)) (cl', pcs')"
  proof (rule conc_run_invariant [OF assms])
    show "conc_ok (cl, pcs, [])" "ledger_run (ledger (cl_pieces cl)) (cl, pcs)" by (simp_all add: conc_ok_def ledger_run_def)
    fix L s t assume step: "client_step s t" and L: "ledger_run L s"
    obtain cl1 pcs1 cl2 pcs2 where st: "s = (cl1, pcs1)" "t = (cl2, pcs2)" by (cases s; cases t)
    note one = client_step_books [OF step [unfolded st]]
    have "books (pc_toPeerId ` set pcs2) L (ledger (cl_pieces cl1))"
      using books_mono [OF _ conjunct2 [OF one]] L by (simp add: st ledger_run_def)
    from books_trans [OF this conjunct1 [OF one]] show "ledger_run L t" by (simp add: st ledger_run_def)
  next
    fix L cl1 pcs1 k flt g cl2 pc2 g2
    assume k: "k < length (pcs1 :: PeerConn list)" and after: "after_point flt g (cl1, pcs1 ! k) = ((cl2, pc2), g2)"
      and ok: "point_ok (cl_pieces cl1) (pc_toPeerId (pcs1 ! k)) g" and L: "ledger_run L (cl1, pcs1)"
    have "books (pc_toPeerId ` set pcs1) (ledger (cl_pieces cl1)) (ledger (cl_pieces cl2))"
      "pc_toPeerId ` set (pcs1[k := pc2]) = pc_toPeerId ` set pcs1"
      using booked_client [OF pbk.after_point_at [OF after ok] k] by simp_all
    then show "ledger_run L (cl2, pcs1[k := pc2])" using L books_trans unfolding ledger_run_def prod.case by metis
  qed
  then show ?thesis by (simp add: ledger_run_def)
qed

section \<open>Properties\<close>

text \<open>
  (C3) The client refines the ledger however its goroutines interleave: messages of all kinds arrive on any connections and the goroutines
  that handle them stop and go on between any two of their steps, down to single reads and writes of a queue; what happened to the pieces is a
  sequence of the two operations of the specification, in which every reservation was made for the peer of one of the connections
  and no piece was reserved twice.
\<close>

theorem interleavings_refine_ledger:
  assumes "conc_run (cl, pcs, []) (cl', pcs', gs)"
  shows "\<exists>es. store_run reserve_entry finish_entry (ledger (cl_pieces cl)) es (ledger (cl_pieces cl')) \<and>
    (\<forall>i peer. Reserved i peer \<in> set es \<longrightarrow> peer \<in> pc_toPeerId ` set pcs') \<and>
    (\<forall>i. length (filter (\<lambda>e. \<exists>peer. e = Reserved i peer) es) \<le> 1)"
proof -
  obtain es where es: "store_run reserve_entry finish_entry (ledger (cl_pieces cl)) es (ledger (cl_pieces cl'))"
      "\<forall>i peer. Reserved i peer \<in> set es \<longrightarrow> peer \<in> pc_toPeerId ` set pcs'"
    using conc_run_books [OF assms] unfolding books_def by auto
  then show ?thesis using lg.run_reserved_once [OF es(1)] by blast
qed

text \<open>
  (C35) No piece is asked of two peers, however the handlers interleave: in every run of a client that starts with the
  pieces of a torrent and no connections, if a REQUEST for a piece was sent on a connection, then the piece is recorded as reserved for
  that connection's peer; so on two connections to different peers the pieces asked for are different.
\<close>

theorem interleavings_ask_no_two_peers:
  assumes "0 < bl" "0 < pl" "1 \<le> n" "n \<le> 2 ^ 32" "0 \<le> info_Length info"
    and "cut_pieces n pl bl (Some info) seeding = Ok (cl_pieces cl)" "conc_run (cl, [], []) (cl', pcs, gs)"
    and "k < length pcs" "l < length pcs"
  shows "(\<forall>i \<in> requested (pcs ! k). \<exists>p. Get (cl_pieces cl') i = Some p \<and> piece_status p \<noteq> PIECESTATUS_IDLE \<and>
      piece_downloader p = pc_toPeerId (pcs ! k)) \<and>
    (pc_toPeerId (pcs ! k) \<noteq> pc_toPeerId (pcs ! l) \<longrightarrow> requested (pcs ! k) \<inter> requested (pcs ! l) = {})"
proof -
  have "client_ok (cl, [])" using blocks_wf_cut_pieces [OF assms(1-6)] by (simp add: client_ok_def)
  moreover have "conc_ok (cl, [], [])" by (simp add: conc_ok_def)
  ultimately have "client_ok (cl', pcs)"
    using conc_run_invariant [OF assms(7), of client_ok] client_ok_step client_ok_grows gr.after_point_at by blast
  then show ?thesis by (rule client_ok_requested [OF _ assms(8,9)])
qed

text \<open>
  (C36) Nothing undoes progress, however the handlers interleave: after any messages on any connections, every piece is still there with
  its length and its blocks, its status is the same or further on (so a piece that is DONE stays DONE), a piece that was reserved keeps
  the peer it was reserved for, and the store stays well formed.
\<close>

theorem interleavings_never_regress:
  assumes "conc_run (cl, pcs, []) (cl', pcs', gs)" "sp_wf (cl_pieces cl)"
  shows "sp_wf (cl_pieces cl') \<and> Len (cl_pieces cl') = Len (cl_pieces cl) \<and>
    (\<forall>i. case Get (cl_pieces cl) i of
        None \<Rightarrow> Get (cl_pieces cl') i = None
      | Some p \<Rightarrow> \<exists>q. Get (cl_pieces cl') i = Some q \<and> piece_status p \<le> piece_status q \<and> piece_length q = piece_length p \<and>
          BlockCount q = BlockCount p \<and>
          (if piece_status p = PIECESTATUS_IDLE then True else piece_downloader q = piece_downloader p))"
proof -
  have "conc_ok (cl, pcs, [])" by (simp add: conc_ok_def)
  then have "pieces_le (cl_pieces cl) (cl_pieces cl')" using conc_run_ok [OF assms(1)] by blast
  from pieces_le_never_regress [OF this assms(2)] show ?thesis .
qed

text \<open>
  (C7) What a client writes is well formed, however its handlers interleave: each message it has written on a connection encodes without
  an error and with the fields its type calls for; and when its encoding fits the 16640 bytes a reader accepts, the peer reads its length
  off its head and parses it back to the same message.
\<close>

theorem interleavings_send_wellformed:
  assumes "conc_run (cl, [], []) (cl', pcs, gs)" "k < length pcs" "m \<in> set (pc_out (pcs ! k))"
  shows "wf_msg m \<and> (\<exists>b. PeerMsg_Bytes m = Ok b \<and> b \<noteq> [] \<and>
    (length b \<le> 16640 \<longrightarrow> ParseRawPeerMsgLength (Some (b @ rest)) = Ok (int (length b)) \<and> NewPeerMsgFromBuffer (Some b) = Ok m))"
proof -
  have "conc_ok (cl, [], [])" by (simp add: conc_ok_def)
  moreover have "all_wf (snd (cl, []))" by (simp add: all_wf_def)
  ultimately have "all_wf (snd (cl', pcs))"
    using conc_run_invariant [OF assms(1), of "\<lambda>s. all_wf (snd s)"] client_step_wf all_wf_update pwm.after_point_at
    by (metis (mono_tags, lifting) snd_conv)
  then have wf: "wf_msg m" using assms(2,3) by (auto simp: all_wf_def)
  from wire.enc_total [OF wf] obtain b where b: "PeerMsg_Bytes m = Ok b" "b \<noteq> []" by blast
  then show ?thesis using wf wire.frame_len_whole [OF wf b(1), of rest] wire.parse_enc [OF wf b(1)] by auto
qed

text \<open>
  Two connections; a HAVE and a BITFIELD arrive on the first, and are handled in turns; then the goroutine of a block runs.
\<close>

definition in_turns :: "conc_ev list" where
  "in_turns = [Connect ''first'', Connect ''second'', Deliver 0 (HavePeerMsg [0, 0, 0, 0]), Deliver 0 (BitfieldPeerMsg [3])] @
     concat (replicate 20 [Advance 0, Advance 1]) @ [Start 0 0 False]"

definition turned :: conc_state where
  "turned = conc_exec no_faults in_turns (client0 six_pieces_idle, [], [])"

definition turned_conn :: PeerConn where
  "turned_conn = fst (snd turned) ! 0"

lemma turned_run: "conc_run (client0 six_pieces_idle, [], []) (fst turned, fst (snd turned), snd (snd turned))"
  unfolding turned_def by (simp add: conc_exec_run)

lemma nth_turned: "fst (snd turned) ! 0 = turned_conn"
  by (simp add: turned_conn_def)

lemma turned_facts:
  "length (fst (snd turned)) = 2" "pc_toPeerId (fst (snd turned) ! 1) = ''second''"
  "pc_toPeerId turned_conn = ''first''" "pc_out turned_conn = [RequestPeerMsg [0, 0, 0, 0, 0, 0, 0, 0, 0, 0, 0, 2]]"
  "snd (snd turned) = [(0, Stop), (0, Stop)]"
  by code_simp+

theorem interleavings_refine_ledger_witness:
  "\<exists>es. store_run reserve_entry finish_entry (ledger six_pieces_idle) es (ledger (cl_pieces (fst turned))) \<and>
    (\<forall>i. length (filter (\<lambda>e. \<exists>peer. e = Reserved i peer) es) \<le> 1)"
  using interleavings_refine_ledger [OF turned_run] by auto

theorem interleavings_ask_no_two_peers_witness:
  "0 \<in> requested turned_conn \<and> requested turned_conn \<inter> requested (fst (snd turned) ! 1) = {} \<and>
   (\<exists>p. Get (cl_pieces (fst turned)) 0 = Some p \<and> piece_downloader p = ''first'')"
proof -
  have "RequestPeerMsg_GetPieceIdx [0, 0, 0, 0, 0, 0, 0, 0, 0, 0, 0, 2] = Ok 0" by code_simp
  then have "0 \<in> requested turned_conn" by (simp add: requested_def turned_facts)
  then show ?thesis
    using interleavings_ask_no_two_peers [OF _ _ _ _ _ _ turned_run, of 2 4 2 six_info False 0 1] cut_six turned_facts(1-3)
    unfolding nth_turned by auto
qed

theorem interleavings_never_regress_witness:
  "Len (cl_pieces (fst turned)) = 2 \<and>
   (\<exists>q. Get (cl_pieces (fst turned)) 1 = Some q \<and> piece_length q = 2 \<and> BlockCount q = 1)"
proof -
  have "sp_wf (cl_pieces (client0 six_pieces_idle))" unfolding client0_pieces by code_simp
  moreover have "Len six_pieces_idle = 2" by code_simp
  moreover have "Get six_pieces_idle 1 = Some (torrent_piece 2 4 6 2 False 1)" by (simp add: Get_def six_pieces_idle_def)
  moreover have "piece_length (torrent_piece 2 4 6 2 False 1) = 2" "BlockCount (torrent_piece 2 4 6 2 False 1) = 1"
    by code_simp+
  ultimately show ?thesis
    using interleavings_never_regress [OF turned_run] by (auto split: option.splits dest!: spec [of _ 1])
qed

theorem interleavings_send_wellformed_witness:
  "wf_msg (RequestPeerMsg [0, 0, 0, 0, 0, 0, 0, 0, 0, 0, 0, 2]) \<and>
   (\<exists>b. PeerMsg_Bytes (RequestPeerMsg [0, 0, 0, 0, 0, 0, 0, 0, 0, 0, 0, 2]) = Ok b \<and> b \<noteq> [])"
  using interleavings_send_wellformed [OF turned_run, of 0 "RequestPeerMsg [0, 0, 0, 0, 0, 0, 0, 0, 0, 0, 0, 2]" "[]"] turned_facts(1,4)
  unfolding nth_turned by auto

end
