(* ===== verification/Lost_Updates.thy ===== *)
theory Lost_Updates
  imports Point_Runs
begin

text \<open>
  What interleaving does break: the queue of a connection is read and written without a lock, so that updates of it are lost and a
  piece can be dequeued from a queue that another goroutine has emptied.
\<close>

section \<open>HAVE messages that arrive together\<close>

text \<open>A HAVE handler on a connection that is already downloading, up to the read of the queue, and the write.\<close>

lemma have_points:
  assumes "pc_queue pc = q" "q \<noteq> []" "HavePeerMsg_GetPieceIdx p = Ok i" "i \<notin> set q"
  shows "points flt 4 (Dispatch (HavePeerMsg p)) (cl, pc) = ((cl, pc), Ok (Have_Store i (q @ [i]) False))"
  using assms by (simp add: numeral_eq_Suc act_bind_def ret_def read_queue_def)

lemma have_write:
  "points flt 1 (Have_Store i q False) (cl, pc) = ((cl, pc\<lparr>pc_queue := q\<rparr>), Ok Stop)"
  by (simp add: act_bind_def ret_def write_queue_def on_conn_def)

lemma have_alone:
  assumes "pc_queue pc = q" "q \<noteq> []" "HavePeerMsg_GetPieceIdx p = Ok i" "i \<notin> set q"
  shows "points flt 5 (Dispatch (HavePeerMsg p)) (cl, pc) = ((cl, pc\<lparr>pc_queue := q @ [i]\<rparr>), Ok Stop)"
  using assms by (simp add: numeral_eq_Suc act_bind_def ret_def read_queue_def write_queue_def on_conn_def)

text \<open>
  (C19) A HAVE is lost: two HAVE messages for two new pieces arrive on a connection that has pieces queued. One handler after the other,
  both pieces are queued. When both read the queue before either writes it, only the second piece is: the first one
  is never asked for on this connection, and no error is reported.
\<close>

theorem have_update_lost:
  assumes "k < length pcs" "pc_queue (pcs ! k) = q" "q \<noteq> []"
    and "HavePeerMsg_GetPieceIdx p1 = Ok i" "HavePeerMsg_GetPieceIdx p2 = Ok j" "i \<notin> set q" "j \<notin> set q" "i \<noteq> j"
  shows "conc_exec flt ([Deliver k (HavePeerMsg p1), Deliver k (HavePeerMsg p2)] @ replicate 5 (Advance 0) @ replicate 5 (Advance 1))
        (cl, pcs, []) = (cl, pcs[k := (pcs ! k)\<lparr>pc_queue := q @ [i, j]\<rparr>], [(k, Stop), (k, Stop)]) \<and>
    conc_exec flt ([Deliver k (HavePeerMsg p1), Deliver k (HavePeerMsg p2)] @
          replicate 4 (Advance 0) @ replicate 4 (Advance 1) @ [Advance 0, Advance 1])
        (cl, pcs, []) = (cl, pcs[k := (pcs ! k)\<lparr>pc_queue := q @ [j]\<rparr>], [(k, Stop), (k, Stop)])"
proof -
  let ?pc = "pcs ! k" and ?d1 = "Dispatch (HavePeerMsg p1)" and ?d2 = "Dispatch (HavePeerMsg p2)"
  let ?deliver = "conc_exec flt [Deliver k (HavePeerMsg p1), Deliver k (HavePeerMsg p2)] (cl, pcs, [])"
  have start: "?deliver = (cl, pcs, [(k, ?d1), (k, ?d2)])" using assms(1) by simp
  let ?pcs1 = "pcs[k := ?pc\<lparr>pc_queue := q @ [i]\<rparr>]"
  have "conc_exec flt (replicate 5 (Advance 0)) (cl, pcs, [(k, ?d1), (k, ?d2)]) = (cl, ?pcs1, [(k, Stop), (k, ?d2)])"
    using advance_points [OF have_alone [OF assms(2-4,6), of flt cl], of 0 "[(k, ?d1), (k, ?d2)]"] assms(1) by simp
  moreover have "conc_exec flt (replicate 5 (Advance 1)) (cl, ?pcs1, [(k, Stop), (k, ?d2)]) =
      (cl, pcs[k := ?pc\<lparr>pc_queue := q @ [i, j]\<rparr>], [(k, Stop), (k, Stop)])"
    using advance_points [OF have_alone [of "?pcs1 ! k" "q @ [i]" p2 j flt cl], of 1 "[(k, Stop), (k, ?d2)]"] assms by simp
  moreover have "conc_exec flt (replicate 4 (Advance 0)) (cl, pcs, [(k, ?d1), (k, ?d2)]) =
      (cl, pcs, [(k, Have_Store i (q @ [i]) False), (k, ?d2)])"
    using advance_points [OF have_points [OF assms(2-4,6), of flt cl], of 0 "[(k, ?d1), (k, ?d2)]"] assms(1) by simp
  moreover have "conc_exec flt (replicate 4 (Advance 1)) (cl, pcs, [(k, Have_Store i (q @ [i]) False), (k, ?d2)]) =
      (cl, pcs, [(k, Have_Store i (q @ [i]) False), (k, Have_Store j (q @ [j]) False)])"
    using advance_points [OF have_points [OF assms(2,3,5,7), of flt cl], of 1 "[(k, Have_Store i (q @ [i]) False), (k, ?d2)]"] assms(1) by simp
  moreover have "conc_exec flt [Advance 0, Advance 1] (cl, pcs, [(k, Have_Store i (q @ [i]) False), (k, Have_Store j (q @ [j]) False)]) =
      (cl, pcs[k := ?pc\<lparr>pc_queue := q @ [j]\<rparr>], [(k, Stop), (k, Stop)])"
    using assms(1) by (simp add: after_point_def act_bind_def ret_def write_queue_def on_conn_def)
  ultimately show ?thesis unfolding fold_append o_apply start by (simp only:)
qed

theorem have_update_lost_witness:
  "let start = (client0 six_pieces_idle, [(NewPeerConnection ''peer'')\<lparr>pc_queue := [5]\<rparr>], []);
       arrive = [Deliver 0 (HavePeerMsg [0, 0, 0, 0]), Deliver 0 (HavePeerMsg [0, 0, 0, 1])];
       queues = \<lambda>es. map pc_queue (fst (snd (conc_exec no_faults (arrive @ es) start)))
   in queues (replicate 5 (Advance 0) @ replicate 5 (Advance 1)) = [[5, 0, 1]] \<and>
      queues (replicate 4 (Advance 0) @ replicate 4 (Advance 1) @ [Advance 0, Advance 1]) = [[5, 1]]"
proof -
  have "HavePeerMsg_GetPieceIdx [0, 0, 0, 0] = Ok 0" "HavePeerMsg_GetPieceIdx [0, 0, 0, 1] = Ok 1" by code_simp+
  from have_update_lost [OF _ _ _ this, of 0 "[(NewPeerConnection ''peer'')\<lparr>pc_queue := [5]\<rparr>]" "[5]" no_faults "client0 six_pieces_idle"]
  show ?thesis unfolding Let_def by (simp del: fold_append fold_replicate conc_do.simps)
qed

section \<open>The last piece of a queue\<close>

text \<open>A PIECE message up to the look at how many blocks are left.\<close>

lemma count_points:
  assumes "PiecePeerMsg_GetBlock payload = Ok b" "awaiting pc r (b # bs)" "SaveBlock flt (cl_FileInfo cl) b (cl_fs cl) = (fs', Ok ())"
  shows "\<exists>pc'. points flt 3 (Dispatch (PiecePeerMsg payload)) (cl, pc) = ((cl\<lparr>cl_fs := fs'\<rparr>, pc'), Ok (Of_Piece (Checking b))) \<and>
    awaiting pc' r bs \<and> blocks_left pc' r = blocks_left pc r - 1 \<and> same_conn pc pc'"
proof -
  obtain pc' where pc': "onBlockReceive (pc_blockRequester pc) b pc = (pc', Ok ())" "awaiting pc' r bs"
    "blocks_left pc' r = blocks_left pc r - 1" "same_conn pc pc'"
    using onBlockReceive_awaiting [OF assms(2)] by blast
  then have "points flt 3 (Dispatch (PiecePeerMsg payload)) (cl, pc) = ((cl\<lparr>cl_fs := fs'\<rparr>, pc'), Ok (Of_Piece (Checking b)))"
    using assms(1,3) by (simp add: numeral_eq_Suc act_simps on_conn_def on_files_def stage_points)
  then show ?thesis using pc' by blast
qed

lemma check_points:
  "awaiting pc r bs \<Longrightarrow> points flt 1 (Of_Piece (Checking b)) (cl, pc) =
     ((cl, pc), Ok (if blocks_left pc r = 0 then Of_Piece (Resetting b) else Stop))"
  using BlocksLeft_awaiting [of pc r bs] by (simp add: act_simps on_conn_def stage_points)

text \<open>From the reset of the requester to the dequeuing of the next piece, while one is not done and the queue not empty.\<close>

lemma finish_points:
  assumes "awaiting pc r bs" "pieces_st n m bl st (cl_pieces cl)" "blk_PieceIdx b = i" "0 \<le> i" "i < int n"
    and "0 \<le> j" "j < int n" "j \<noteq> i" "st j = PIECESTATUS_IDLE" "pc_queue pc \<noteq> []"
  shows "\<exists>cl' pc'. points flt 5 (Of_Piece (Resetting b)) (cl, pc) = ((cl', pc'), Ok Dequeue) \<and>
    pieces_st n m bl (st(i := PIECESTATUS_DONE)) (cl_pieces cl') \<and> awaiting pc' r bs \<and> pc_queue pc' = pc_queue pc"
proof -
  let ?st = "st(i := PIECESTATUS_DONE)"
  obtain p where p: "Get (cl_pieces cl) i = Some p" "piece_blocks p = wanted m bl i" "piece_idx p = i"
    using pieces_st_Get [OF assms(2,4,5)] by blast
  let ?sp = "AList.update i (SetStatus PIECESTATUS_DONE p) (cl_pieces cl)"
  have mark: "MarkAsDone (cl_pieces cl) i = Ok ?sp" using p by (simp add: MarkAsDone_def on_piece_eq)
  have st: "pieces_st n m bl ?st ?sp" by (rule pieces_st_update [OF assms(2,4,5)]) (simp_all add: p)
  have "?st j \<noteq> PIECESTATUS_DONE" using assms(8,9) by simp
  then have undone: "TotalUndonePiecesLeft ?sp \<noteq> 0" using pieces_st_undone [OF st] assms(6,7) by metis
  obtain pc1 where pc1: "reset (Some r) pc = (pc1, Ok ())" "same_conn pc pc1" "awaiting pc1 r bs"
    using reset_awaiting [OF assms(1)] by blast
  have r: "pc_blockRequester pc = Some r" using assms(1) by (simp add: awaiting_def)
  let ?s = "mark_downloading True (set_pieces ?sp cl, pc1)"
  have queue: "pc_queue pc1 = pc_queue pc" using pc1(2) by (simp add: same_conn_def)
  then have "points flt 5 (Of_Piece (Resetting b)) (cl, pc) = (?s, Ok Dequeue)"
    using pc1(1) r mark undone assms(3,10)
    by (simp add: numeral_eq_Suc act_simps on_conn_def stage_points read_pieces_def read_queue_def set_downloading_def set_pieces_def)
  moreover have "pieces_st n m bl ?st (cl_pieces (fst ?s))" "awaiting (snd ?s) r bs" "pc_queue (snd ?s) = pc_queue pc"
    using st pc1(3) queue by (simp_all add: mark_downloading_def set_pieces_def awaiting_def)
  ultimately show ?thesis by (intro exI [of _ "fst ?s"] exI [of _ "snd ?s"]) simp
qed

lemma dequeue_points:
  "pc_queue pc = j # rest \<Longrightarrow> points flt 2 Dequeue (cl, pc) = ((cl, pc\<lparr>pc_queue := rest\<rparr>), Ok (Reserve j))"
  by (simp add: numeral_eq_Suc act_bind_def ret_def read_queue_def write_queue_def on_conn_def slice_get_def)

lemma dequeue_nothing: "pc_queue pc = [] \<Longrightarrow> point_step flt Dequeue (cl, pc) = ((cl, pc), Panic IndexOutOfRange)"
  by (simp add: read_queue_def act_bind_def ret_def slice_get_def)

text \<open>Two goroutines on one connection, one of which runs for some steps.\<close>

lemma advance_first:
  "k < length pcs \<Longrightarrow> points flt c g1 (cl, pc) = ((cl', pc'), Ok g) \<Longrightarrow>
   conc_exec flt (replicate c (Advance 0) @ es) (cl, pcs[k := pc], [(k, g1), (k, g2)]) =
   conc_exec flt es (cl', pcs[k := pc'], [(k, g), (k, g2)])"
  using advance_points [of flt c g1 cl "pcs[k := pc]" k cl' pc' g 0 "[(k, g1), (k, g2)]"] by simp

lemma advance_second:
  "k < length pcs \<Longrightarrow> points flt c g2 (cl, pc) = ((cl', pc'), Ok g) \<Longrightarrow>
   conc_exec flt (replicate c (Advance 1) @ es) (cl, pcs[k := pc], [(k, g1), (k, g2)]) =
   conc_exec flt es (cl', pcs[k := pc'], [(k, g1), (k, g)])"
  using advance_points [of flt c g2 cl "pcs[k := pc]" k cl' pc' g 1 "[(k, g1), (k, g2)]"] by simp

text \<open>
  (C18) A piece is dequeued from a queue that is empty: the last two blocks of a piece arrive when one index is left in the queue. One
  goroutine after the other, the first one stops and the second one takes the index and goes on to reserve its piece. When both have counted
  their blocks before either looks how many are left, and both have found the queue not empty before either dequeues, the second one
  indexes an empty slice: the program panics.
\<close>

theorem last_piece_race_panics:
  assumes "k < length pcs" "PiecePeerMsg_GetBlock p1 = Ok b1" "PiecePeerMsg_GetBlock p2 = Ok b2" "blk_PieceIdx b1 = i" "blk_PieceIdx b2 = i"
    and "awaiting (pcs ! k) r [b1, b2]" "blocks_left (pcs ! k) r = 2"
    and "for_act (SaveBlock flt (cl_FileInfo cl)) [b1, b2] (cl_fs cl) = (fs', Ok ())"
    and "pieces_st n m bl st (cl_pieces cl)" "pc_queue (pcs ! k) = [j]" "0 \<le> i" "i < int n" "0 \<le> j" "j < int n" "j \<noteq> i"
    and "st j = PIECESTATUS_IDLE"
  defines "arrive \<equiv> [Deliver k (PiecePeerMsg p1), Deliver k (PiecePeerMsg p2)]"
  shows "(\<exists>cl' pc'. conc_exec flt (arrive @ replicate 4 (Advance 0) @ replicate 11 (Advance 1)) (cl, pcs, []) =
        (cl', pcs[k := pc'], [(k, Stop), (k, Reserve j)])) \<and>
    (\<exists>cl' pc'. conc_exec flt (arrive @ replicate 3 (Advance 0) @ replicate 3 (Advance 1) @ [Advance 0, Advance 1] @
          replicate 5 (Advance 0) @ replicate 5 (Advance 1) @ replicate 2 (Advance 0)) (cl, pcs, []) =
        (cl', pcs[k := pc'], [(k, Reserve j), (k, Dequeue)]) \<and>
      point_step flt Dequeue (cl', pc') = ((cl', pc'), Panic IndexOutOfRange))"
proof -
  let ?pc = "pcs ! k"
  obtain fs1 where fs: "SaveBlock flt (cl_FileInfo cl) b1 (cl_fs cl) = (fs1, Ok ())" "SaveBlock flt (cl_FileInfo cl) b2 fs1 = (fs', Ok ())"
    using assms(8) by (auto simp: act_bind_eq_Ok)
  let ?cl1 = "cl\<lparr>cl_fs := fs1\<rparr>" and ?cl = "cl\<lparr>cl_fs := fs'\<rparr>"
  obtain pc1 where pc1: "points flt 3 (Dispatch (PiecePeerMsg p1)) (cl, ?pc) = ((?cl1, pc1), Ok (Of_Piece (Checking b1)))"
      "awaiting pc1 r [b2]" "blocks_left pc1 r = 1" "same_conn ?pc pc1"
    using count_points [OF assms(2,6) fs(1)] assms(7) by auto
  have "SaveBlock flt (cl_FileInfo ?cl1) b2 (cl_fs ?cl1) = (fs', Ok ())" using fs(2) by simp
  from count_points [OF assms(3) pc1(2) this] obtain pc2 where
    pc2: "points flt 3 (Dispatch (PiecePeerMsg p2)) (?cl1, pc1) = ((?cl, pc2), Ok (Of_Piece (Checking b2)))" "awaiting pc2 r []"
      "blocks_left pc2 r = 0" "same_conn pc1 pc2"
    using pc1(3) by auto
  have queue: "pc_queue pc2 = [j]" using same_conn_trans [OF pc1(4) pc2(4)] assms(10) by (simp add: same_conn_def)
  have st: "pieces_st n m bl st (cl_pieces ?cl)" using assms(9) by simp
  have check1: "points flt 1 (Of_Piece (Checking b1)) (?cl1, pc1) = ((?cl1, pc1), Ok Stop)"
    using check_points [OF pc1(2), of flt b1] pc1(3) by simp
  have check2: "points flt 1 (Of_Piece (Checking b)) (?cl, pc2) = ((?cl, pc2), Ok (Of_Piece (Resetting b)))" for b
    using check_points [OF pc2(2), of flt b] pc2(3) by simp
  have finish: "\<exists>cl' pc'. points flt 5 (Of_Piece (Resetting b)) (?cl, pc2) = ((cl', pc'), Ok Dequeue) \<and>
      pieces_st n m bl (st(i := PIECESTATUS_DONE)) (cl_pieces cl') \<and> awaiting pc' r [] \<and> pc_queue pc' = [j]" if "blk_PieceIdx b = i" for b
    using finish_points [OF pc2(2) st that assms(11-16), of flt] queue by auto
  obtain cl3 pc3 where pc3: "points flt 5 (Of_Piece (Resetting b2)) (?cl, pc2) = ((cl3, pc3), Ok Dequeue)" "pc_queue pc3 = [j]"
    using finish [OF assms(5)] by blast
  obtain cl4 pc4 where pc4: "points flt 5 (Of_Piece (Resetting b1)) (?cl, pc2) = ((cl4, pc4), Ok Dequeue)" "pc_queue pc4 = [j]"
      "pieces_st n m bl (st(i := PIECESTATUS_DONE)) (cl_pieces cl4)" "awaiting pc4 r []"
    using finish [OF assms(4)] by blast
  obtain cl5 pc5 where pc5: "points flt 5 (Of_Piece (Resetting b2)) (cl4, pc4) = ((cl5, pc5), Ok Dequeue)" "pc_queue pc5 = [j]"
    using finish_points [OF pc4(4,3) assms(5,11-15), of flt] assms(15,16) pc4(2) by auto
  note one = advance_first [OF assms(1)] and two = advance_second [OF assms(1)]
  let ?d1 = "Dispatch (PiecePeerMsg p1)" and ?d2 = "Dispatch (PiecePeerMsg p2)"
  have start: "conc_exec flt (arrive @ es) (cl, pcs, []) = conc_exec flt es (cl, pcs[k := ?pc], [(k, ?d1), (k, ?d2)])" for es
    using assms(1) by (simp add: arrive_def)
  have "conc_exec flt (arrive @ (replicate 3 (Advance 0) @ replicate 1 (Advance 0)) @
      replicate 3 (Advance 1) @ replicate 1 (Advance 1) @ replicate 5 (Advance 1) @ replicate 2 (Advance 1) @ []) (cl, pcs, []) =
      (cl3, pcs[k := pc3\<lparr>pc_queue := []\<rparr>], [(k, Stop), (k, Reserve j)])"
    unfolding start append_assoc one [OF pc1(1)] one [OF check1] two [OF pc2(1)] two [OF check2] two [OF pc3(1)]
      two [OF dequeue_points [OF pc3(2)]] by simp
  moreover have "replicate 4 (Advance 0) = replicate 3 (Advance 0) @ replicate 1 (Advance 0)"
      "replicate 11 (Advance 1) = replicate 3 (Advance 1) @ replicate 1 (Advance 1) @ replicate 5 (Advance 1) @ replicate 2 (Advance 1) @ []"
    by (simp_all add: numeral_eq_Suc)
  ultimately have "conc_exec flt (arrive @ replicate 4 (Advance 0) @ replicate 11 (Advance 1)) (cl, pcs, []) =
      (cl3, pcs[k := pc3\<lparr>pc_queue := []\<rparr>], [(k, Stop), (k, Reserve j)])"
    by (simp only: append_assoc)
  moreover have "conc_exec flt (arrive @ replicate 3 (Advance 0) @ replicate 3 (Advance 1) @ replicate 1 (Advance 0) @
      replicate 1 (Advance 1) @ replicate 5 (Advance 0) @ replicate 5 (Advance 1) @ replicate 2 (Advance 0) @ []) (cl, pcs, []) =
      (cl5, pcs[k := pc5\<lparr>pc_queue := []\<rparr>], [(k, Reserve j), (k, Dequeue)])"
    unfolding start one [OF pc1(1)] two [OF pc2(1)] one [OF check2] two [OF check2] one [OF pc4(1)] two [OF pc5(1)]
      one [OF dequeue_points [OF pc5(2)]] by simp
  then have "conc_exec flt (arrive @ replicate 3 (Advance 0) @ replicate 3 (Advance 1) @ [Advance 0, Advance 1] @
      replicate 5 (Advance 0) @ replicate 5 (Advance 1) @ replicate 2 (Advance 0)) (cl, pcs, []) =
      (cl5, pcs[k := pc5\<lparr>pc_queue := []\<rparr>], [(k, Reserve j), (k, Dequeue)])"
    by (simp only: replicate_Suc replicate_0 One_nat_def append_Cons append_Nil append_Nil2)
  moreover have "point_step flt Dequeue (cl5, pc5\<lparr>pc_queue := []\<rparr>) = ((cl5, pc5\<lparr>pc_queue := []\<rparr>), Panic IndexOutOfRange)"
    by (rule dequeue_nothing) simp
  ultimately show ?thesis by blast
qed

text \<open>A torrent of two pieces of two blocks each: the blocks of the first piece arrive when the second one is the last in the queue.\<close>

definition eight_client :: Client where
  "eight_client = \<lparr>cl_FileInfo = eight_fileinfo, cl_fs = [(''/tmp/blocks'', []), (''/final'', [])], cl_isDownloading = False\<rparr>"

lemma eight_client_facts:
  "cl_FileInfo eight_client = eight_fileinfo" "map_of (cl_fs eight_client) (fi_DownloadedBlocksDir eight_fileinfo) = Some []"
  "BitfieldPeerMsg_GetPieceIndices [3] (int 2 - 1) = Ok [0..int 2 - 1]"
  by (simp_all add: eight_client_def eight_fileinfo_def) code_simp

lemma eight_idle: "pieces_st 2 2 2 (\<lambda>_. PIECESTATUS_IDLE) (fi_Pieces eight_fileinfo)"
proof (rule pieces_st_new [where info = eight_info])
  show "cut_pieces (int 2) (int (2 * 2)) (int 2) (Some eight_info) False = Ok (fi_Pieces eight_fileinfo)" by code_simp
qed (simp_all add: eight_info_def)

definition eight_payload :: "nat \<Rightarrow> bytes" where
  "eight_payload j = GetPayload (BuildPeerPieceMsg (data_block [1, 2, 3, 4, 5, 6, 7, 8] 2 2 0 j))"

theorem last_piece_race_panics_witness:
  "\<exists>cl pc cl' pc'. exec no_faults [Receive (BitfieldPeerMsg [3]), Run 0, Run 0] (eight_client, NewPeerConnection ''peer'') = ((cl, pc), Ok ()) \<and>
    conc_exec no_faults ([Deliver 0 (PiecePeerMsg (eight_payload 0)), Deliver 0 (PiecePeerMsg (eight_payload 1))] @
        replicate 3 (Advance 0) @ replicate 3 (Advance 1) @ [Advance 0, Advance 1] @
        replicate 5 (Advance 0) @ replicate 5 (Advance 1) @ replicate 2 (Advance 0)) (cl, [pc], []) =
      (cl', [pc'], [(0, Reserve 1), (0, Dequeue)]) \<and>
    point_step no_faults Dequeue (cl', pc') = ((cl', pc'), Panic IndexOutOfRange)"
proof -
  let ?b = "data_block [1, 2, 3, 4, 5, 6, 7, 8] 2 2 0"
  obtain cl pc r fs' where s: "exec no_faults [Receive (BitfieldPeerMsg [3]), Run 0, Run 0] (eight_client, NewPeerConnection ''peer'') = ((cl, pc), Ok ())"
      "awaiting pc r [?b 0, ?b 1]" "blocks_left pc r = 2" "rq_totalNumOfBlocks (pc_requesters pc ! r) = 2"
      "for_act (SaveBlock no_faults (cl_FileInfo cl)) [?b 0, ?b 1] (cl_fs cl) = (fs', Ok ())"
      "pieces_st 2 2 2 (progress 0) (cl_pieces cl)" "pc_queue pc = map int [1..<2]"
    by (rule two_blocks_wait [OF _ eight_client_facts(1) eight_idle eight_client_facts(3,2)]) simp
  have payloads: "PiecePeerMsg_GetBlock (eight_payload j) = Ok (?b j)" if "j < 2" for j
    using GetBlock_data_block [of 2 2 2 "[1, 2, 3, 4, 5, 6, 7, 8]" 0 j] that by (simp add: eight_payload_def)
  have "pc_queue ([pc] ! 0) = [1]" "awaiting ([pc] ! 0) r [?b 0, ?b 1]" "blocks_left ([pc] ! 0) r = 2" using s(2,3,7) by (simp_all add: upt_conv_Cons)
  from last_piece_race_panics [OF _ payloads payloads _ _ this(2,3) s(5,6) this(1), of 0 ]
  have "\<exists>cl' pc'. conc_exec no_faults ([Deliver 0 (PiecePeerMsg (eight_payload 0)), Deliver 0 (PiecePeerMsg (eight_payload 1))] @
        replicate 3 (Advance 0) @ replicate 3 (Advance 1) @ [Advance 0, Advance 1] @
        replicate 5 (Advance 0) @ replicate 5 (Advance 1) @ replicate 2 (Advance 0)) (cl, [pc], []) =
      (cl', [pc'], [(0, Reserve 1), (0, Dequeue)]) \<and>
    point_step no_faults Dequeue (cl', pc') = ((cl', pc'), Panic IndexOutOfRange)"
    by (simp add: progress_def data_block_def del: fold_append fold_replicate conc_do.simps point_step.simps)
  then show ?thesis using s(1) by blast
qed

end
