(* ===== verification/Goroutines.thy ===== *)
theory Goroutines
  imports Whole_Download
begin

text \<open>
  The goroutines of a connection come to an end: however they are scheduled, and whether the blocks they wait for arrive or not, only
  finitely many steps are possible, and the retries after timeouts are bounded for the whole connection.
\<close>

section \<open>Steps of the goroutines alone\<close>

inductive task_steps :: "nat \<Rightarrow> PeerConn \<Rightarrow> PeerConn \<Rightarrow> bool" where
  no_step: "task_steps 0 pc pc"
| one_step: "run_task n timeout pc = Some (pc', r) \<Longrightarrow> task_steps k pc' pc'' \<Longrightarrow> task_steps (Suc k) pc pc''"

inductive_cases task_stepsE: "task_steps k pc pc'"

fun is_request :: "task \<Rightarrow> bool" where
  "is_request (RequestTask ptr b) = True"
| "is_request (WaitTask r b ch) = False"

definition to_request :: "PeerConn \<Rightarrow> nat" where
  "to_request pc = length (filter is_request (pc_tasks pc))"

text \<open>A request is a step and starts a goroutine that waits; a timeout uses up one of the four misfires.\<close>

definition work :: "PeerConn \<Rightarrow> nat" where
  "work pc = length (pc_tasks pc) + to_request pc + (4 - pc_misfires pc)"

definition sendable :: "PeerConn \<Rightarrow> nat" where
  "sendable pc = length (pc_out pc) + to_request pc + (3 - pc_misfires pc)"

lemma request_work:
  assumes "request ptr b pc = (pc', r)"
  shows "length (pc_tasks pc') \<le> Suc (length (pc_tasks pc)) \<and> to_request pc' = to_request pc \<and>
    pc_misfires pc' = pc_misfires pc \<and> length (pc_out pc') \<le> Suc (length (pc_out pc))"
  using assms
  by (auto simp: request_def with_requester_def set_requester_def WritePeerMsg_def send_err_def to_request_def Let_def
      split: option.splits if_splits res.splits)

lemma run_task_work:
  assumes "run_task n timeout pc = Some (pc', r)"
  shows "work pc' < work pc" and "sendable pc' \<le> sendable pc"
proof -
  let ?t = "pc_tasks pc ! n" and ?pc = "pc\<lparr>pc_tasks := take n (pc_tasks pc) @ drop (Suc n) (pc_tasks pc)\<rparr>"
  have n: "n < length (pc_tasks pc)" using assms by (auto simp: run_task_def split: if_splits)
  have split: "pc_tasks pc = take n (pc_tasks pc) @ ?t # drop (Suc n) (pc_tasks pc)" by (rule id_take_nth_drop [OF n])
  have len: "Suc (length (pc_tasks ?pc)) = length (pc_tasks pc)" using n by simp
  have reqs: "to_request pc = to_request ?pc + (if is_request ?t then 1 else 0)"
    unfolding to_request_def by (subst split) simp
  have "work pc' < work pc \<and> sendable pc' \<le> sendable pc"
  proof (cases ?t)
    case (RequestTask ptr b)
    then have "request ptr b ?pc = (pc', r)" using assms n by (auto simp: run_task_def Let_def split: if_splits)
    from request_work [OF this] show ?thesis using RequestTask len reqs n by (simp add: work_def sendable_def)
  next
    case (WaitTask q b ch)
    let ?ready = "DefaultWasBlockReceived (pc_chans pc ! ch)" and ?mis = "?pc\<lparr>pc_misfires := pc_misfires pc + 1\<rparr>"
    have "after_wait q b ?ready ?pc = (pc', r)"
      using assms n WaitTask by (auto simp: run_task_def Let_def split: if_splits)
    then consider "pc' = ?pc" | "pc_misfires pc \<ge> 3" "pc' = MakeWeak ?mis"
      | "pc_misfires pc < 3" "request (Some q) b ?mis = (pc', r)"
      by (auto simp: after_wait_def BlockRequestTotalAllowedMisfires_def Let_def split: if_splits)
    then show ?thesis
    proof cases
      case 3
      from request_work [OF 3(2)] show ?thesis
        using 3(1) WaitTask len reqs n by (simp add: work_def sendable_def to_request_def) arith
    qed (use WaitTask len reqs n in \<open>auto simp: work_def sendable_def to_request_def MakeWeak_def\<close>)
  qed
  then show "work pc' < work pc" "sendable pc' \<le> sendable pc" by simp_all
qed

lemma task_steps_work: "task_steps k pc pc' \<Longrightarrow> k + work pc' \<le> work pc \<and> sendable pc' \<le> sendable pc"
  by (induction rule: task_steps.induct) (auto dest: run_task_work)

text \<open>A goroutine can always take a step: a waiting one by its channel or by its timeout.\<close>

lemma run_task_enabled: "(\<exists>n timeout. run_task n timeout pc \<noteq> None) \<longleftrightarrow> pc_tasks pc \<noteq> []"
proof
  assume "pc_tasks pc \<noteq> []"
  then obtain t ts where ts: "pc_tasks pc = t # ts" by (cases "pc_tasks pc") auto
  show "\<exists>n timeout. run_task n timeout pc \<noteq> None"
  proof (cases t)
    case (RequestTask ptr b)
    then have "run_task 0 False pc \<noteq> None" by (simp add: run_task_def ts)
    then show ?thesis by blast
  next
    case (WaitTask r b ch)
    then have "run_task 0 (\<not> DefaultWasBlockReceived (pc_chans pc ! ch)) pc \<noteq> None" by (simp add: run_task_def ts)
    then show ?thesis by blast
  qed
qed (auto simp: run_task_def)

section \<open>Properties\<close>



end
