(* ===== verification/Settling.thy ===== *)
theory Settling
  imports Lost_Updates Goroutines
begin

text \<open>
  Everything that a client has running comes to an end. The loop of \<open>RequestNextPiece\<close> reads and writes a queue that other goroutines write as
  well, so that a queue can be as long after an iteration as before it; but what is written was read before, and is shorter.
\<close>

section \<open>Steps without new messages\<close>

inductive settle_step :: "conc_state \<Rightarrow> conc_state \<Rightarrow> bool" where
  settle_point: "n < length gs \<Longrightarrow> gs ! n = (k, g) \<Longrightarrow> k < length pcs \<Longrightarrow> g \<noteq> Stop \<Longrightarrow>
     after_point flt g (cl, pcs ! k) = ((cl', pc'), g') \<Longrightarrow> settle_step (cl, pcs, gs) (cl', pcs[k := pc'], gs[n := (k, g')])"
| settle_task: "k < length pcs \<Longrightarrow> run_task n timeout (pcs ! k) = Some (pc', r) \<Longrightarrow> settle_step (cl, pcs, gs) (cl, pcs[k := pc'], gs)"

lemma settle_conc: "settle_step s t \<Longrightarrow> conc_step s t"
  by (erule settle_step.cases) (auto intro: conc_point conc_client step_task)

section \<open>How far a handler is\<close>

text \<open>Outside of the loop every step leads to a point of a lower rank.\<close>

fun stage_rank :: "stage \<Rightarrow> nat" where
  "stage_rank (Received payload) = 12"
| "stage_rank (Counting b) = 11"
| "stage_rank (Saving b) = 10"
| "stage_rank (Checking b) = 9"
| "stage_rank (Resetting b) = 8"
| "stage_rank (Marking b) = 7"
| "stage_rank Advancing = 7"
| "stage_rank Finished = 1"

fun rank :: "point \<Rightarrow> nat" where
  "rank (Dispatch m) = 12"
| "rank (Of_Piece g) = stage_rank g"
| "rank (Bits_Parse p w) = 9" | "rank (Bits_Merge ks w) = 8" | "rank (Bits_Store q w) = 7" | "rank Bits_First = 6"
| "rank (Have_Parse p w) = 9" | "rank (Have_Known i w) = 8" | "rank (Have_Append i w) = 7" | "rank (Have_Store i q w) = 6"
| "rank Undone_Count = 6" | "rank (New_Requester i) = 5" | "rank (Install_Requester n) = 4"
| "rank Looper = 3" | "rank Mark_Downloading = 3" | "rank Dequeue = 3" | "rank (Dequeued i q) = 3" | "rank (Reserve i) = 3"
| "rank Hello_Count = 3" | "rank Hello_Build = 2" | "rank (Reading_Block b) = 2" | "rank Finish_Mark = 2" | "rank (Fetch i) = 2"
| "rank (Writing m) = 1" | "rank Finalizing = 1" | "rank Not_Downloading = 1" | "rank (Request_Blocks bs) = 1"
| "rank Stop = 0"

text \<open>Where in an iteration of the loop, when the goroutine holds no queue that it will write.\<close>

fun lap :: "point \<Rightarrow> nat option" where
  "lap (Reserve i) = Some 3"
| "lap Looper = Some 2"
| "lap Mark_Downloading = Some 1"
| "lap Dequeue = Some 0"
| "lap g = None"

lemma rank_pos: "g \<noteq> Stop \<Longrightarrow> 0 < rank g"
proof (cases g)
  case (Of_Piece st)
  then show ?thesis by (cases st) simp_all
qed simp_all

lemma stage_down:
  "stage_step flt st s = (s', Ok st') \<Longrightarrow> rank (stage_point st') < stage_rank st"
  by (cases st) (auto simp: act_bind_eq_Ok ret_def stage_point_def split: prod.splits res.splits if_splits)

lemma next_point:
  assumes "point_step flt g (cl, pc) = ((cl', pc'), Ok g')" "g \<noteq> Stop"
  obtains (down) "rank g' < rank g"
  | (ask) b bs where "g = Request_Blocks (b # bs)" "g' = Request_Blocks bs" "pc_queue pc' = pc_queue pc"
  | (loop) l l' where "lap g = Some l" "lap g' = Some l'" "l' < l" "rank g' = rank g" "pc_queue pc' = pc_queue pc"
  | (reads) i where "g = Dequeue" "g' = Dequeued i (tl (pc_queue pc))" "pc_queue pc \<noteq> []" "pc_queue pc' = pc_queue pc"
  | (writes) i q where "g = Dequeued i q" "g' = Reserve i" "pc_queue pc' = q"
proof (cases g)
  case (Dispatch m)
  then show thesis using assms(1) down by (cases m) (auto simp: act_bind_eq_Ok ret_def)
next
  case (Of_Piece st)
  then show thesis using assms(1) down stage_down by (auto simp: act_bind_eq_Ok ret_def simp del: stage_step.simps)
next
  case (Request_Blocks bs)
  then show thesis using assms(1) down ask
    by (cases bs) (auto simp: act_bind_eq_Ok ret_def go_request_def on_conn_def)
next
  case Looper
  then have "(pc_queue pc = [] \<and> g' = Not_Downloading) \<or> (g' = Mark_Downloading \<and> pc' = pc)"
    using assms(1) by (cases "pc_queue pc = []") (simp_all add: act_bind_def ret_def read_queue_def)
  then show thesis using down loop [of 2 1] Looper by auto
next
  case Mark_Downloading
  then have "g' = Dequeue" "pc_queue pc' = pc_queue pc"
    using assms(1) by (auto simp: act_bind_def ret_def set_downloading_def mark_downloading_def)
  then show thesis using loop [of 1 0] Mark_Downloading by simp
next
  case Dequeue
  then have "pc_queue pc \<noteq> [] \<and> g' = Dequeued (hd (pc_queue pc)) (tl (pc_queue pc)) \<and> pc' = pc"
    using assms(1) by (cases "pc_queue pc") (simp_all add: act_bind_def ret_def read_queue_def slice_get_def)
  then show thesis using reads Dequeue by simp
next
  case (Dequeued i q)
  then have "g' = Reserve i" "pc_queue pc' = q" using assms(1) by (auto simp: act_bind_def ret_def write_queue_def on_conn_def)
  then show thesis using writes Dequeued by simp
next
  case (Reserve i)
  then obtain ok where "g' = (if ok then Fetch i else Looper)" "pc' = pc"
    using assms(1) by (auto simp: act_bind_eq_Ok ret_def reserve_piece_def split: res.splits prod.splits)
  then show thesis using down loop [of 3 2] Reserve by (cases ok) simp_all
qed (rule down; use assms in \<open>auto simp: act_bind_eq_Ok ret_def split: if_splits option.splits\<close>)+

lemma after_point_cases:
  assumes "after_point flt g (cl, pc) = ((cl', pc'), g')" "g \<noteq> Stop"
  obtains (down) "rank g' < rank g"
  | (ask) b bs where "g = Request_Blocks (b # bs)" "g' = Request_Blocks bs" "pc_queue pc' = pc_queue pc"
  | (loop) l l' where "lap g = Some l" "lap g' = Some l'" "l' < l" "rank g' = rank g" "pc_queue pc' = pc_queue pc"
  | (reads) i where "g = Dequeue" "g' = Dequeued i (tl (pc_queue pc))" "pc_queue pc \<noteq> []" "pc_queue pc' = pc_queue pc"
  | (writes) i q where "g = Dequeued i q" "g' = Reserve i" "pc_queue pc' = q"
proof (cases "g' = Stop")
  case True
  then show thesis using down rank_pos [OF assms(2)] by simp
next
  case False
  then have "point_step flt g (cl, pc) = ((cl', pc'), Ok g')"
    using assms(1) by (auto simp: after_point_def split: prod.splits res.splits)
  from this assms(2) show thesis
  proof (cases rule: next_point)
    case down
    then show thesis by (rule that(1))
  next
    case ask
    then show thesis by (rule that(2))
  next
    case loop
    then show thesis by (rule that(3))
  next
    case reads
    then show thesis by (rule that(4))
  next
    case writes
    then show thesis by (rule that(5))
  qed
qed

section \<open>The measure\<close>

text \<open>
  \<open>room c q\<close> bounds the steps in the loop of a goroutine that finds a queue of length \<open>q\<close>, when \<open>c\<close> goroutines are running. A goroutine that holds a
  queue pays for what its write lets the others do.
\<close>

fun room :: "nat \<Rightarrow> nat \<Rightarrow> nat" where
  "room c 0 = 0"
| "room c (Suc q) = (c + 1) * room c q + 5"

fun laps :: "nat \<Rightarrow> nat \<Rightarrow> point \<Rightarrow> nat" where
  "laps c q (Dequeued i rest) = (c + 1) * room c (length rest) + 4"
| "laps c q g = (case lap g of None \<Rightarrow> 0 | Some l \<Rightarrow> room c q + l)"

fun to_ask :: "point \<Rightarrow> nat" where
  "to_ask (Request_Blocks bs) = length bs"
| "to_ask g = 0"

text \<open>What the handlers and the goroutines of the requesters still have before them.\<close>

definition ranks :: "conc_state \<Rightarrow> nat" where
  "ranks = (\<lambda>(cl, pcs, gs). sum_list (map (\<lambda>(k, g). rank g) gs))"

definition asks :: "conc_state \<Rightarrow> nat" where
  "asks = (\<lambda>(cl, pcs, gs). sum_list (map (\<lambda>(k, g). to_ask g) gs))"

definition all_laps :: "conc_state \<Rightarrow> nat" where
  "all_laps = (\<lambda>(cl, pcs, gs). sum_list (map (\<lambda>(k, g). laps (length gs) (length (pc_queue (pcs ! k))) g) gs))"

definition works :: "conc_state \<Rightarrow> nat" where
  "works = (\<lambda>(cl, pcs, gs). sum_list (map work pcs))"

lemma sum_list_exchange:
  "i < length xs \<Longrightarrow> sum_list (map f (xs[i := y])) + f (xs ! i) = sum_list (map f xs) + (f y :: nat)"
proof (induction xs arbitrary: i)
  case (Cons x xs)
  then show ?case by (cases i) (auto simp: algebra_simps)
qed simp

lemma sum_list_smaller: "i < length xs \<Longrightarrow> f y < (f (xs ! i) :: nat) \<Longrightarrow> sum_list (map f (xs[i := y])) < sum_list (map f xs)"
  using sum_list_exchange [of i xs f y] by simp

lemma sum_list_same: "i < length xs \<Longrightarrow> f y = (f (xs ! i) :: nat) \<Longrightarrow> sum_list (map f (xs[i := y])) = sum_list (map f xs)"
  using sum_list_exchange [of i xs f y] by simp

lemma run_task_queue: "run_task n timeout pc = Some (pc', r) \<Longrightarrow> pc_queue pc' = pc_queue pc"
  by (auto simp: run_task_def request_def after_wait_def with_requester_def set_requester_def WritePeerMsg_def send_err_def MakeWeak_def Let_def
      split: option.splits if_splits res.splits task.splits)

text \<open>A step that writes the queue: every goroutine may find it longer, and the one that writes has paid for that.\<close>

lemma laps_other: "laps c q' g \<le> laps c q g + room c q'"
  by (cases g) (auto split: option.splits)

lemma sum_list_laps:
  "sum_list (map (\<lambda>(k, g). laps c (queue' k) g) gs) \<le> sum_list (map (\<lambda>(k, g). laps c (queue k) g) gs) + length gs * room c h"
  if "\<And>k. queue' k = queue k \<or> queue' k = h" for queue queue' :: "nat \<Rightarrow> nat"
proof (induction gs)
  case (Cons kg gs)
  obtain k g where kg: "kg = (k, g)" by (cases kg)
  have "laps c (queue' k) g \<le> laps c (queue k) g + room c h" using that [of k] laps_other [of c h g "queue k"] by auto
  then show ?case using Cons.IH by (simp add: kg)
qed simp

lemma all_laps_writes:
  assumes "n < length gs" "gs ! n = (k, Dequeued i q)" "k < length pcs" "pc_queue pc' = q"
  shows "all_laps (cl', pcs[k := pc'], gs[n := (k, Reserve i)]) < all_laps (cl, pcs, gs)"
proof -
  let ?c = "length gs" and ?h = "length q"
  let ?new = "\<lambda>(j, g). laps ?c (length (pc_queue (pcs[k := pc'] ! j))) g" and ?old = "\<lambda>(j, g). laps ?c (length (pc_queue (pcs ! j))) g"
  have "sum_list (map ?new (gs[n := (k, Reserve i)])) + ((?c + 1) * room ?c ?h + 4) = sum_list (map ?new gs) + (room ?c ?h + 3)"
    using sum_list_exchange [OF assms(1), of ?new "(k, Reserve i)"] assms by simp
  moreover have "sum_list (map ?new gs) \<le> sum_list (map ?old gs) + ?c * room ?c ?h"
    by (rule sum_list_laps) (use assms(3,4) in \<open>metis nth_list_update\<close>)
  ultimately show ?thesis by (simp add: all_laps_def)
qed

lemma queue_update: "k < length pcs \<Longrightarrow> pc_queue pc' = pc_queue (pcs ! k) \<Longrightarrow> pc_queue (pcs[k := pc'] ! j) = pc_queue (pcs ! j)"
  by (cases "j = k") simp_all

lemma all_laps_same_queue:
  assumes "n < length gs" "gs ! n = (k, g)" "k < length pcs" "pc_queue pc' = pc_queue (pcs ! k)"
    "laps (length gs) (length (pc_queue (pcs ! k))) g' < laps (length gs) (length (pc_queue (pcs ! k))) g"
  shows "all_laps (cl', pcs[k := pc'], gs[n := (k, g')]) < all_laps (cl, pcs, gs)"
  using sum_list_smaller [OF assms(1)] assms(2,5) queue_update [OF assms(3,4)] by (simp add: all_laps_def)

lemma settle_decreases:
  assumes "settle_step s t"
  shows "(t, s) \<in> measures [ranks, asks, all_laps, works]"
  using assms
proof cases
  case (settle_point n gs k g pcs flt cl cl' pc' g')
  note s = settle_point(1,2) and n = settle_point(3) and at = settle_point(4)
  from settle_point(7,6) show ?thesis
  proof (cases rule: after_point_cases)
    case down
    then have "ranks t < ranks s" using sum_list_smaller [OF n, of "\<lambda>(k, g). rank g" "(k, g')"] at by (simp add: s ranks_def)
    then show ?thesis by simp
  next
    case (ask b bs)
    then have "ranks t = ranks s" "asks t < asks s"
      using sum_list_same [OF n, of "\<lambda>(k, g). rank g" "(k, g')"] sum_list_smaller [OF n, of "\<lambda>(k, g). to_ask g" "(k, g')"] at
      by (simp_all add: s ranks_def asks_def)
    then show ?thesis by simp
  next
    case (loop l l')
    then have "to_ask g' = to_ask g" by (cases g; cases g') simp_all
    then have "ranks t = ranks s" "asks t = asks s"
      using sum_list_same [OF n, of "\<lambda>(k, g). rank g" "(k, g')"] sum_list_same [OF n, of "\<lambda>(k, g). to_ask g" "(k, g')"] at loop(4)
      by (simp_all add: s ranks_def asks_def)
    moreover have "laps c q g' < laps c q g" for c q using loop(1-3) by (cases g; cases g') auto
    then have "all_laps t < all_laps s" unfolding s by (rule all_laps_same_queue [OF n at settle_point(5) loop(5)])
    ultimately show ?thesis by simp
  next
    case (reads i)
    then have "ranks t = ranks s" "asks t = asks s"
      using sum_list_same [OF n, of "\<lambda>(k, g). rank g" "(k, g')"] sum_list_same [OF n, of "\<lambda>(k, g). to_ask g" "(k, g')"] at
      by (simp_all add: s ranks_def asks_def)
    moreover have "all_laps t < all_laps s"
      unfolding s by (rule all_laps_same_queue [OF n at settle_point(5) reads(4)], cases "pc_queue (pcs ! k)") (use reads in simp_all)
    ultimately show ?thesis by simp
  next
    case (writes i q)
    then have "ranks t = ranks s" "asks t = asks s"
      using sum_list_same [OF n, of "\<lambda>(k, g). rank g" "(k, g')"] sum_list_same [OF n, of "\<lambda>(k, g). to_ask g" "(k, g')"] at
      by (simp_all add: s ranks_def asks_def)
    moreover have "all_laps t < all_laps s" using all_laps_writes [OF n _ settle_point(5)] at writes by (simp add: s)
    ultimately show ?thesis by simp
  qed
next
  case (settle_task k pcs n timeout pc' r cl gs)
  have "all_laps t = all_laps s"
    using queue_update [OF settle_task(3) run_task_queue [OF settle_task(4)]] by (simp add: settle_task(1,2) all_laps_def)
  moreover have "works t < works s"
    using sum_list_smaller [of k pcs work pc'] run_task_work(1) settle_task(3,4) by (simp add: settle_task(1,2) works_def)
  ultimately show ?thesis by (simp add: settle_task(1,2) ranks_def asks_def)
qed

section \<open>Everything comes to an end\<close>

definition at_rest :: "conc_state \<Rightarrow> bool" where
  "at_rest = (\<lambda>(cl, pcs, gs). filter (\<lambda>(k, g). k < length pcs \<and> g \<noteq> Stop) gs = [] \<and> concat (map pc_tasks pcs) = [])"

lemma at_rest_iff:
  "at_rest (cl, pcs, gs) \<longleftrightarrow> (\<forall>n < length gs. \<forall>k g. gs ! n = (k, g) \<and> k < length pcs \<longrightarrow> g = Stop) \<and> (\<forall>k < length pcs. pc_tasks (pcs ! k) = [])"
  by (auto simp: at_rest_def filter_empty_conv all_set_conv_all_nth split: prod.splits)

lemma settled_iff: "(\<nexists>t. settle_step s t) \<longleftrightarrow> at_rest s"
proof -
  obtain cl pcs gs where s: "s = (cl, pcs, gs)" by (cases s)
  have "\<exists>t. settle_step s t" if "n < length gs" "gs ! n = (k, g)" "k < length pcs" "g \<noteq> Stop" for n k g
  proof -
    obtain cl' pc' g' where "after_point no_faults g (cl, pcs ! k) = ((cl', pc'), g')"
      by (cases "after_point no_faults g (cl, pcs ! k)") auto
    then show ?thesis unfolding s using settle_point that by blast
  qed
  moreover have "\<exists>t. settle_step s t" if "k < length pcs" "pc_tasks (pcs ! k) \<noteq> []" for k
    using settle_task that run_task_enabled [of "pcs ! k"] unfolding s by (metis not_None_eq old.prod.exhaust)
  moreover have "\<not> settle_step s t" if "at_rest s" for t
  proof
    assume "settle_step s t"
    then show False
      using that run_task_enabled unfolding s by cases (auto simp: at_rest_iff, metis option.distinct(1))
  qed
  ultimately show ?thesis unfolding s at_rest_iff by blast
qed


end
