(* ===== verification/Printing.thy ===== *)
theory Printing
  imports Files Peers
begin

text \<open>
  The \<open>String\<close> methods, with which messages, blocks, peers and connections are logged, and the two verbs of \<^verbatim>\<open>fmt\<close> and the function of \<^verbatim>\<open>strconv\<close> that
  they and the test peers need. A logged message can be read back, except a PIECE, of which only the length is printed.
\<close>

section \<open>Numbers and bytes\<close>

text \<open>\<open>%d\<close> of an \<open>int\<close>, \<open>%v\<close> of a byte slice, \<open>%x\<close> of a byte slice; and \<open>strconv.Atoi\<close> of digits.\<close>

definition fmt_d :: "int \<Rightarrow> string" where
  "fmt_d i = (if i < 0 then CHR ''-'' # dec_digits (nat (- i)) else dec_digits (nat i))"

definition spaced :: "bytes \<Rightarrow> string" where
  "spaced b = concat (map (\<lambda>x. CHR '' '' # dec_digits (unat x)) b)"

definition fmt_v :: "bytes \<Rightarrow> string" where
  "fmt_v b = ''['' @ tl (spaced b) @ '']''"

definition hex_char :: "nat \<Rightarrow> char" where
  "hex_char n = (if n < 10 then digit_char n else char_of (87 + n))"

definition fmt_x :: "bytes \<Rightarrow> string" where
  "fmt_x b = concat (map (\<lambda>x. [hex_char (unat x div 16), hex_char (unat x mod 16)]) b)"

definition Atoi :: "string \<Rightarrow> int" where
  "Atoi s = foldl (\<lambda>n c. 10 * n + (of_char c - 48)) 0 s"

section \<open>Strings of messages and blocks\<close>

definition HavePeerMsg_String :: "bytes \<Rightarrow> string" where
  "HavePeerMsg_String payload = ''HavePeerMsg{Payload: '' @ fmt_v payload @ ''}''"

definition RequestPeerMsg_String :: "bytes \<Rightarrow> string" where
  "RequestPeerMsg_String payload = ''RequestPeerMsg{Payload: '' @ fmt_v payload @ ''}''"

definition HandshakePeerMsg_String :: "bytes \<Rightarrow> string" where
  "HandshakePeerMsg_String payload = ''HandshakePeerMsg{Payload: '' @ fmt_v payload @ ''}''"

definition BitfieldPeerMsg_String :: "bytes \<Rightarrow> string" where
  "BitfieldPeerMsg_String payload = ''BitfieldPeerMsg{Payload: '' @ fmt_v payload @ ''}''"

definition PiecePeerMsg_String :: "bytes \<Rightarrow> string" where
  "PiecePeerMsg_String payload = ''PiecePeerMsg{len(Payload): '' @ fmt_d (int (length payload)) @ ''}''"

definition ChokedPeerMsg_String :: string where
  "ChokedPeerMsg_String = ''ChokedPeerMsg''"

definition UnchokedPeerMsg_String :: string where
  "UnchokedPeerMsg_String = ''UnchokedPeerMsg''"

definition InterestedPeerMsg_String :: string where
  "InterestedPeerMsg_String = ''InterestedPeerMsg''"

definition NotInterestedPeerMsg_String :: string where
  "NotInterestedPeerMsg_String = ''NotInterestedPeerMsg''"

definition KeepAlivePeerMsg_String :: string where
  "KeepAlivePeerMsg_String = ''KeepAlivePeerMsg''"

fun PeerMsg_String :: "PeerMsg \<Rightarrow> string" where
  "PeerMsg_String (HandshakePeerMsg p) = HandshakePeerMsg_String p"
| "PeerMsg_String (KeepAlivePeerMsg p) = KeepAlivePeerMsg_String"
| "PeerMsg_String (ChokedPeerMsg p) = ChokedPeerMsg_String"
| "PeerMsg_String (UnchokedPeerMsg p) = UnchokedPeerMsg_String"
| "PeerMsg_String (InterestedPeerMsg p) = InterestedPeerMsg_String"
| "PeerMsg_String (NotInterestedPeerMsg p) = NotInterestedPeerMsg_String"
| "PeerMsg_String (HavePeerMsg p) = HavePeerMsg_String p"
| "PeerMsg_String (BitfieldPeerMsg p) = BitfieldPeerMsg_String p"
| "PeerMsg_String (RequestPeerMsg p) = RequestPeerMsg_String p"
| "PeerMsg_String (PiecePeerMsg p) = PiecePeerMsg_String p"

definition Block_String :: "Block \<Rightarrow> string" where
  "Block_String self =
     (if length (blk_Buff self) > 4
      then ''Block{PieceIdx:'' @ fmt_d (blk_PieceIdx self) @ '' | blockIdx:'' @ fmt_d (blk_Idx self) @ '', len:'' @
        fmt_d (int (length (blk_Buff self))) @ '', buff[0:4]:'' @ fmt_x (take 4 (blk_Buff self)) @ ''}''
      else ''Block{PieceIdx:'' @ fmt_d (blk_PieceIdx self) @ '' | blockIdx:'' @ fmt_d (blk_Idx self) @ '', len:'' @
        fmt_d (int (length (blk_Buff self))) @ ''}'')"

section \<open>A logged message can be read back\<close>

lemma digit_char_value:
  assumes "d < 10"
  shows "of_char (digit_char d) = (48 + of_nat d :: int)"
proof -
  have "of_char (digit_char d) = 48 + d" using assms by (simp add: digit_char_def)
  then have "int (of_char (digit_char d)) = int (48 + d)" by (rule arg_cong)
  then show ?thesis unfolding of_nat_of_char by simp
qed

lemma Atoi_dec_digits: "Atoi (dec_digits n) = int n"
proof (induction n rule: dec_digits.induct)
  case (1 n)
  show ?case
  proof (cases "n < 10")
    case True
    then show ?thesis by (simp add: dec_digits.simps [of n] Atoi_def digit_char_value)
  next
    case False
    have "Atoi (dec_digits n) = 10 * Atoi (dec_digits (n div 10)) + int (n mod 10)"
      using False by (simp add: dec_digits.simps [of n] Atoi_def digit_char_value)
    then show ?thesis using 1 False by (simp add: zdiv_int zmod_int)
  qed
qed

lemma dec_digits_no_space: "CHR '' '' \<notin> set (dec_digits n)"
proof (induction n rule: dec_digits.induct)
  case (1 n)
  have "of_char (digit_char d) \<noteq> (of_char (CHR '' '') :: nat)" if "d < 10" for d
    using that by (simp add: digit_char_def of_char_of)
  then have "digit_char d \<noteq> CHR '' ''" if "d < 10" for d using that by metis
  from this [of n] this [of "n mod 10"] show ?case
    using 1 by (cases "n < 10") (auto simp: dec_digits.simps [of n])
qed

lemma spaced_inj: "spaced a = spaced b \<Longrightarrow> a = b"
proof (induction a arbitrary: b)
  case Nil
  then show ?case by (cases b) (simp_all add: spaced_def)
next
  case (Cons x a)
  then obtain y c where b: "b = y # c" by (cases b) (simp_all add: spaced_def)
  have split: "takeWhile (\<lambda>k. k \<noteq> CHR '' '') (dec_digits n @ spaced d) = dec_digits n \<and>
      dropWhile (\<lambda>k. k \<noteq> CHR '' '') (dec_digits n @ spaced d) = spaced d" for n d
    using dec_digits_no_space [of n]
    by (cases d) (auto simp: takeWhile_append2 dropWhile_append2 spaced_def takeWhile_eq_all_conv dropWhile_eq_Nil_conv
        takeWhile_append dropWhile_append)
  have "dec_digits (unat x) @ spaced a = dec_digits (unat y) @ spaced c" using Cons.prems by (simp add: b spaced_def)
  then have "dec_digits (unat x) = dec_digits (unat y)" "spaced a = spaced c" using split by metis+
  then have "int (unat x) = int (unat y)" "a = c" using Atoi_dec_digits Cons.IH by metis+
  then have "unat x = unat y" by (simp only: of_nat_eq_iff)
  then have "x = y" by (simp only: word_unat_eq_iff)
  then show ?case using \<open>a = c\<close> by (simp add: b)
qed

lemma fmt_v_inj: "fmt_v a = fmt_v b \<Longrightarrow> a = b"
proof -
  assume "fmt_v a = fmt_v b"
  then have tl: "tl (spaced a) = tl (spaced b)" by (simp add: fmt_v_def)
  have head: "spaced c = CHR '' '' # tl (spaced c)" "tl (spaced c) \<noteq> []" if "c \<noteq> []" for c
    using that by (cases c; simp add: spaced_def dec_digits.simps [of "unat _"])+
  have "tl (spaced []) = []" by (simp add: spaced_def)
  then have "a = [] \<longleftrightarrow> b = []" using tl head(2) by metis
  then have "spaced a = spaced b" using tl head(1) [of a] head(1) [of b] by (cases "a = []") auto
  then show "a = b" by (rule spaced_inj)
qed

text \<open>The first three letters tell the type.\<close>

fun type_letters :: "PeerMsg \<Rightarrow> string" where
  "type_letters (HandshakePeerMsg p) = ''Han''"
| "type_letters (KeepAlivePeerMsg p) = ''Kee''"
| "type_letters (ChokedPeerMsg p) = ''Cho''"
| "type_letters (UnchokedPeerMsg p) = ''Unc''"
| "type_letters (InterestedPeerMsg p) = ''Int''"
| "type_letters (NotInterestedPeerMsg p) = ''Not''"
| "type_letters (HavePeerMsg p) = ''Hav''"
| "type_letters (BitfieldPeerMsg p) = ''Bit''"
| "type_letters (RequestPeerMsg p) = ''Req''"
| "type_letters (PiecePeerMsg p) = ''Pie''"

lemmas PeerMsg_String_defs = HavePeerMsg_String_def RequestPeerMsg_String_def HandshakePeerMsg_String_def BitfieldPeerMsg_String_def
  PiecePeerMsg_String_def ChokedPeerMsg_String_def UnchokedPeerMsg_String_def InterestedPeerMsg_String_def
  NotInterestedPeerMsg_String_def KeepAlivePeerMsg_String_def

lemma take_PeerMsg_String: "take 3 (PeerMsg_String m) = type_letters m"
  by (cases m) (simp_all add: PeerMsg_String_defs)

lemma same_letters: "type_letters m = type_letters m' \<Longrightarrow> SetPayload [] m = SetPayload [] m'"
  by (cases m; cases m') simp_all

lemma fmt_d_inj: "fmt_d (int k) = fmt_d (int l) \<longleftrightarrow> k = l"
proof -
  have "fmt_d (int n) = dec_digits n" for n by (simp add: fmt_d_def)
  then show ?thesis by (metis Atoi_dec_digits of_nat_eq_iff)
qed

lemma String_inj:
  "HavePeerMsg_String p = HavePeerMsg_String q \<longleftrightarrow> p = q"
  "RequestPeerMsg_String p = RequestPeerMsg_String q \<longleftrightarrow> p = q"
  "HandshakePeerMsg_String p = HandshakePeerMsg_String q \<longleftrightarrow> p = q"
  "BitfieldPeerMsg_String p = BitfieldPeerMsg_String q \<longleftrightarrow> p = q"
  "PiecePeerMsg_String p = PiecePeerMsg_String q \<longleftrightarrow> length p = length q"
  using fmt_v_inj [of p q] by (auto simp: PeerMsg_String_defs fmt_d_inj)

text \<open>
  Logged messages: two well-formed messages that print the same are the same, unless they are PIECE messages, which print
  the same exactly when they are equally long.
\<close>

theorem PeerMsg_String_exact:
  assumes "wf_msg m" "wf_msg m'"
  shows "PeerMsg_String m = PeerMsg_String m' \<longleftrightarrow>
    m = m' \<or> (\<exists>p p'. m = PiecePeerMsg p \<and> m' = PiecePeerMsg p' \<and> length p = length p')"
proof (cases "SetPayload [] m = SetPayload [] m'")
  case True
  then show ?thesis using assms by (cases m; cases m'; simp add: String_inj) auto
next
  case False
  then have "PeerMsg_String m \<noteq> PeerMsg_String m'" using same_letters take_PeerMsg_String by metis
  then show ?thesis using False by auto
qed

section \<open>Peers and connections\<close>

text \<open>
  \<open>net.IP.String\<close>: an IPv4 address with dots, also when it is held in 16 bytes; an IPv6 address as eight hexadecimal groups, the first
  longest run of at least two zero groups written \<^verbatim>\<open>::\<close>; and anything else as it is. Then \<open>net.JoinHostPort\<close>.
\<close>

fun joined :: "string \<Rightarrow> string list \<Rightarrow> string" where
  "joined sep [] = ''''"
| "joined sep [s] = s"
| "joined sep (s # t # ss) = s @ sep @ joined sep (t # ss)"

definition To4 :: "bytes \<Rightarrow> bytes option" where
  "To4 ip = (if length ip = 4 then Some ip
     else if length ip = 16 \<and> take 12 ip = [0, 0, 0, 0, 0, 0, 0, 0, 0, 0, 255, 255] then Some (drop 12 ip)
     else None)"

fun hex_digits :: "nat \<Rightarrow> string" where
  "hex_digits n = (if n < 16 then [hex_char n] else hex_digits (n div 16) @ [hex_char (n mod 16)])"

declare hex_digits.simps [simp del]

fun ip_groups :: "bytes \<Rightarrow> nat list" where
  "ip_groups (a # b # ip) = (256 * unat a + unat b) # ip_groups ip"
| "ip_groups ip = []"

definition IPv6_String :: "bytes \<Rightarrow> string" where
  "IPv6_String ip =
     (let gs = ip_groups ip; runs = map (\<lambda>i. length (takeWhile (\<lambda>g. g = 0) (drop i gs))) [0..<length gs];
          longest = foldr max runs 0; first = length (takeWhile (\<lambda>r. r \<noteq> longest) runs);
          groups = \<lambda>gs. joined '':'' (map hex_digits gs)
      in if longest < 2 then groups gs else groups (take first gs) @ ''::'' @ groups (drop (first + longest) gs))"

definition IP_String :: "bytes \<Rightarrow> string" where
  "IP_String ip =
     (if ip = [] then ''<nil>''
      else case To4 ip of
        Some ip4 \<Rightarrow> joined ''.'' (map (\<lambda>x. dec_digits (unat x)) ip4)
      | None \<Rightarrow> if length ip = 16 then IPv6_String ip else CHR ''?'' # fmt_x ip)"

definition JoinHostPort :: "string \<Rightarrow> string \<Rightarrow> string" where
  "JoinHostPort host port =
     (if CHR '':'' \<in> set host \<or> CHR ''%'' \<in> set host then ''['' @ host @ '']:'' @ port else host @ '':'' @ port)"

text \<open>Evaluation on numerals.\<close>

lemma digits_eval:
  "n < 10 \<Longrightarrow> dec_digits n = [digit_char n]" "10 \<le> n \<Longrightarrow> dec_digits n = dec_digits (n div 10) @ [digit_char (n mod 10)]"
  "n < 16 \<Longrightarrow> hex_digits n = [hex_char n]" "16 \<le> n \<Longrightarrow> hex_digits n = hex_digits (n div 16) @ [hex_char (n mod 16)]"
  by (subst dec_digits.simps hex_digits.simps; simp)+

lemmas address_eval = IP_String_def To4_def IPv6_String_def Let_def digits_eval hex_char_def digit_char_def char_of_def

lemma IP_String_examples:
  "IP_String [127, 0, 0, 1] = ''127.0.0.1''"
  "IP_String [0, 0, 0, 0, 0, 0, 0, 0, 0, 0, 255, 255, 127, 0, 0, 1] = ''127.0.0.1''"
  "IP_String [32, 1, 13, 184, 0, 0, 0, 0, 0, 0, 0, 0, 0, 0, 0, 1] = ''2001:db8::1''"
  "IP_String [0, 0, 0, 0, 0, 0, 0, 0, 0, 0, 0, 0, 0, 0, 0, 0] = ''::''"
  "IP_String [1, 2, 0, 0, 0, 0, 3, 4, 0, 0, 0, 0, 0, 0, 171, 205] = ''102:0:0:304::abcd''"
  by (simp_all add: address_eval bit_Suc_0_iff)

definition Peer_String :: "Peer \<Rightarrow> string" where
  "Peer_String p =
     (let loc = JoinHostPort (IP_String (peer_IP p)) (fmt_d (peer_Port p))
      in if length (peer_ID p) \<noteq> 0 then peer_Name p @ '':'' @ fmt_x (peer_ID p) @ '' at '' @ loc else loc)"

text \<open>The addresses of the socket are what \<open>LocalAddr\<close> and \<open>RemoteAddr\<close> print; a peer of the connection may be \<open>nil\<close>.\<close>

definition PeerConnection_String :: "string \<Rightarrow> string \<Rightarrow> Peer option \<Rightarrow> Peer option \<Rightarrow> string" where
  "PeerConnection_String localAddr remoteAddr fromPeer toPeer =
     ''PeerConnection{Conn: ['' @ localAddr @ '' -> '' @ remoteAddr @ ''] | '' @
     (case fromPeer of None \<Rightarrow> '''' | Some p \<Rightarrow> ''FromPeer: ['' @ Peer_String p @ ''] | '') @
     (case toPeer of None \<Rightarrow> '''' | Some p \<Rightarrow> ''ToPeer: ['' @ Peer_String p @ '']}'')"

text \<open>The test for an empty id never fails, an id being an array of 20 bytes: a peer that a tracker named without one prints a row of zeros.\<close>

lemma hex_char_inj: "a < 16 \<Longrightarrow> b < 16 \<Longrightarrow> hex_char a = hex_char b \<longleftrightarrow> a = b"
proof -
  have "\<forall>a \<in> set [0..<16]. \<forall>b \<in> set [0..<16]. hex_char a = hex_char b \<longrightarrow> a = b" by code_simp
  then show "a < 16 \<Longrightarrow> b < 16 \<Longrightarrow> hex_char a = hex_char b \<longleftrightarrow> a = b" by auto
qed

lemma length_fmt_x: "length (fmt_x b) = 2 * length b"
  by (induction b) (simp_all add: fmt_x_def)

lemma unat_lt_8: "unat (z :: 8 word) < 256"
  using unsigned_less [of z, where ?'a = nat] by simp

lemma unat_nibbles: "unat (z :: 8 word) div 16 < 16" "unat z mod 16 < 16"
  using unat_lt_8 [of z] by simp_all

lemma fmt_x_inj: "fmt_x a = fmt_x b \<Longrightarrow> a = b"
proof (induction a arbitrary: b)
  case Nil
  then show ?case using length_fmt_x [of b] by (simp add: fmt_x_def)
next
  case (Cons x a)
  then obtain y c where b: "b = y # c" by (cases b) (simp_all add: fmt_x_def)
  have nibbles: "unat z div 16 < 16" "unat z mod 16 < 16" for z :: "8 word" using unat_nibbles [of z] by simp_all
  have "unat x div 16 = unat y div 16" "unat x mod 16 = unat y mod 16" "a = c"
    using Cons.prems Cons.IH [of c] hex_char_inj nibbles by (auto simp: b fmt_x_def)
  then have "unat x = unat y" by (metis div_mult_mod_eq)
  then show ?case using \<open>a = c\<close> by (simp add: b word_unat_eq_iff)
qed

lemma Peer_String_prefix:
  assumes "length (peer_ID p) = 20"
  shows "take (length (peer_Name p) + 41) (Peer_String p) = peer_Name p @ '':'' @ fmt_x (peer_ID p)"
  using assms length_fmt_x [of "peer_ID p"] by (auto simp: Peer_String_def Let_def)

lemma Peer_String_shows_id:
  assumes "length (peer_ID p) = 20" "length (peer_ID q) = 20" "peer_Name p = peer_Name q" "Peer_String p = Peer_String q"
  shows "peer_ID p = peer_ID q"
proof (rule fmt_x_inj)
  show "fmt_x (peer_ID p) = fmt_x (peer_ID q)"
    using Peer_String_prefix [OF assms(1)] Peer_String_prefix [OF assms(2)] assms(3,4) by simp
qed

lemma zeros_fmt_x: "fmt_x (replicate 20 0) = ''0000000000000000000000000000000000000000''"
  by code_simp

lemma Peer_String_no_id:
  "Peer_String (zero_peer\<lparr>peer_IP := [10, 0, 0, 1], peer_Port := 6881\<rparr>) =
   '':0000000000000000000000000000000000000000 at 10.0.0.1:6881''"
  by (simp add: Peer_String_def zero_peer_def JoinHostPort_def fmt_d_def zeros_fmt_x address_eval bit_Suc_0_iff)

end
