(* ===== verification/Test_Data.thy ===== *)
theory Test_Data
  imports PeerMsg_Properties FileInfo_Properties Peers Printing "HOL-Library.Stream"
begin

text \<open>
  The random data and the random peers that the tests of the repository are built on (\<^verbatim>\<open>GetRandomPeerMsgs\<close>, \<^verbatim>\<open>NewTestPeer\<close>,
  \<^verbatim>\<open>NewRandomBlock\<close>, \<^verbatim>\<open>NewRandomPieces\<close>, \<^verbatim>\<open>NewFileInfoFilledWithRandomData\<close>). The random source is a stream of integers, one for each number or
  byte that is drawn, and the theorems hold for every stream.
\<close>

section \<open>The random source\<close>

type_synonym rng = "int stream"

definition draw :: "(rng, int) act" where
  "draw rnd = (stl rnd, Ok (shd rnd))"

text \<open>\<open>rand.Intn(n)\<close>, and \<open>rand.Read\<close> of \<^verbatim>\<open>math/rand\<close>, which always fills its buffer.\<close>

definition rand_Intn :: "int \<Rightarrow> (rng, int) act" where
  "rand_Intn n = act_bind draw (\<lambda>r. ret (if n \<le> 0 then Panic ExplicitPanic else Ok (r mod n)))"

definition rand_Read :: "nat \<Rightarrow> (rng, bytes) act" where
  "rand_Read n rnd = (sdrop n rnd, Ok (map word_of_int (stake n rnd)))"

text \<open>\<open>rand.Read\<close> of \<^verbatim>\<open>crypto/rand\<close>: a negative first draw stands for a source that fails.\<close>

definition crypto_Read :: "nat \<Rightarrow> (rng, bytes) act" where
  "crypto_Read n = act_bind draw (\<lambda>r. if r < 0 then ret (Err OsError) else rand_Read n)"

definition rand_range :: "int \<Rightarrow> int \<Rightarrow> (rng, int) act" where
  "rand_range mn mx = act_bind draw (\<lambda>r. ret (RandRange r mn mx))"

definition RandByteSlice :: "int \<Rightarrow> (rng, bytes) act" where
  "RandByteSlice mx = act_bind (ret (make_bytes mx)) (\<lambda>b. act_wrap ERR_RAND_BYTESLICE (rand_Read (length b)))"

text \<open>\<open>IsPortTaken\<close>: whether \<open>net.DialTimeout\<close> gives a connection to the local port.\<close>

definition IsPortTaken :: "(string \<Rightarrow> string \<Rightarrow> bool) \<Rightarrow> string \<Rightarrow> bool" where
  "IsPortTaken Dial port = Dial '''' port"

lemma length_rand_Read: "rand_Read n rnd = (rnd', Ok b) \<Longrightarrow> length b = n"
  by (auto simp: rand_Read_def)

lemma RandByteSlice_eq:
  "0 \<le> mx \<Longrightarrow> RandByteSlice mx rnd = (sdrop (nat mx) rnd, Ok (map word_of_int (stake (nat mx) rnd)))"
  by (simp add: RandByteSlice_def make_bytes_def act_simps rand_Read_def)

section \<open>Blocks and pieces\<close>

definition NewBlockFromFile :: "faults \<Rightarrow> int \<Rightarrow> uint32 \<Rightarrow> string \<Rightarrow> string \<Rightarrow> fs \<Rightarrow> Block res" where
  "NewBlockFromFile flt pieceIdx begin dir name fs =
     (case snd (os_Open flt dir name fs) of
       Ok (File payload) \<Rightarrow> Ok (NewBlock 0 pieceIdx begin (word_of_nat (length payload)) payload)
     | _ \<Rightarrow> Panic ExplicitPanic)"

definition NewRandomBlock :: "int \<Rightarrow> int \<Rightarrow> int \<Rightarrow> (rng, Block) act" where
  "NewRandomBlock pieceIdx blockIdx maxBuffSize =
     act_bind (rand_range 0 maxBuffSize) (\<lambda>size rnd.
       case RandByteSlice size rnd of
         (rnd, Ok randBuff) \<Rightarrow>
           act_bind (rand_range 0 0xffff) (\<lambda>begin.
             ret (Ok (NewBlock pieceIdx blockIdx (word_of_int begin) (word_of_nat (length randBuff)) randBuff))) rnd
       | (rnd, Err e) \<Rightarrow> (rnd, Panic ExplicitPanic)
       | (rnd, Panic p) \<Rightarrow> (rnd, Panic p)
       | (rnd, Hang) \<Rightarrow> (rnd, Hang))"

text \<open>Filling the blocks of a piece in turn: \<open>fill b\<close> gives the bytes of block \<open>b\<close>.\<close>

fun fill_blocks :: "(Block \<Rightarrow> (rng, bytes) act) \<Rightarrow> Block list \<Rightarrow> (rng, Block list) act" where
  "fill_blocks fill [] = ret (Ok [])"
| "fill_blocks fill (b # bs) =
     act_bind (fill b) (\<lambda>buff. act_bind (fill_blocks fill bs) (\<lambda>bs. ret (Ok (b\<lparr>blk_Buff := buff\<rparr> # bs))))"

definition panic_on_error :: "'a res \<Rightarrow> 'a res" where
  "panic_on_error r = (case r of Err e \<Rightarrow> Panic ExplicitPanic | _ \<Rightarrow> r)"

fun random_pieces :: "int list \<Rightarrow> int \<Rightarrow> int \<Rightarrow> SafePieces \<Rightarrow> (rng, SafePieces) act" where
  "random_pieces [] pieceLength blockLength pieces = ret (Ok pieces)"
| "random_pieces (pieceIdx # is) pieceLength blockLength pieces =
     act_bind (ret (CalculateNewPiece pieceIdx pieceLength blockLength True)) (\<lambda>p.
     act_bind (fill_blocks (\<lambda>b rnd. case RandByteSlice blockLength rnd of (rnd, r) \<Rightarrow> (rnd, panic_on_error r)) (piece_blocks p)) (\<lambda>bs.
       random_pieces is pieceLength blockLength (Put (p\<lparr>piece_blocks := bs\<rparr>) pieces)))"

definition NewRandomPieces :: "int \<Rightarrow> int \<Rightarrow> int \<Rightarrow> (rng, SafePieces) act" where
  "NewRandomPieces pieceCount pieceLength blockLength =
     random_pieces [0..pieceCount - 1] pieceLength blockLength NewSafePieces"

text \<open>\<open>Data()\<close>: the map itself.\<close>

definition Data :: "SafePieces \<Rightarrow> SafePieces" where
  "Data self = self"

section \<open>A torrent filled with random data\<close>

text \<open>One turn of the loop: piece \<open>i\<close> gets the bytes of its blocks, and is marked when seeding.\<close>

definition fill_piece :: "bool \<Rightarrow> int \<Rightarrow> SafePieces \<Rightarrow> (rng, SafePieces) act" where
  "fill_piece isSeeding i pieces = (case Get pieces i of
       None \<Rightarrow> ret (Panic ExplicitPanic)
     | Some p \<Rightarrow>
         act_bind (fill_blocks (\<lambda>b. crypto_Read (unat (blk_Length b))) (piece_blocks p)) (\<lambda>bs.
           let pieces = AList.update i (p\<lparr>piece_blocks := bs\<rparr>) pieces in
           ret (if isSeeding then MarkAsDone pieces (piece_idx p) else Ok pieces)))"

fun fill_pieces :: "bool \<Rightarrow> int list \<Rightarrow> SafePieces \<Rightarrow> (rng, SafePieces) act" where
  "fill_pieces isSeeding [] pieces = ret (Ok pieces)"
| "fill_pieces isSeeding (i # is) pieces = act_bind (fill_piece isSeeding i pieces) (fill_pieces isSeeding is)"

definition NewFileInfoFilledWithRandomData ::
    "faults \<Rightarrow> int \<Rightarrow> int \<Rightarrow> int \<Rightarrow> string \<Rightarrow> string \<Rightarrow> Info option \<Rightarrow> bool \<Rightarrow> (fs \<times> rng, FileInfo) act" where
  "NewFileInfoFilledWithRandomData flt totalPieces pieceLength blockLength finalDownloadDir downloadedBlocksDir torrentInfo isSeeding =
     (\<lambda>(fs, rnd). case NewFileInfo flt totalPieces pieceLength blockLength finalDownloadDir downloadedBlocksDir torrentInfo isSeeding fs of
         (fs, Ok myFileInfo) \<Rightarrow>
           (case fill_pieces isSeeding [0..Len (fi_Pieces myFileInfo) - 1] (fi_Pieces myFileInfo) rnd of
             (rnd, Ok pieces) \<Rightarrow> ((fs, rnd), Ok (myFileInfo\<lparr>fi_Pieces := pieces\<rparr>))
           | (rnd, Err e) \<Rightarrow> ((fs, rnd), Err e)
           | (rnd, Panic p) \<Rightarrow> ((fs, rnd), Panic p)
           | (rnd, Hang) \<Rightarrow> ((fs, rnd), Hang))
       | (fs, Err e) \<Rightarrow> ((fs, rnd), Err e)
       | (fs, Panic p) \<Rightarrow> ((fs, rnd), Panic p)
       | (fs, Hang) \<Rightarrow> ((fs, rnd), Hang))"

section \<open>Random messages\<close>

text \<open>
  The message types as the \<open>switch\<close> numbers them. A draw is below nine: handshake (99) and keep-alive (98) are never drawn, and eight is
  the default.
\<close>

definition PEERMSG_HANDSHAKE :: int where "PEERMSG_HANDSHAKE = 99"
definition PEERMSG_KEEP_ALIVE :: int where "PEERMSG_KEEP_ALIVE = 98"
definition MAX_PEERMSG_TYPES :: int where "MAX_PEERMSG_TYPES = 10"

lemmas message_kinds = PEERMSG_HANDSHAKE_def PEERMSG_KEEP_ALIVE_def MAX_PEERMSG_TYPES_def PEERMSG_defs

definition random_block :: "(rng, Block) act" where
  "random_block = act_bind (rand_Read 40) (\<lambda>buff. act_bind (rand_Intn 10) (\<lambda>idx. act_bind (rand_Intn 10) (\<lambda>pieceIdx.
     act_bind (rand_Intn 10) (\<lambda>begin. act_bind (rand_Intn 10) (\<lambda>len.
       ret (Ok (NewBlock idx pieceIdx (word_of_int begin) (word_of_int len) buff)))))))"

definition random_bitfield :: "(rng, PeerMsg) act" where
  "random_bitfield = act_bind (rand_range 1 100) (\<lambda>totalPieces. act_bind (rand_range 1 100) (\<lambda>pieceLength.
     act_bind (rand_range 1 100) (\<lambda>blockLength.
       act_bind (ret (snd (NewFileInfo no_faults totalPieces pieceLength blockLength '''' '''' None False []))) (\<lambda>fileInfo.
         ret (BuildPeerBitfieldMsg (Some (fi_Pieces fileInfo)))))))"

definition random_msg :: "(rng, PeerMsg) act" where
  "random_msg = act_bind (rand_Intn (MAX_PEERMSG_TYPES - 1)) (\<lambda>kind.
     if kind = PEERMSG_HANDSHAKE then act_bind (rand_Read 20) (\<lambda>buff. ret (Ok (BuildPeerHandshakeMsg buff buff)))
     else if kind = PEERMSG_KEEP_ALIVE then ret (Ok BuildPeerKeepAliveMsg)
     else if kind = uint PEERMSG_CHOKED then ret (Ok BuildPeerChokedMsg)
     else if kind = uint PEERMSG_UNCHOKED then ret (Ok BuildPeerUnchokedMsg)
     else if kind = uint PEERMSG_INTERESTED then ret (Ok BuildPeerInterestedMsg)
     else if kind = uint PEERMSG_NOT_INTERESTED then ret (Ok BuildPeerNotInterestedMsg)
     else if kind = uint PEERMSG_HAVE then act_bind draw (\<lambda>r. ret (Ok (BuildPeerHaveMsg (word_of_int r))))
     else if kind = uint PEERMSG_BITFIELD then (\<lambda>rnd. case random_bitfield rnd of (rnd, r) \<Rightarrow> (rnd, panic_on_error r))
     else if kind = uint PEERMSG_REQUEST then act_bind random_block (\<lambda>b. ret (panic_on_error (BuildPeerRequestMsg (Some b))))
     else if kind = uint PEERMSG_PIECE then act_bind random_block (\<lambda>b. ret (Ok (BuildPeerPieceMsg b)))
     else ret (Ok BuildPeerKeepAliveMsg))"

fun random_msgs :: "nat \<Rightarrow> (rng, PeerMsg list) act" where
  "random_msgs 0 = ret (Ok [])"
| "random_msgs (Suc n) = act_bind random_msg (\<lambda>m. act_bind (random_msgs n) (\<lambda>ms. ret (Ok (m # ms))))"

definition GetRandomPeerMsgs :: "int \<Rightarrow> (rng, PeerMsg list) act" where
  "GetRandomPeerMsgs n = random_msgs (nat n)"

section \<open>Test peers\<close>

definition random_port :: "(rng, string) act" where
  "random_port = act_bind (rand_range 1 3) (\<lambda>a. act_bind (rand_range 1 3) (\<lambda>b. act_bind (rand_range 1 3) (\<lambda>c.
     act_bind (rand_range 1 3) (\<lambda>d. act_bind (rand_range 1 3) (\<lambda>e.
       ret (Ok (concat (map fmt_d [a, b, c, d, e]))))))))"

text \<open>The search for a free port may not end; then the value is \<open>None\<close>.\<close>

partial_function (option) find_port :: "(string \<Rightarrow> string \<Rightarrow> bool) \<Rightarrow> rng \<Rightarrow> (rng \<times> string res) option" where
  "find_port Dial rnd = (case random_port rnd of
       (rnd, Ok port) \<Rightarrow> if \<not> IsPortTaken Dial port then Some (rnd, Ok port) else find_port Dial rnd
     | (rnd, r) \<Rightarrow> Some (rnd, r))"

definition NewTestPeer :: "(string \<Rightarrow> string \<Rightarrow> bool) \<Rightarrow> int \<Rightarrow> rng \<Rightarrow> (rng \<times> Peer res) option" where
  "NewTestPeer Dial idx rnd = map_option (\<lambda>(rnd, r). (rnd, res_bind r (\<lambda>portAsString.
     Ok \<lparr>peer_Name = ''TestPeer #'' @ fmt_d idx, peer_IP = replicate 10 0 @ [0xff, 0xff, 127, 0, 0, 1],
         peer_Port = Atoi portAsString,
         peer_ID = copy_20 (bytes_of_string (''-testme-'' @ portAsString))\<rparr>))) (find_port Dial rnd)"

section \<open>What the random data is\<close>

lemma rand_Intn_cases: "0 < n \<Longrightarrow> rand_Intn n rnd = (stl rnd, Ok (shd rnd mod n))"
  by (simp add: rand_Intn_def draw_def act_simps)

lemma rand_range_cases: "mn < mx \<Longrightarrow> rand_range mn mx rnd = (stl rnd, Ok (shd rnd mod (mx - mn) + mx))"
  by (simp add: rand_range_def draw_def act_simps RandRange_def)

text \<open>
  \<open>NewRandomBlock\<close>: the size of the buffer is at least \<open>maxBuffSize\<close>, and the two indices are swapped.
\<close>

lemma NewRandomBlock_size:
  assumes "NewRandomBlock pieceIdx blockIdx maxBuffSize rnd = (rnd', Ok b)"
  shows "maxBuffSize \<le> int (length (blk_Buff b)) \<and> int (length (blk_Buff b)) < 2 * maxBuffSize \<and>
    blk_Idx b = pieceIdx \<and> blk_PieceIdx b = blockIdx"
proof (cases "0 < maxBuffSize")
  case True
  then have "0 \<le> shd rnd mod maxBuffSize" "shd rnd mod maxBuffSize < maxBuffSize" by simp_all
  then show ?thesis
    using assms True
    by (auto simp: NewRandomBlock_def act_bind_Ok [OF rand_range_cases] RandByteSlice_eq rand_range_cases ret_def)
next
  case False
  then have "rand_range 0 maxBuffSize rnd = (stl rnd, Panic ExplicitPanic)"
    by (simp add: rand_range_def draw_def act_simps RandRange_def)
  then show ?thesis using assms by (simp add: NewRandomBlock_def act_simps)
qed

lemma fill_blocks_Ok:
  assumes "\<And>b rnd rnd' buff. fill b rnd = (rnd', Ok buff) \<Longrightarrow> Q b buff" "fill_blocks fill bs rnd = (rnd', Ok bs')"
  shows "list_all2 (\<lambda>b b'. b' = b\<lparr>blk_Buff := blk_Buff b'\<rparr> \<and> Q b (blk_Buff b')) bs bs'"
  using assms(2)
proof (induction bs arbitrary: rnd bs')
  case (Cons b bs)
  then obtain rnd1 buff cs where "fill b rnd = (rnd1, Ok buff)" "fill_blocks fill bs rnd1 = (rnd', Ok cs)"
      "bs' = b\<lparr>blk_Buff := buff\<rparr> # cs"
    by (auto simp: act_bind_eq_Ok ret_def)
  then show ?case using Cons.IH assms(1) by simp
qed (simp add: ret_def)

text \<open>
  The bitfield case always panics: \<open>NewFileInfo\<close> is called without a torrent and reads its length.
\<close>

lemma cut_pieces_no_torrent:
  assumes "0 < pl" "0 < bl"
  shows "cut_pieces n pl bl None seeding = Panic NilDereference"
proof -
  have "\<exists>sp'. for_each (\<lambda>i pieces. res_bind (CalculateNewPiece i pl bl seeding) (\<lambda>p. Ok (Put p pieces))) is sp = Ok sp'" for "is" sp
    by (induction "is" arbitrary: sp) (simp_all add: CalculateNewPiece_eq [OF assms(2,1)])
  from this [of "[0..n - 2]" NewSafePieces] show ?thesis by (auto simp: cut_pieces_def)
qed

lemma random_bitfield_panics: "\<exists>rnd'. random_bitfield rnd = (rnd', Panic NilDereference)"
proof -
  have "0 < shd r mod 99 + 100" for r :: rng by (rule add_nonneg_pos) simp_all
  then have "NewFileInfo no_faults n (shd r mod 99 + 100) (shd q mod 99 + 100) [] [] None False [] = ([], Panic NilDereference)" for n r q
    by (simp add: NewFileInfo_def act_simps cut_pieces_no_torrent)
  then show ?thesis by (simp add: random_bitfield_def act_bind_Ok [OF rand_range_cases] act_simps)
qed

lemma rand_Read_bind: "act_bind (rand_Read n) f rnd = f (map word_of_int (stake n rnd)) (sdrop n rnd)"
  by (simp add: act_bind_def rand_Read_def)

lemma random_block_Ok: "\<exists>rnd' b. random_block rnd = (rnd', Ok b)"
  by (simp add: random_block_def rand_Read_bind act_bind_Ok [OF rand_Intn_cases] act_simps del: stake.simps sdrop.simps)

lemma random_msg_cases:
  obtains (bitfield) rnd' where "shd rnd mod 9 = 5" "random_msg rnd = (rnd', Panic NilDereference)"
  | (msg) rnd' m where "shd rnd mod 9 \<noteq> 5" "random_msg rnd = (rnd', Ok m)" "wf_msg m" "\<And>p. m \<noteq> HandshakePeerMsg p"
      "\<And>p. m \<noteq> BitfieldPeerMsg p"
proof (cases "shd rnd mod 9 = 5")
  case True
  obtain rnd' where "random_bitfield (stl rnd) = (rnd', Panic NilDereference)" using random_bitfield_panics by blast
  then show ?thesis
    using True by (intro bitfield) (simp_all add: random_msg_def message_kinds act_bind_Ok [OF rand_Intn_cases] panic_on_error_def)
next
  case False
  obtain rnd1 b where b: "random_block (stl rnd) = (rnd1, Ok b)" using random_block_Ok by blast
  obtain m where m: "BuildPeerRequestMsg (Some b) = Ok m" by (simp add: BuildPeerRequestMsg_def)
  have "shd rnd mod 9 < 9" by simp
  then have never: "shd rnd mod 9 \<noteq> 99" "shd rnd mod 9 \<noteq> 98" by linarith+
  have "\<exists>rnd' m. random_msg rnd = (rnd', Ok m) \<and> wf_msg m \<and> (\<forall>p. m \<noteq> HandshakePeerMsg p) \<and> (\<forall>p. m \<noteq> BitfieldPeerMsg p)"
    using False never b m wf_builders(9) [OF m]
    by (auto simp: random_msg_def message_kinds act_bind_Ok [OF rand_Intn_cases] act_simps draw_def panic_on_error_def BuildPeerRequestMsg_def
        BuildPeerChokedMsg_def BuildPeerUnchokedMsg_def BuildPeerInterestedMsg_def BuildPeerNotInterestedMsg_def
        BuildPeerHaveMsg_def BuildPeerPieceMsg_def BuildPeerKeepAliveMsg_def)
  then show ?thesis using False msg by blast
qed

text \<open>
  Random messages: \<open>GetRandomPeerMsgs\<close> either panics, because a BITFIELD was drawn, or returns as many messages as it was
  asked for, all well formed, none of them a handshake or a BITFIELD.
\<close>

theorem GetRandomPeerMsgs_cases:
  "case GetRandomPeerMsgs n rnd of
      (rnd', Ok ms) \<Rightarrow> length ms = nat n \<and> (\<forall>m \<in> set ms. wf_msg m \<and> (\<forall>p. m \<noteq> HandshakePeerMsg p \<and> m \<noteq> BitfieldPeerMsg p))
    | (rnd', Panic p) \<Rightarrow> p = NilDereference
    | (rnd', Err e) \<Rightarrow> False
    | (rnd', Hang) \<Rightarrow> False"
proof -
  have "(\<exists>rnd'. random_msgs k rnd = (rnd', Panic NilDereference)) \<or>
      (\<exists>rnd' ms. random_msgs k rnd = (rnd', Ok ms) \<and> length ms = k \<and>
        (\<forall>m \<in> set ms. wf_msg m \<and> (\<forall>p. m \<noteq> HandshakePeerMsg p \<and> m \<noteq> BitfieldPeerMsg p)))" for k
  proof (induction k arbitrary: rnd)
    case (Suc k)
    show ?case
    proof (cases rule: random_msg_cases [of rnd])
      case (msg rnd1 m)
      then show ?thesis using Suc.IH [of rnd1] by (fastforce simp: act_simps ret_def)
    qed (simp add: act_simps)
  qed (simp add: ret_def)
  from this [of "nat n"] show ?thesis by (auto simp: GetRandomPeerMsgs_def)
qed

text \<open>
  Test peers: the port that \<open>NewTestPeer\<close> finds is free and one of the 32 numbers of five digits three and four, so the search
  never ends when these are taken.
\<close>

definition test_ports :: "string list" where
  "test_ports = map (\<lambda>(a, b, c, d, e). [a, b, c, d, e])
     (List.product ''34'' (List.product ''34'' (List.product ''34'' (List.product ''34'' ''34''))))"

lemma rand_range_digit: "\<exists>n. rand_range 1 3 rnd = (stl rnd, Ok n) \<and> n \<in> {3, 4}"
proof -
  have "0 \<le> shd rnd mod 2" "shd rnd mod 2 < 2" by simp_all
  then have "shd rnd mod 2 + 3 \<in> {3, 4}" by auto
  then show ?thesis using rand_range_cases [of 1 3 rnd] by simp
qed

lemma random_port_range: "\<exists>rnd' port. random_port rnd = (rnd', Ok port) \<and> port \<in> set test_ports"
proof -
  define f where "f = (\<lambda>rnd. shd rnd mod 2 + 3 :: int)"
  have f: "rand_range 1 3 r = (stl r, Ok (f r))" and digit: "fmt_d (f r) \<in> {''3'', ''4''}" for r
  proof -
    show "rand_range 1 3 r = (stl r, Ok (f r))" using rand_range_cases [of 1 3 r] by (simp add: f_def)
    have "0 \<le> shd r mod 2" "shd r mod 2 < 2" by simp_all
    then have "f r = 3 \<or> f r = 4" unfolding f_def by arith
    moreover have "fmt_d 3 = ''3''" "fmt_d 4 = ''4''" by code_simp+
    ultimately show "fmt_d (f r) \<in> {''3'', ''4''}" by auto
  qed
  let ?r = "\<lambda>n. (stl ^^ n) rnd"
  have "random_port rnd = (?r 5, Ok (concat (map (\<lambda>n. fmt_d (f (?r n))) [0, 1, 2, 3, 4])))"
    by (simp add: random_port_def act_bind_Ok [OF f] ret_def numeral_eq_Suc)
  moreover have "concat (map (\<lambda>n. fmt_d (f (?r n))) [0, 1, 2, 3, 4]) \<in> set test_ports"
    using digit [of "?r 0"] digit [of "?r 1"] digit [of "?r 2"] digit [of "?r 3"] digit [of "?r 4"]
    by (auto simp: test_ports_def)
  ultimately show ?thesis by blast
qed

theorem NewTestPeer_port:
  assumes "NewTestPeer Dial idx rnd = Some (rnd', r)"
  shows "\<exists>port p. port \<in> set test_ports \<and> \<not> IsPortTaken Dial port \<and> r = Ok p \<and>
    peer_ID p = bytes_of_string (''-testme-'' @ port) @ replicate 7 0"
proof -
  have found: "\<exists>port. snd y = Ok port \<and> port \<in> set test_ports \<and> \<not> IsPortTaken Dial port" if "find_port Dial rnd = Some y" for rnd y
  proof (rule find_port.raw_induct [where P = "\<lambda>D r y. \<exists>port. snd y = Ok port \<and> port \<in> set test_ports \<and> \<not> IsPortTaken D port", OF _ that])
    fix find Dial rnd and y :: "rng \<times> string res"
    assume IH: "\<And>Dial rnd y. find Dial rnd = Some y \<Longrightarrow>
        \<exists>port. snd y = Ok port \<and> port \<in> set test_ports \<and> \<not> IsPortTaken Dial port"
      and step: "(case random_port rnd of
       (rnd, Ok port) \<Rightarrow> if \<not> IsPortTaken Dial port then Some (rnd, Ok port) else find Dial rnd
     | (rnd, r) \<Rightarrow> Some (rnd, r)) = Some y"
    obtain rnd1 port where port: "random_port rnd = (rnd1, Ok port)" "port \<in> set test_ports" using random_port_range by blast
    have "(if \<not> IsPortTaken Dial port then Some (rnd1, Ok port) else find Dial rnd1) = Some y" using step unfolding port(1) by simp
    then show "\<exists>port. snd y = Ok port \<and> port \<in> set test_ports \<and> \<not> IsPortTaken Dial port"
      using port(2) IH [of Dial rnd1 y] by (auto split: if_splits)
  qed
  obtain y where y: "find_port Dial rnd = Some y" using assms by (auto simp: NewTestPeer_def)
  then obtain port where port: "snd y = Ok port" "port \<in> set test_ports" "\<not> IsPortTaken Dial port" using found by blast
  have "length (bytes_of_string (''-testme-'' @ port)) = 13" using port(2) by (auto simp: test_ports_def bytes_of_string_def)
  then have "copy_20 (bytes_of_string (''-testme-'' @ port)) = bytes_of_string (''-testme-'' @ port) @ replicate 7 0"
    by (simp add: copy_20_def)
  then show ?thesis using assms y port by (auto simp: NewTestPeer_def split: prod.splits)
qed

lemma NewTestPeer_never:
  assumes "\<forall>port \<in> set test_ports. IsPortTaken Dial port"
  shows "NewTestPeer Dial idx rnd = None"
proof (cases "NewTestPeer Dial idx rnd")
  case (Some y)
  then show ?thesis using NewTestPeer_port [of Dial idx rnd "fst y" "snd y"] assms by auto
qed

text \<open>Filling a torrent: every block gets as many bytes as it is long, and a seeding one is done.\<close>

definition filled_from :: "bool \<Rightarrow> PieceImpl \<Rightarrow> PieceImpl \<Rightarrow> bool" where
  "filled_from isSeeding p q \<longleftrightarrow>
     list_all2 (\<lambda>b b'. b' = b\<lparr>blk_Buff := blk_Buff b'\<rparr> \<and> length (blk_Buff b') = unat (blk_Length b)) (piece_blocks p) (piece_blocks q) \<and>
     piece_idx q = piece_idx p \<and> piece_status q = (if isSeeding then PIECESTATUS_DONE else piece_status p)"

lemma crypto_Read_length: "crypto_Read n rnd = (rnd', Ok b) \<Longrightarrow> length b = n"
  by (auto simp: crypto_Read_def act_bind_eq_Ok ret_def rand_Read_def split: if_splits)

lemma fill_piece_Ok:
  assumes "fill_piece isSeeding i sp rnd = (rnd', Ok sp')" "sp_wf sp"
  shows "\<exists>p q. Get sp i = Some p \<and> filled_from isSeeding p q \<and> sp' = AList.update i q sp \<and> sp_wf sp'"
proof -
  obtain p where p: "Get sp i = Some p" using assms(1) by (auto simp: fill_piece_def ret_def split: option.splits)
  then have idx: "piece_idx p = i" by (rule sp_wf_idx [OF assms(2)])
  obtain rnd1 bs where bs: "fill_blocks (\<lambda>b. crypto_Read (unat (blk_Length b))) (piece_blocks p) rnd = (rnd1, Ok bs)"
      "(if isSeeding then MarkAsDone (AList.update i (p\<lparr>piece_blocks := bs\<rparr>) sp) i else Ok (AList.update i (p\<lparr>piece_blocks := bs\<rparr>) sp)) =
        Ok sp'"
    using assms(1) p idx by (auto simp: fill_piece_def act_bind_eq_Ok ret_def Let_def)
  let ?q = "p\<lparr>piece_blocks := bs, piece_status := (if isSeeding then PIECESTATUS_DONE else piece_status p)\<rparr>"
  have "filled_from isSeeding p ?q"
    using fill_blocks_Ok [where Q = "\<lambda>b buff. length buff = unat (blk_Length b)", OF crypto_Read_length bs(1)]
    by (simp add: filled_from_def)
  moreover have "sp' = AList.update i ?q sp"
    using bs(2) by (auto simp: MarkAsDone_def on_piece_eq SetStatus_def split: if_splits)
  ultimately show ?thesis using p idx sp_wf_update [OF assms(2), of ?q i] by (intro exI [of _ p] exI [of _ ?q]) simp
qed

lemma fill_pieces_Ok:
  assumes "fill_pieces isSeeding is sp rnd = (rnd', Ok sp')" "sp_wf sp" "distinct is"
  shows "sp_wf sp' \<and> (\<forall>j. if j \<in> set is then rel_option (filled_from isSeeding) (Get sp j) (Get sp' j) \<and> Get sp j \<noteq> None
    else Get sp' j = Get sp j)"
  using assms
proof (induction "is" arbitrary: sp rnd)
  case (Cons i "is")
  then obtain rnd1 sp1 where step: "fill_piece isSeeding i sp rnd = (rnd1, Ok sp1)" "fill_pieces isSeeding is sp1 rnd1 = (rnd', Ok sp')"
    by (auto simp: act_bind_eq_Ok)
  obtain p q where pq: "Get sp i = Some p" "filled_from isSeeding p q" "sp1 = AList.update i q sp" "sp_wf sp1"
    using fill_piece_Ok [OF step(1) Cons.prems(2)] by blast
  have get: "Get sp1 j = (if j = i then Some q else Get sp j)" for j by (simp add: pq(3))
  note IH = Cons.IH [OF step(2) pq(4)]
  have rest: "sp_wf sp'" "\<And>j. if j \<in> set is then rel_option (filled_from isSeeding) (Get sp1 j) (Get sp' j) \<and> Get sp1 j \<noteq> None
      else Get sp' j = Get sp1 j"
    using IH Cons.prems(3) by auto
  have "if j \<in> set (i # is) then rel_option (filled_from isSeeding) (Get sp j) (Get sp' j) \<and> Get sp j \<noteq> None
      else Get sp' j = Get sp j" for j
    using rest(2) [of j] pq(1,2) Cons.prems(3) by (cases "j = i") (auto simp: get)
  then show ?case using rest(1) by blast
qed (simp add: ret_def)

text \<open>
  \<open>NewFileInfoFilledWithRandomData\<close>, when it succeeds: the pieces of the torrent, cut as by \<open>NewFileInfo\<close>, every block with as many bytes
  as it is long; all of them done when seeding.
\<close>

theorem NewFileInfoFilled_pieces:
  assumes "0 < bl" "0 < pl" "1 \<le> n" "0 \<le> info_Length info"
    and "NewFileInfoFilledWithRandomData no_faults n pl bl fdir bdir (Some info) seeding (fs, rnd) = ((fs', rnd'), Ok self)"
  shows "sp_wf (fi_Pieces self) \<and> (\<forall>i. case Get (fi_Pieces self) i of
      None \<Rightarrow> \<not> (0 \<le> i \<and> i < n)
    | Some q \<Rightarrow> 0 \<le> i \<and> i < n \<and> filled_from seeding (torrent_piece n pl (info_Length info) bl seeding i) q)"
proof -
  obtain sp where sp: "cut_pieces n pl bl (Some info) seeding = Ok sp" "sp_wf sp"
    "\<And>i. Get sp i = (if 0 \<le> i \<and> i < n then Some (torrent_piece n pl (info_Length info) bl seeding i) else None)"
    using cut_pieces_Ok [OF assms(1-4), of seeding] by blast
  obtain fs1 where new: "NewFileInfo no_faults n pl bl fdir bdir (Some info) seeding fs = (fs1,
      Ok \<lparr>fi_DownloadedBlocksDir = bdir, fi_FinalDownloadDir = fdir, fi_IsSeeding = seeding, fi_Pieces = sp, fi_torrentInfo = Some info\<rparr>)"
    using NewFileInfo_Ok [OF sp(1), of fdir bdir fs] by blast
  have fill: "fill_pieces seeding [0..Len sp - 1] sp rnd = (rnd', Ok (fi_Pieces self))"
    using assms(5) new by (auto simp: NewFileInfoFilledWithRandomData_def split: prod.splits res.splits)
  have "fst ` set sp = {0..n - 1}"
    using sp(3) by (auto simp: Get_Some_iff_key [symmetric] set_eq_iff split: if_splits)
  moreover have "distinct (map fst sp)" using sp(2) by (simp add: sp_wf_def)
  ultimately have "length sp = nat n" using distinct_card [of "map fst sp"] assms(3) by simp
  then have len: "Len sp = n" using assms(3) by (simp add: Len_def)
  note filled = fill_pieces_Ok [OF fill sp(2) distinct_upto, unfolded len]
  have "case Get (fi_Pieces self) i of None \<Rightarrow> \<not> (0 \<le> i \<and> i < n)
    | Some q \<Rightarrow> 0 \<le> i \<and> i < n \<and> filled_from seeding (torrent_piece n pl (info_Length info) bl seeding i) q" for i
  proof (cases "0 \<le> i \<and> i < n")
    case True
    then have "i \<in> set [0..n - 1]" by simp
    then have "rel_option (filled_from seeding) (Get sp i) (Get (fi_Pieces self) i)" using filled by meson
    then show ?thesis using True by (auto simp: sp(3) option_rel_Some1)
  next
    case False
    then have "i \<notin> set [0..n - 1]" by simp
    then have "Get (fi_Pieces self) i = Get sp i" using filled by meson
    then show ?thesis using False by (auto simp: sp(3))
  qed
  then show ?thesis using filled by blast
qed

end
