(* ===== verification/Spec2Isabelle.thy ===== *)
theory Spec2Isabelle
  imports PeerMsg_Properties FileInfo_Properties Client_Runs Ledger Unexpected Conn_Writer Program
    Two_Peers Settling Test_Data
begin

text \<open>
  A verification library for totorrent, a BitTorrent client in Go.

  \<^bold>\<open>The program.\<close> \<^verbatim>\<open>main.go\<close> decodes a torrent file, makes a \<open>FileInfo\<close> (\<^verbatim>\<open>fileinfo/fileinfo.go\<close>: the pieces and the two directories of the
  download), asks the trackers for peers (\<^verbatim>\<open>announce/announce.go\<close>) and lets a client peer connect with them (\<^verbatim>\<open>peer/peer.go\<close>,
  \<^verbatim>\<open>peer/clientpeer.go\<close>). Each connection (\<^verbatim>\<open>peer/peerconn.go\<close>) has a goroutine that reads messages, one that writes them, and one for each message
  that is handled (\<^verbatim>\<open>peer/peermsghandlers.go\<close>; the wire format is \<^verbatim>\<open>peer/peermsg.go\<close>). The connections share the store of pieces
  (\<^verbatim>\<open>piece/piece.go\<close>, \<^verbatim>\<open>piece/block.go\<close>), in which a connection reserves a piece before it asks for the blocks, through its block requester
  (\<^verbatim>\<open>peer/blockrequester.go\<close>), whose goroutines wait for the answers and ask again. When the last piece is complete, the blocks, each saved in a
  file of its own, are assembled, and the client serves blocks from the assembled file. \<^verbatim>\<open>util/bitfield.go\<close> and \<^verbatim>\<open>util/util.go\<close> are helpers.

  \<^bold>\<open>How Go is modelled.\<close> A struct is a record, a sum of message types a datatype. A function that can fail returns \<open>'a res\<close>: \<open>Ok\<close>, an error by its
  sentinel, a run-time panic by its kind, or \<open>Hang\<close> for a goroutine that blocks for ever. Code with effects is an action \<open>('s, 'a) act\<close>,
  which returns the state with every outcome. \<open>int\<close> is an unbounded integer, with \<open>i64\<close> written out where an intermediate value can leave
  64 bits; \<open>uint32\<close> and \<open>byte\<close> are words. A Go map is an association list, in the order of some iteration. A goroutine is an entry of
  a task list or a phase, and a run is a sequence of steps of any goroutines. What the program gets from outside
  (the network, the file system's failures, random numbers, HTTP, bencode, SHA-1, MD5) is an argument.

  \<^bold>\<open>The theories.\<close>
  \<^item> \<open>Prelude\<close>: outcomes and effects, loops over slices, byte buffers and \<^verbatim>\<open>encoding/binary\<close>; locale \<open>fixed_width_codec\<close>.
  \<^item> \<open>Util\<close>: \<open>Bitfield\<close> and the slice helpers; a bitfield is a finite set of indices (locale \<open>index_set\<close>).
  \<^item> \<open>Piece\<close>: blocks, pieces, \<open>CalculateNewPiece\<close>. The blocks of a piece tile it when its length is a multiple of the block length; their
    lengths always add up; the identity of the last block is wrong otherwise.
  \<^item> \<open>SafePieces\<close>: the store. Every operation that the code runs under the mutex is one step. In every interleaving a piece is reserved at most once,
    and \<open>TotalUndonePiecesLeft\<close> counts the pieces that are not done (locale \<open>reservations\<close>).
  \<^item> \<open>PeerMsg\<close>, \<open>PeerMsg_Properties\<close>: messages, encoding, builders, parser. Round trips, totality of the parser on arbitrary bytes, the BITFIELD
    message and its errors (locale \<open>wire_format\<close>).
  \<^item> \<open>MsgReader\<close>, \<open>Conn_Writer\<close>: \<open>ReadPeerMsg\<close> over what the calls of \<open>Read\<close> meet, and the writer goroutine. What one side writes in full the
    other side delivers; what happens to messages that share a packet or are split.
  \<^item> \<open>Files\<close>, \<open>FileInfo\<close>, \<open>FileInfo_Properties\<close>: a file system of directories of files in which every call may fail, and \<^verbatim>\<open>fileinfo.go\<close> on it.
    The layout of a torrent, saving and assembling blocks, serving blocks, and what a failure leaves behind (locale \<open>ordered_names\<close>).
  \<^item> \<open>BlockRequester\<close>, \<open>Handlers\<close>: the state of a connection, its requester and goroutines (\<open>run_task\<close>), and the handler of every message.
  \<^item> \<open>Handlers_Invariants\<close>, \<open>Client_Runs\<close>: what no message and no goroutine undoes (locales \<open>growing\<close>, \<open>handler_steps\<close>), for a client with
    any number of connections and any order of messages and goroutines.
  \<^item> \<open>Ledger\<close>: the abstract specification. A ledger maps a piece to its status and its downloader and has two operations; every run of the client is a
    sequence of them (a second interpretation of \<open>handler_steps\<close>, and \<open>reservations\<close> for the ledger itself).
  \<^item> \<open>Download\<close>, \<open>Whole_Download\<close>: the PIECE messages of a piece in any order, and a whole download from one peer, from \<open>NewFileInfo\<close> to the
    assembled file.
  \<^item> \<open>Seeding_Peer\<close>, \<open>Network\<close>, \<open>Two_Peers\<close>: the other side. A client with the file answers requests (\<open>serves\<close> is its invariant); two clients, each with its
    connection and the messages on their way to it (\<open>node\<close>), run the same handlers, and every message is encoded and parsed on its way
    (\<open>on_wire\<close>). One of them ends with the file of the other.
  \<^item> \<open>Wellformed_Messages\<close>: the type of what a client sends (a third interpretation of \<open>handler_steps\<close>).
  \<^item> \<open>Races\<close>: the handler of a PIECE message cut into \<open>stages\<close>, where other goroutines may run; the stages in a row are the handler, and
    the stages of the last two blocks, interleaved, complete their piece twice.
  \<^item> \<open>Fine_Runs\<close>: runs in which any number of PIECE handlers, on any connections, interleave at their stages among everything else a client does. The
    races do not corrupt the store: these runs refine the ledger too, undo no progress, and ask no piece of two peers.
  \<^item> \<open>Handler_Points\<close>: every handler and \<open>RequestNextPiece\<close> as a goroutine that is at a \<open>point\<close>; a step (\<open>point_step\<close>) is an operation under
    a lock, or one read or write of what handlers share without one. For every message, the steps of a goroutine that nobody interrupts are the handler.
  \<^item> \<open>Point_Runs\<close>: runs in which the handlers of all messages interleave at these points, on any connections (\<open>conc_run\<close>; \<open>conc_exec\<close> runs a
    schedule). The contract \<open>point_steps\<close>, which gives \<open>handler_steps\<close>, is interpreted for growth, for the ledger and for the messages sent:
    what holds of whole handlers holds of every interleaving.
  \<^item> \<open>Lost_Updates\<close>: what interleaving does break. An update of the queue of a connection is lost, and a piece is dequeued from an empty queue.
  \<^item> \<open>Settling\<close>: without further messages everything that runs comes to an end, on every schedule of handlers and requester goroutines. The measure
    is lexicographic: how far the handlers are, the blocks still to ask for, the iterations of \<open>RequestNextPiece\<close>, and the work of the requesters.
  \<^item> \<open>Goroutines\<close>, \<open>Unexpected\<close>: the goroutines of a connection end; what unanswered requests, unsolicited PIECE messages, pieces of other lengths
    and further HAVE messages lead to.
  \<^item> \<open>Peers\<close>, \<open>Announce\<close>: decoding the peers of a tracker's answer, peer ids, and the queries to the trackers.
  \<^item> \<open>Connections\<close>, \<open>Swarm\<close>, \<open>Swarm_Properties\<close>: dialling, accepting, listening, closing, and the coordinator \<open>ConnectWithAllPeers\<close> with the
    goroutines of \<open>connectWithPeer\<close> as events on their shared state (locale \<open>finite_runs\<close>). The coordinator returns; how many
    connections are running when it does.
  \<^item> \<open>Program\<close>: \<open>downloadTorrent\<close>, \<open>inspectTorrent\<close>, \<open>run\<close> and \<open>main\<close>, down to the exit code.
  \<^item> \<open>Printing\<close>, \<open>Test_Data\<close>: the \<open>String\<close> methods, those of messages injective up to the contents of a PIECE, with the addresses that
    \<^verbatim>\<open>net\<close> prints for peers and connections; the random
    blocks, pieces, torrents, messages and peers of the tests, with the random source a stream of integers that the theorems quantify over.

  \<^bold>\<open>Bounds.\<close> There is no fuel: loops are structural or have a measure (the reader consumes its events; the interleaved loops of \<open>RequestNextPiece\<close> have that of \<open>Settling\<close>). The connections of a client, the
  pieces and the blocks are unbounded unless a theorem says otherwise; lengths that the code keeps in 32 bits are words, and the theorems that
  need a length to fit say so. File names order like the indices they hold as long as these have at most ten digits (\<open>valid_key\<close>). The potential
  of a run of the coordinator is nine for each connection: dialling, the handshake, the writer's failure, the end of
  listening, the report of the end, and the receipt of at most four reports. A requester asks for a block at most four times. Seven stages are enough for a PIECE handler.
  In the transfer between two clients a block has at most 16627 bytes, so that its PIECE message fits the 16640 bytes that a reader accepts, there are
  at most 133080 pieces, so that the BITFIELD does, and their number is not one more than a multiple of eight, where the bitfield is a bit short.
  The search for a free test port may not end and is a partial function.

  \<^bold>\<open>Assumptions.\<close> In \<open>Point_Runs\<close> the steps of goroutines are atomic: reads and writes of a slice or a pointer are not torn, and
  \<open>SaveBlock\<close>, \<open>GetBlock\<close>, building a BITFIELD from the store, finalizing the download and setting the two downloading flags are one step each. Elsewhere a handler,
  and \<open>append\<close> to \<open>PeerConnections\<close>, is a single step; that this is what a goroutine alone does is a theorem of \<open>Handler_Points\<close>. In \<open>Two_Peers\<close> no timeout
  fires, no connection fails, and each message arrives whole and alone, as \<open>Conn_Writer\<close> has it. Sends to \<open>errChan\<close> of a connection are recorded and do not
  block. Timers are events that may happen at any time. \<open>Conn.Write\<close> writes everything or returns an error.

  \<^bold>\<open>Not modelled.\<close> Log output (the \<open>String\<close> methods it uses are);
  the generated \<^verbatim>\<open>piece/mocks\<close>; \<^verbatim>\<open>projectpath\<close>, one constant computed from the location of a source file; multi-file torrents beyond the panic that the
  code raises for them; the notes under \<^verbatim>\<open>sketch\<close>; the vendored libraries.
\<close>

end
